(* ===== verification/Sim_Prelude.thy ===== *)
theory Sim_Prelude
  imports Main "HOL-Library.Monad_Syntax" "HOL-Library.Multiset"
begin

text \<open>
  Shared vocabulary of the development.

  The simulator is C++ code whose failures are \<^verbatim>\<open>assert\<close>, \<^verbatim>\<open>panic\<close>, \<^verbatim>\<open>fatal\<close>, a thrown
  exception or an out-of-range \<^verbatim>\<open>operator[]\<close>. Each of them is the value \<open>None\<close> of an
  \<open>option\<close>; \<open>Some\<close> is a normal return. The \<open>do\<close> blocks below are therefore the C++
  statement sequences, and "returns \<open>Some\<close>" is the statement that no assertion fires and
  no vector is read out of bounds.

  C++ \<^verbatim>\<open>int\<close> is \<open>int\<close> (the code never comes near the 32-bit limits: the values are
  port, VC and router numbers, small counters and the sentinel -1). \<^verbatim>\<open>Cycles\<close> and
  \<^verbatim>\<open>Tick\<close> are 64-bit unsigned counters, modelled as \<open>nat\<close>.

  The theory provides checked vector access (\<open>vec_at\<close>, \<open>vec_set\<close>), \<^verbatim>\<open>assert\<close>
  (\<open>cassert\<close>), the plain \<^verbatim>\<open>for\<close> loop (\<open>for_each\<close>), \<^verbatim>\<open>std::map::operator[]\<close>
  (\<open>map_at\<close>), the wrap-around increment of the round-robin pointers (\<open>wrap_inc\<close>) and
  the generic lemmas about them.
\<close>

named_theorems vec_simps \<open>rewriting checked vector access\<close>
named_theorems run_simps \<open>unfolding successful runs of option-valued code\<close>

type_synonym Cycles = nat
type_synonym Tick = nat
type_synonym PortDirection = string

text \<open>The values returned by \<^verbatim>\<open>rand()\<close> and \<^verbatim>\<open>random()\<close>, in order.\<close>

type_synonym rng = "nat \<Rightarrow> nat"

definition rng_next :: "rng \<Rightarrow> nat \<times> rng" where
  "rng_next g = (g 0, \<lambda>n. g (Suc n))"

section \<open>Assertions and checked vectors\<close>

definition cassert :: "bool \<Rightarrow> unit option" where
  "cassert b = (if b then Some () else None)"

definition vec_at :: "'a list \<Rightarrow> int \<Rightarrow> 'a option" where
  "vec_at xs i = (if 0 \<le> i \<and> i < int (length xs) then Some (xs ! nat i) else None)"

definition vec_set :: "'a list \<Rightarrow> int \<Rightarrow> 'a \<Rightarrow> 'a list option" where
  "vec_set xs i v = (if 0 \<le> i \<and> i < int (length xs) then Some (xs[nat i := v]) else None)"

text \<open>\<^verbatim>\<open>v[i] += d\<close>\<close>

definition vec_add :: "'a::plus list \<Rightarrow> int \<Rightarrow> 'a \<Rightarrow> 'a list option" where
  "vec_add xs i d = do { x \<leftarrow> vec_at xs i; vec_set xs i (x + d) }"

text \<open>\<^verbatim>\<open>Cycles::operator-\<close> throws when the result would be negative.\<close>

definition cyc_sub :: "Cycles \<Rightarrow> Cycles \<Rightarrow> Cycles option" where
  "cyc_sub a b = (if b \<le> a then Some (a - b) else None)"

text \<open>
  \<^verbatim>\<open>std::map::operator[]\<close> yields a value-initialised entry for a missing key (0 for
  \<^verbatim>\<open>int\<close>, the empty string for \<^verbatim>\<open>std::string\<close>). The entry it inserts reads back as the
  same default, so a lookup with a default is the whole observable behaviour.
\<close>

definition map_at :: "'v \<Rightarrow> ('k \<rightharpoonup> 'v) \<Rightarrow> 'k \<Rightarrow> 'v" where
  "map_at d m k = (case m k of None \<Rightarrow> d | Some v \<Rightarrow> v)"

lemma cassert_eq_Some [simp]: "cassert b = Some u \<longleftrightarrow> b"
  by (simp add: cassert_def)

lemma cassert_eq_None [simp]: "cassert b = None \<longleftrightarrow> \<not> b"
  by (simp add: cassert_def)

lemma cassert_True [simp]: "cassert True = Some ()"
  by (simp add: cassert_def)

lemma cassert_False [simp]: "cassert False = None"
  by (simp add: cassert_def)

lemma vec_at_eq_Some:
  "vec_at xs i = Some x \<longleftrightarrow> 0 \<le> i \<and> i < int (length xs) \<and> xs ! nat i = x"
  by (auto simp: vec_at_def)

lemma vec_at_eq_None: "vec_at xs i = None \<longleftrightarrow> \<not> (0 \<le> i \<and> i < int (length xs))"
  by (auto simp: vec_at_def)

lemma vec_at_in [simp]: "0 \<le> i \<Longrightarrow> i < int (length xs) \<Longrightarrow> vec_at xs i = Some (xs ! nat i)"
  by (simp add: vec_at_def)

lemma vec_at_int [simp]: "i < length xs \<Longrightarrow> vec_at xs (int i) = Some (xs ! i)"
  by (simp add: vec_at_def)

lemma vec_at_mem: "vec_at xs i = Some x \<Longrightarrow> x \<in> set xs"
  by (auto simp: vec_at_eq_Some)

lemma vec_set_eq_Some:
  "vec_set xs i v = Some ys \<longleftrightarrow> 0 \<le> i \<and> i < int (length xs) \<and> ys = xs[nat i := v]"
  by (auto simp: vec_set_def)

lemma vec_set_in [simp]:
  "0 \<le> i \<Longrightarrow> i < int (length xs) \<Longrightarrow> vec_set xs i v = Some (xs[nat i := v])"
  by (simp add: vec_set_def)

lemma vec_set_at_same: "vec_set xs i v = Some ys \<Longrightarrow> vec_at ys i = Some v"
  by (auto simp: vec_set_eq_Some)

lemma vec_set_at_other:
  "vec_set xs i v = Some ys \<Longrightarrow> i \<noteq> j \<Longrightarrow> vec_at ys j = vec_at xs j"
  by (auto simp: vec_set_eq_Some vec_at_def nth_list_update)

lemma vec_set_length: "vec_set xs i v = Some ys \<Longrightarrow> length ys = length xs"
  by (auto simp: vec_set_eq_Some)

lemma vec_add_eq_Some:
  "vec_add xs i d = Some ys \<longleftrightarrow>
     0 \<le> i \<and> i < int (length xs) \<and> ys = xs[nat i := xs ! nat i + d]"
  by (auto simp: vec_add_def vec_at_def vec_set_def)

lemma vec_add_in [simp]:
  "0 \<le> i \<Longrightarrow> i < int (length xs) \<Longrightarrow> vec_add xs i d = Some (xs[nat i := xs ! nat i + d])"
  by (simp add: vec_add_eq_Some)

lemma cyc_sub_eq_Some: "cyc_sub a b = Some c \<longleftrightarrow> b \<le> a \<and> c = a - b"
  by (auto simp: cyc_sub_def)

lemma map_at_Some [simp]: "m k = Some v \<Longrightarrow> map_at d m k = v"
  by (simp add: map_at_def)

lemma map_at_None [simp]: "m k = None \<Longrightarrow> map_at d m k = d"
  by (simp add: map_at_def)

lemmas bind_Some = Option.bind_eq_Some_conv

declare vec_at_eq_Some [vec_simps] vec_set_eq_Some [vec_simps]
declare bind_Some [run_simps] vec_at_eq_Some [run_simps] vec_set_eq_Some [run_simps]
  cyc_sub_eq_Some [run_simps] vec_add_eq_Some [run_simps]

section \<open>Matrices\<close>

text \<open>\<^verbatim>\<open>m[i][j]\<close> as a read and as a write.\<close>

definition mat_set :: "'a list list \<Rightarrow> int \<Rightarrow> int \<Rightarrow> 'a \<Rightarrow> 'a list list option" where
  "mat_set m i j x = do { row \<leftarrow> vec_at m i; row \<leftarrow> vec_set row j x; vec_set m i row }"

definition mat_at :: "'a list list \<Rightarrow> int \<Rightarrow> int \<Rightarrow> 'a option" where
  "mat_at m i j = do { row \<leftarrow> vec_at m i; vec_at row j }"

lemma mat_at_eq_Some:
  "mat_at m i j = Some x \<longleftrightarrow> 0 \<le> i \<and> i < int (length m) \<and> 0 \<le> j \<and> j < int (length (m ! nat i)) \<and>
     x = m ! nat i ! nat j"
  by (auto simp: mat_at_def run_simps)

lemma mat_set_eq_Some:
  "mat_set m i j x = Some m' \<longleftrightarrow> 0 \<le> i \<and> i < int (length m) \<and> 0 \<le> j \<and> j < int (length (m ! nat i)) \<and>
     m' = m[nat i := (m ! nat i)[nat j := x]]"
  by (auto simp: mat_set_def run_simps)

declare mat_at_eq_Some [run_simps] mat_set_eq_Some [run_simps]

section \<open>Counting loops\<close>

text \<open>
  \<^verbatim>\<open>for (int i = 0; i < n; i++) body\<close> without \<^verbatim>\<open>break\<close> is \<open>for_each body [0..n - 1]\<close>.
\<close>

fun for_each :: "('a \<Rightarrow> 's \<Rightarrow> 's option) \<Rightarrow> 'a list \<Rightarrow> 's \<Rightarrow> 's option" where
  "for_each f [] s = Some s"
| "for_each f (x # xs) s = f x s \<bind> for_each f xs"

text \<open>Partial correctness and totality of such a loop from an invariant.\<close>

lemma for_each_inv:
  assumes "for_each f xs s = Some s'" and "P s"
    and "\<And>x s s'. x \<in> set xs \<Longrightarrow> P s \<Longrightarrow> f x s = Some s' \<Longrightarrow> P s'"
  shows "P s'"
  using assms
proof (induction xs arbitrary: s)
  case Nil
  then show ?case by simp
next
  case (Cons x xs)
  from Cons.prems(1) obtain t where t: "f x s = Some t" "for_each f xs t = Some s'"
    by (auto simp: bind_Some)
  have "P t" using Cons.prems(2,3) t(1) by (metis list.set_intros(1))
  then show ?case using Cons.IH [OF t(2)] Cons.prems(3) by (meson list.set_intros(2))
qed

lemma for_each_total:
  assumes "P s"
    and "\<And>x s. x \<in> set xs \<Longrightarrow> P s \<Longrightarrow> \<exists>s'. f x s = Some s' \<and> P s'"
  shows "\<exists>s'. for_each f xs s = Some s' \<and> P s'"
  using assms
proof (induction xs arbitrary: s)
  case Nil
  then show ?case by simp
next
  case (Cons x xs)
  obtain t where t: "f x s = Some t" "P t"
    using Cons.prems(1,2) by (meson list.set_intros(1))
  have "\<exists>s'. for_each f xs t = Some s' \<and> P s'"
    by (rule Cons.IH [OF t(2)]) (meson Cons.prems(2) list.set_intros(2))
  then show ?case using t(1) by simp
qed

lemma for_each_append: "for_each f (xs @ ys) s = for_each f xs s \<bind> for_each f ys"
  by (induction xs arbitrary: s) (auto split: Option.bind_splits)

lemma set_upto_minus1 [simp]: "set [0..n - 1] = {i. 0 \<le> i \<and> i < (n::int)}"
  by auto

lemma upto_snoc_nat: "[0..int (Suc k) - 1] = [0..int k - 1] @ [int k]"
  using upto_rec2 [of 0 "int k"] by (cases k) simp_all

lemma map_int_upt: "map int [0..<n] = [0..int n - 1]"
proof (induction n)
  case (Suc n)
  then show ?case using upto_snoc_nat [of n] by simp
qed simp

lemma list_ex_zip:
  "length xs = length ys \<Longrightarrow>
     list_ex (\<lambda>(x, y). P x y) (zip xs ys) \<longleftrightarrow> (\<exists>i < length xs. P (xs ! i) (ys ! i))"
proof (induction xs ys rule: list_induct2)
  case (Cons x xs y ys)
  then show ?case by (simp add: Ex_less_Suc2)
qed simp

section \<open>Round-robin pointers\<close>

lemma funpow_range_Suc:
  "(\<forall>j. 0 < j \<and> j \<le> Suc k \<longrightarrow> P ((f ^^ j) p)) \<longleftrightarrow>
     P (f p) \<and> (\<forall>j. 0 < j \<and> j \<le> k \<longrightarrow> P ((f ^^ j) (f p)))" (is "?L \<longleftrightarrow> ?R")
proof
  assume L: ?L
  have "P ((f ^^ j) (f p))" if "j \<le> k" for j
    using L [rule_format, of "Suc j"] that by (simp add: funpow_swap1)
  from this [of 0] this show ?R by auto
next
  assume R: ?R
  have "P ((f ^^ j) p)" if j: "0 < j" "j \<le> Suc k" for j
  proof (cases j)
    case (Suc i)
    then show ?thesis using R j by (cases "i = 0") (auto simp: funpow_swap1)
  qed (use j in simp)
  then show ?L by blast
qed

text \<open>\<^verbatim>\<open>i++; if (i >= n) i = 0;\<close>\<close>

definition wrap_inc :: "int \<Rightarrow> int \<Rightarrow> int" where
  "wrap_inc n i = (if i + 1 \<ge> n then 0 else i + 1)"

lemma wrap_inc_bounds: "0 \<le> i \<Longrightarrow> 0 < n \<Longrightarrow> 0 \<le> wrap_inc n i \<and> wrap_inc n i < n"
  by (simp add: wrap_inc_def)

lemma wrap_inc_mod: "0 \<le> i \<Longrightarrow> i < n \<Longrightarrow> wrap_inc n i = (i + 1) mod n"
  by (cases "i + 1 = n") (auto simp: wrap_inc_def)

text \<open>\<open>k\<close> increments from \<open>s\<close> visit position \<open>(s + k) mod n\<close>.\<close>

lemma wrap_inc_iter:
  assumes "0 \<le> s" "s < n"
  shows "(wrap_inc n ^^ k) s = (s + int k) mod n"
proof (induction k)
  case 0
  then show ?case using assms by simp
next
  case (Suc k)
  have "0 \<le> (s + int k) mod n" "(s + int k) mod n < n" using assms by auto
  then have "wrap_inc n ((s + int k) mod n) = ((s + int k) mod n + 1) mod n"
    by (rule wrap_inc_mod)
  then show ?case using Suc by (simp add: mod_simps algebra_simps)
qed

text \<open>A full turn visits every index, so a round-robin scan misses nothing.\<close>

lemma wrap_inc_covers:
  assumes "0 \<le> s" "s < n" "0 \<le> j" "j < n"
  shows "\<exists>k < nat n. (wrap_inc n ^^ k) s = j"
proof -
  define k where "k = nat ((j - s) mod n)"
  have "0 \<le> (j - s) mod n" "(j - s) mod n < n" using assms by auto
  then have k: "k < nat n" "int k = (j - s) mod n" using assms by (auto simp: k_def)
  have "(s + int k) mod n = (s + (j - s)) mod n" unfolding k(2) by (simp add: mod_simps)
  then have "(wrap_inc n ^^ k) s = j" using wrap_inc_iter [OF assms(1,2)] assms by simp
  then show ?thesis using k(1) by blast
qed

section \<open>Sums over updated vectors\<close>

lemma sum_list_map_empty_mset [simp]: "(\<Sum>x\<leftarrow>xs. {#}) = {#}"
  by (induction xs) simp_all

lemma list_update_sum:
  assumes "i < length xs"
  shows "(\<Sum>x\<leftarrow>xs[i := y]. f x) + f (xs ! i) = (\<Sum>x\<leftarrow>xs. f x) + (f y :: 'a :: comm_monoid_add)"
  using assms
proof (induction xs arbitrary: i)
  case Nil
  then show ?case by simp
next
  case (Cons x xs)
  show ?case
  proof (cases i)
    case 0
    then show ?thesis by (simp add: ac_simps)
  next
    case (Suc j)
    then have "(\<Sum>x\<leftarrow>xs[j := y]. f x) + f (xs ! j) = (\<Sum>x\<leftarrow>xs. f x) + f y"
      using Cons by simp
    then show ?thesis using Suc by (simp add: ac_simps)
  qed
qed

lemma mset_exchange:
  assumes "A + u = B + u'" "u' + c = u + (d :: 'a multiset)"
  shows "A + c = B + d"
proof -
  have "A + c + u = A + u + c" by (simp add: ac_simps)
  also have "\<dots> = B + (u' + c)" using assms(1) by (simp add: ac_simps)
  also have "\<dots> = B + d + u" using assms(2) by (simp add: ac_simps)
  finally show ?thesis by simp
qed

lemma list_update_sum_same:
  assumes "i < length xs" "f y = f (xs ! i)"
  shows "(\<Sum>x\<leftarrow>xs[i := y]. f x) = (\<Sum>x\<leftarrow>xs. (f x :: 'a :: cancel_comm_monoid_add))"
  using list_update_sum [OF assms(1), where f = f and y = y] assms(2) by simp

lemma map_update_same:
  assumes "i < length xs" "f y = f (xs ! i)"
  shows "map f (xs[i := y]) = map f xs"
  using assms by (metis list_update_id map_update nth_map)

end
