(* ===== verification/Net_Dest.thy ===== *)
theory Net_Dest
  imports Sim_Prelude "HOL-Library.Word"
begin

text \<open>
  Destination sets: \<^verbatim>\<open>class Set\<close> of src/gem5/src/mem/ruby/common/Set.hh (a size and a
  256-bit \<^verbatim>\<open>std::bitset\<close>) and \<^verbatim>\<open>class NetDest\<close> of common/NetDest.hh and NetDest.cc (one
  \<^verbatim>\<open>Set\<close> per machine type).

  \<^verbatim>\<open>std::bitset::set\<close>, \<^verbatim>\<open>reset\<close> and \<^verbatim>\<open>test\<close> throw on a position outside the 256 bits; that
  is the value \<open>None\<close>. The \<^verbatim>\<open>MachineType_*\<close> functions are generated by the protocol
  compiler, so they are the fields of a parameter \<open>machine_cfg\<close>; \<open>mc_ok\<close> states what the
  generated functions guarantee (one level per machine type, consecutive node numbers).

  The abstraction functions \<open>set_elems\<close> and \<open>dest_elems\<close> read the bit vectors as sets; the
  lemmas show that each operation computes the set operation it names.
\<close>

unbundle bit_operations_syntax

section \<open>class Set\<close>

record node_set =
  m_nSize :: int
  bits :: "256 word"

definition bs_ok :: "int \<Rightarrow> bool" where
  "bs_ok i \<longleftrightarrow> 0 \<le> i \<and> i < 256"

definition Set_empty :: node_set where
  "Set_empty = \<lparr>m_nSize = 0, bits = 0\<rparr>"

definition Set_sized :: "int \<Rightarrow> node_set option" where
  "Set_sized sz = (if sz > 256 then None else Some \<lparr>m_nSize = sz, bits = 0\<rparr>)"

definition Set_add :: "node_set \<Rightarrow> int \<Rightarrow> node_set option" where
  "Set_add s index = do {
     cassert (bs_ok index);
     Some (s\<lparr>bits := set_bit (nat index) (bits s)\<rparr>) }"

definition Set_addSet :: "node_set \<Rightarrow> node_set \<Rightarrow> node_set option" where
  "Set_addSet s obj = do {
     cassert (m_nSize s = m_nSize obj);
     Some (s\<lparr>bits := bits s OR bits obj\<rparr>) }"

definition Set_remove :: "node_set \<Rightarrow> int \<Rightarrow> node_set option" where
  "Set_remove s index = do {
     cassert (bs_ok index);
     Some (s\<lparr>bits := unset_bit (nat index) (bits s)\<rparr>) }"

definition Set_removeSet :: "node_set \<Rightarrow> node_set \<Rightarrow> node_set option" where
  "Set_removeSet s obj = do {
     cassert (m_nSize s = m_nSize obj);
     Some (s\<lparr>bits := bits s AND NOT (bits obj)\<rparr>) }"

definition Set_clear :: "node_set \<Rightarrow> node_set" where
  "Set_clear s = s\<lparr>bits := 0\<rparr>"

definition Set_broadcast :: "node_set \<Rightarrow> node_set option" where
  "Set_broadcast s = do {
     b \<leftarrow> for_each (\<lambda>j b. do { cassert (bs_ok j); Some (unset_bit (nat j) b) })
            [m_nSize s..255] (NOT 0);
     Some (s\<lparr>bits := b\<rparr>) }"

definition Set_count :: "node_set \<Rightarrow> int" where
  "Set_count s = int (length (filter (bit (bits s)) [0..<256]))"

definition Set_isEqual :: "node_set \<Rightarrow> node_set \<Rightarrow> bool option" where
  "Set_isEqual s obj = do { cassert (m_nSize s = m_nSize obj); Some (bits s = bits obj) }"

definition Set_OR :: "node_set \<Rightarrow> node_set \<Rightarrow> node_set option" where
  "Set_OR s obj = do {
     cassert (m_nSize s = m_nSize obj);
     r \<leftarrow> Set_sized (m_nSize s);
     Some (r\<lparr>bits := bits s OR bits obj\<rparr>) }"

definition Set_AND :: "node_set \<Rightarrow> node_set \<Rightarrow> node_set option" where
  "Set_AND s obj = do {
     cassert (m_nSize s = m_nSize obj);
     r \<leftarrow> Set_sized (m_nSize s);
     Some (r\<lparr>bits := bits s AND bits obj\<rparr>) }"

definition Set_intersectionIsEmpty :: "node_set \<Rightarrow> node_set \<Rightarrow> bool" where
  "Set_intersectionIsEmpty s obj \<longleftrightarrow> bits s AND bits obj = 0"

definition Set_isSuperset :: "node_set \<Rightarrow> node_set \<Rightarrow> bool option" where
  "Set_isSuperset s test = do {
     cassert (m_nSize s = m_nSize test);
     Some (bits s OR bits test = bits s) }"

definition Set_isElement :: "node_set \<Rightarrow> int \<Rightarrow> bool option" where
  "Set_isElement s element = do { cassert (bs_ok element); Some (bit (bits s) (nat element)) }"

definition Set_isBroadcast :: "node_set \<Rightarrow> bool" where
  "Set_isBroadcast s \<longleftrightarrow> Set_count s = m_nSize s"

definition Set_isEmpty :: "node_set \<Rightarrow> bool" where
  "Set_isEmpty s \<longleftrightarrow> bits s = 0"

text \<open>\<^verbatim>\<open>for (i = 0; i < m_nSize; ++i) if (bits.test(i)) return i; panic\<close>\<close>

fun Set_smallest_from :: "node_set \<Rightarrow> int list \<Rightarrow> int option" where
  "Set_smallest_from s [] = None"
| "Set_smallest_from s (i # is) = do {
     b \<leftarrow> Set_isElement s i;
     if b then Some i else Set_smallest_from s is }"

definition Set_smallestElement :: "node_set \<Rightarrow> int option" where
  "Set_smallestElement s = Set_smallest_from s [0..m_nSize s - 1]"

definition Set_setSize :: "node_set \<Rightarrow> int \<Rightarrow> node_set option" where
  "Set_setSize s sz = (if sz > 256 then None else Some \<lparr>m_nSize = sz, bits = 0\<rparr>)"

subsection \<open>Reading the bits as a set\<close>

definition set_elems :: "node_set \<Rightarrow> nat set" where
  "set_elems s = {i. i < 256 \<and> bit (bits s) i}"

text \<open>The invariant: the size fits and no bit is set outside the bits in use.\<close>

definition set_ok :: "node_set \<Rightarrow> bool" where
  "set_ok s \<longleftrightarrow> 0 \<le> m_nSize s \<and> m_nSize s \<le> 256 \<and> set_elems s \<subseteq> {..<nat (m_nSize s)}"

lemma bit_256: "bit (w :: 256 word) i \<Longrightarrow> i < 256"
  using bit_imp_le_length [of w i] by simp

lemma set_elems_eq: "set_elems s = {i. bit (bits s) i}"
  by (auto simp: set_elems_def bit_256)

lemma finite_set_elems [simp]: "finite (set_elems s)"
  by (simp add: set_elems_def)

lemma word_256_eqI: "{i. bit (v :: 256 word) i} = {i. bit w i} \<Longrightarrow> v = w"
  by (auto simp: bit_eq_iff)

lemma Set_add_elems:
  "Set_add s i = Some t \<Longrightarrow> set_elems t = insert (nat i) (set_elems s) \<and> m_nSize t = m_nSize s"
  by (auto simp: Set_add_def bs_ok_def set_elems_def bind_Some bit_set_bit_iff
      split: if_splits)

lemma Set_remove_elems:
  "Set_remove s i = Some t \<Longrightarrow> set_elems t = set_elems s - {nat i} \<and> m_nSize t = m_nSize s"
  by (auto simp: Set_remove_def set_elems_def bind_Some bit_unset_bit_iff)

lemma Set_addSet_elems:
  "Set_addSet s u = Some t \<Longrightarrow> set_elems t = set_elems s \<union> set_elems u \<and> m_nSize t = m_nSize s"
  by (auto simp: Set_addSet_def set_elems_def bind_Some bit_or_iff)

lemma Set_removeSet_elems:
  "Set_removeSet s u = Some t \<Longrightarrow> set_elems t = set_elems s - set_elems u \<and> m_nSize t = m_nSize s"
  by (auto simp: Set_removeSet_def set_elems_def bind_Some bit_and_iff bit_not_iff)

lemma Set_OR_elems:
  "Set_OR s u = Some t \<Longrightarrow> set_elems t = set_elems s \<union> set_elems u \<and> m_nSize t = m_nSize s"
  by (auto simp: Set_OR_def Set_sized_def set_elems_def bind_Some bit_or_iff split: if_splits)

lemma Set_AND_elems:
  "Set_AND s u = Some t \<Longrightarrow> set_elems t = set_elems s \<inter> set_elems u \<and> m_nSize t = m_nSize s"
  by (auto simp: Set_AND_def Set_sized_def set_elems_def bind_Some bit_and_iff split: if_splits)

lemma Set_clear_elems [simp]: "set_elems (Set_clear s) = {}" "m_nSize (Set_clear s) = m_nSize s"
  by (auto simp: Set_clear_def set_elems_def)

lemma Set_intersectionIsEmpty_iff:
  "Set_intersectionIsEmpty s u \<longleftrightarrow> set_elems s \<inter> set_elems u = {}"
  by (auto simp: Set_intersectionIsEmpty_def set_elems_def bit_eq_iff [where 'a = "256 word"] bit_and_iff)

lemma Set_isSuperset_iff:
  "Set_isSuperset s u = Some b \<Longrightarrow> b \<longleftrightarrow> set_elems u \<subseteq> set_elems s"
  by (auto simp: Set_isSuperset_def bind_Some set_elems_def bit_eq_iff [where 'a = "256 word"] bit_or_iff)

lemma Set_isEmpty_iff: "Set_isEmpty s \<longleftrightarrow> set_elems s = {}"
  by (auto simp: Set_isEmpty_def set_elems_def bit_eq_iff [where 'a = "256 word"])

lemma Set_isEqual_iff: "Set_isEqual s u = Some b \<Longrightarrow> b \<longleftrightarrow> set_elems s = set_elems u"
  by (auto simp: Set_isEqual_def bind_Some set_elems_eq intro: word_256_eqI)

lemma Set_isElement_iff: "Set_isElement s i = Some b \<Longrightarrow> b \<longleftrightarrow> nat i \<in> set_elems s"
  by (auto simp: Set_isElement_def set_elems_eq bind_Some)

lemma Set_count_card: "Set_count s = int (card (set_elems s))"
proof -
  have "card (set_elems s) = card (set (filter (bit (bits s)) [0..<256]))"
    by (rule arg_cong [where f = card]) (auto simp: set_elems_def)
  also have "\<dots> = length (filter (bit (bits s)) [0..<256])"
    by (rule distinct_card) simp
  finally show ?thesis by (simp add: Set_count_def)
qed

lemma broadcast_loop:
  assumes "for_each (\<lambda>j b. do { cassert (bs_ok j); Some (unset_bit (nat j) b) }) js b = Some b'"
  shows "bit (b' :: 256 word) i \<longleftrightarrow> bit b i \<and> int i \<notin> set js"
  using assms
proof (induction js arbitrary: b)
  case Nil
  then show ?case by simp
next
  case (Cons j js)
  then have "bs_ok j" and "bit b' i \<longleftrightarrow> bit (unset_bit (nat j) b) i \<and> int i \<notin> set js"
    by (auto simp: bind_Some)
  then show ?case by (auto simp: bit_unset_bit_iff bs_ok_def)
qed

lemma Set_broadcast_elems:
  assumes "Set_broadcast s = Some t"
  shows "set_elems t = {i. i < 256 \<and> int i < m_nSize s}" and "m_nSize t = m_nSize s"
proof -
  obtain b where b: "for_each (\<lambda>j b. do { cassert (bs_ok j); Some (unset_bit (nat j) b) })
      [m_nSize s..255] (NOT 0) = Some b" and t: "t = s\<lparr>bits := b\<rparr>"
    using assms by (auto simp: Set_broadcast_def bind_Some)
  have "bit b i \<longleftrightarrow> i < 256 \<and> int i < m_nSize s" for i
  proof -
    have "bit b i \<longleftrightarrow> bit (NOT (0 :: 256 word)) i \<and> int i \<notin> set [m_nSize s..255]"
      by (rule broadcast_loop [OF b])
    then show ?thesis by (auto simp: bit_not_iff)
  qed
  then show "set_elems t = {i. i < 256 \<and> int i < m_nSize s}" "m_nSize t = m_nSize s"
    by (auto simp: t set_elems_def)
qed

text \<open>\<^verbatim>\<open>isBroadcast\<close> counts bits; under the invariant that is "every bit in use is set".\<close>

lemma Set_isBroadcast_iff:
  assumes "set_ok s"
  shows "Set_isBroadcast s \<longleftrightarrow> set_elems s = {..<nat (m_nSize s)}"
proof
  assume "Set_isBroadcast s"
  then have "card (set_elems s) = card {..<nat (m_nSize s)}"
    using assms by (simp add: Set_isBroadcast_def Set_count_card set_ok_def)
  then show "set_elems s = {..<nat (m_nSize s)}"
    using assms by (intro card_subset_eq) (auto simp: set_ok_def)
next
  assume "set_elems s = {..<nat (m_nSize s)}"
  then show "Set_isBroadcast s"
    using assms by (simp add: Set_isBroadcast_def Set_count_card set_ok_def)
qed

section \<open>class NetDest\<close>

record machine_cfg =
  MachineType_NUM :: int
  MachineType_base_level :: "int \<Rightarrow> int"
  MachineType_base_number :: "int \<Rightarrow> int"
  MachineType_base_count :: "int \<Rightarrow> int"

definition mc_ok :: "machine_cfg \<Rightarrow> bool" where
  "mc_ok mc \<longleftrightarrow>
     0 \<le> MachineType_NUM mc \<and>
     (\<forall>m \<in> {0..MachineType_NUM mc}. MachineType_base_level mc m = m) \<and>
     (\<forall>m \<in> {0..<MachineType_NUM mc}.
        0 \<le> MachineType_base_count mc m \<and> MachineType_base_count mc m \<le> 256 \<and>
        MachineType_base_number mc (m + 1) = MachineType_base_number mc m + MachineType_base_count mc m)"

record MachineID =
  mid_type :: int
  mid_num :: int

record NetDest =
  m_bits :: "node_set list"

definition vecIndex :: "machine_cfg \<Rightarrow> NetDest \<Rightarrow> MachineID \<Rightarrow> int option" where
  "vecIndex mc d m = do {
     cassert (MachineType_base_level mc (mid_type m) < int (length (m_bits d)));
     Some (MachineType_base_level mc (mid_type m)) }"

text \<open>\<^verbatim>\<open>resize\<close>: one empty set per machine type, sized by the number of machines of it.\<close>

definition NetDest_resize :: "machine_cfg \<Rightarrow> NetDest option" where
  "NetDest_resize mc = do {
     cassert (MachineType_base_level mc (MachineType_NUM mc) = MachineType_NUM mc);
     bs \<leftarrow> for_each (\<lambda>i bs. do {
              s \<leftarrow> Set_setSize Set_empty (MachineType_base_count mc i);
              Some (bs @ [s]) }) [0..MachineType_base_level mc (MachineType_NUM mc) - 1] [];
     Some \<lparr>m_bits = bs\<rparr> }"

definition NetDest_add :: "machine_cfg \<Rightarrow> NetDest \<Rightarrow> MachineID \<Rightarrow> NetDest option" where
  "NetDest_add mc d m = do {
     i \<leftarrow> vecIndex mc d m;
     s \<leftarrow> vec_at (m_bits d) i;
     cassert (mid_num m < m_nSize s);
     s' \<leftarrow> Set_add s (mid_num m);
     bs \<leftarrow> vec_set (m_bits d) i s';
     Some (d\<lparr>m_bits := bs\<rparr>) }"

text \<open>The loops over all sets: apply a binary set operation position by position.\<close>

fun sets_zip :: "(node_set \<Rightarrow> node_set \<Rightarrow> node_set option) \<Rightarrow>
    node_set list \<Rightarrow> node_set list \<Rightarrow> node_set list option" where
  "sets_zip f (s # ss) (t # ts) = do { r \<leftarrow> f s t; rs \<leftarrow> sets_zip f ss ts; Some (r # rs) }"
| "sets_zip f [] [] = Some []"
| "sets_zip f _ _ = None"

definition NetDest_addNetDest :: "NetDest \<Rightarrow> NetDest \<Rightarrow> NetDest option" where
  "NetDest_addNetDest d e = do {
     cassert (length (m_bits d) = length (m_bits e));
     bs \<leftarrow> sets_zip Set_addSet (m_bits d) (m_bits e);
     Some (d\<lparr>m_bits := bs\<rparr>) }"

definition NetDest_setNetDest ::
    "machine_cfg \<Rightarrow> NetDest \<Rightarrow> int \<Rightarrow> node_set \<Rightarrow> NetDest option" where
  "NetDest_setNetDest mc d machine s = do {
     cassert (MachineType_base_level mc (machine + 1) - MachineType_base_level mc machine = 1);
     bs \<leftarrow> vec_set (m_bits d) (MachineType_base_level mc machine) s;
     Some (d\<lparr>m_bits := bs\<rparr>) }"

definition NetDest_remove :: "machine_cfg \<Rightarrow> NetDest \<Rightarrow> MachineID \<Rightarrow> NetDest option" where
  "NetDest_remove mc d m = do {
     i \<leftarrow> vecIndex mc d m;
     s \<leftarrow> vec_at (m_bits d) i;
     s' \<leftarrow> Set_remove s (mid_num m);
     bs \<leftarrow> vec_set (m_bits d) i s';
     Some (d\<lparr>m_bits := bs\<rparr>) }"

definition NetDest_removeNetDest :: "NetDest \<Rightarrow> NetDest \<Rightarrow> NetDest option" where
  "NetDest_removeNetDest d e = do {
     cassert (length (m_bits d) = length (m_bits e));
     bs \<leftarrow> sets_zip Set_removeSet (m_bits d) (m_bits e);
     Some (d\<lparr>m_bits := bs\<rparr>) }"

definition NetDest_clear :: "NetDest \<Rightarrow> NetDest" where
  "NetDest_clear d = d\<lparr>m_bits := map Set_clear (m_bits d)\<rparr>"

definition NetDest_broadcast_type :: "machine_cfg \<Rightarrow> int \<Rightarrow> NetDest \<Rightarrow> NetDest option" where
  "NetDest_broadcast_type mc machineType d =
     for_each (\<lambda>i d. NetDest_add mc d \<lparr>mid_type = machineType, mid_num = i\<rparr>)
       [0..MachineType_base_count mc machineType - 1] d"

definition NetDest_broadcast :: "machine_cfg \<Rightarrow> NetDest \<Rightarrow> NetDest option" where
  "NetDest_broadcast mc d = for_each (NetDest_broadcast_type mc) [0..MachineType_NUM mc - 1] d"

definition NetDest_getAllDest :: "machine_cfg \<Rightarrow> NetDest \<Rightarrow> int list option" where
  "NetDest_getAllDest mc d =
     for_each (\<lambda>i dest. do {
         s \<leftarrow> vec_at (m_bits d) i;
         for_each (\<lambda>j dest. do {
             b \<leftarrow> Set_isElement s j;
             Some (if b then dest @ [MachineType_base_number mc i + j] else dest) })
           [0..m_nSize s - 1] dest })
       [0..int (length (m_bits d)) - 1] []"

definition NetDest_count :: "NetDest \<Rightarrow> int" where
  "NetDest_count d = (\<Sum>s\<leftarrow>m_bits d. Set_count s)"

definition NetDest_isBroadcast :: "NetDest \<Rightarrow> bool" where
  "NetDest_isBroadcast d \<longleftrightarrow> list_all Set_isBroadcast (m_bits d)"

definition NetDest_isEmpty :: "NetDest \<Rightarrow> bool" where
  "NetDest_isEmpty d \<longleftrightarrow> list_all Set_isEmpty (m_bits d)"

definition NetDest_OR :: "NetDest \<Rightarrow> NetDest \<Rightarrow> NetDest option" where
  "NetDest_OR d e = do {
     cassert (length (m_bits d) = length (m_bits e));
     bs \<leftarrow> sets_zip Set_OR (m_bits d) (m_bits e);
     Some \<lparr>m_bits = bs\<rparr> }"

definition NetDest_AND :: "NetDest \<Rightarrow> NetDest \<Rightarrow> NetDest option" where
  "NetDest_AND d e = do {
     cassert (length (m_bits d) = length (m_bits e));
     bs \<leftarrow> sets_zip Set_AND (m_bits d) (m_bits e);
     Some \<lparr>m_bits = bs\<rparr> }"

definition NetDest_intersectionIsNotEmpty :: "NetDest \<Rightarrow> NetDest \<Rightarrow> bool option" where
  "NetDest_intersectionIsNotEmpty d e = do {
     cassert (length (m_bits d) = length (m_bits e));
     Some (list_ex (\<lambda>(s, t). \<not> Set_intersectionIsEmpty s t) (zip (m_bits d) (m_bits e))) }"

fun sets_all :: "(node_set \<Rightarrow> node_set \<Rightarrow> bool option) \<Rightarrow>
    node_set list \<Rightarrow> node_set list \<Rightarrow> bool option" where
  "sets_all f (s # ss) (t # ts) = do { b \<leftarrow> f s t; if b then sets_all f ss ts else Some False }"
| "sets_all f [] [] = Some True"
| "sets_all f _ _ = None"

definition NetDest_isSuperset :: "NetDest \<Rightarrow> NetDest \<Rightarrow> bool option" where
  "NetDest_isSuperset d e = do {
     cassert (length (m_bits d) = length (m_bits e));
     sets_all Set_isSuperset (m_bits d) (m_bits e) }"

definition NetDest_isEqual :: "NetDest \<Rightarrow> NetDest \<Rightarrow> bool option" where
  "NetDest_isEqual d e = do {
     cassert (length (m_bits d) = length (m_bits e));
     sets_all Set_isEqual (m_bits d) (m_bits e) }"

definition NetDest_isElement :: "machine_cfg \<Rightarrow> NetDest \<Rightarrow> MachineID \<Rightarrow> bool option" where
  "NetDest_isElement mc d m = do {
     i \<leftarrow> vecIndex mc d m;
     s \<leftarrow> vec_at (m_bits d) i;
     Set_isElement s (mid_num m) }"

text \<open>
  The element accessors. \<^verbatim>\<open>bits[index]\<close> outside the bit set is undefined. \<open>from_level\<close> stands for the generated
  \<^verbatim>\<open>MachineType_from_base_level\<close>.
\<close>

definition Set_elementAt :: "node_set \<Rightarrow> int \<Rightarrow> bool option" where
  "Set_elementAt s index = do { cassert (bs_ok index); Some (bit (bits s) (nat index)) }"

definition NetDest_elementAt :: "machine_cfg \<Rightarrow> NetDest \<Rightarrow> MachineID \<Rightarrow> bool option" where
  "NetDest_elementAt mc d index = do {
     i \<leftarrow> vecIndex mc d index;
     s \<leftarrow> vec_at (m_bits d) i;
     Set_elementAt s (mid_num index) }"

fun first_element :: "NetDest \<Rightarrow> (int \<times> int) list \<Rightarrow> (int \<times> int) option" where
  "first_element d [] = None"
| "first_element d ((i, j) # ps) = do {
     s \<leftarrow> vec_at (m_bits d) i;
     b \<leftarrow> Set_isElement s j;
     if b then Some (i, j) else first_element d ps }"

definition NetDest_smallestElement :: "(int \<Rightarrow> int) \<Rightarrow> NetDest \<Rightarrow> MachineID option" where
  "NetDest_smallestElement from_level d = do {
     cassert (NetDest_count d > 0);
     (i, j) \<leftarrow> first_element d (concat (map (\<lambda>i. map (Pair i) [0..m_nSize (m_bits d ! nat i) - 1])
       [0..int (length (m_bits d)) - 1]));
     Some \<lparr>mid_type = from_level i, mid_num = j\<rparr> }"

definition NetDest_smallestElement_of :: "machine_cfg \<Rightarrow> NetDest \<Rightarrow> int \<Rightarrow> MachineID option" where
  "NetDest_smallestElement_of mc d machine = do {
     s \<leftarrow> vec_at (m_bits d) (MachineType_base_level mc machine);
     j \<leftarrow> Set_smallest_from s [0..m_nSize s - 1];
     Some \<lparr>mid_type = machine, mid_num = j\<rparr> }"

subsection \<open>Reading a destination set\<close>

definition dest_elems :: "NetDest \<Rightarrow> (nat \<times> nat) set" where
  "dest_elems d = {(i, j). i < length (m_bits d) \<and> j \<in> set_elems (m_bits d ! i)}"

lemma sets_zip_nth:
  "sets_zip f ss ts = Some rs \<Longrightarrow>
     length ss = length ts \<and> length rs = length ss \<and>
     (\<forall>i < length ss. f (ss ! i) (ts ! i) = Some (rs ! i))"
proof (induction f ss ts arbitrary: rs rule: sets_zip.induct)
  case (1 f s ss t ts)
  then obtain r rs' where r: "f s t = Some r" "sets_zip f ss ts = Some rs'" "rs = r # rs'"
    by (auto simp: bind_Some)
  from 1(1) [OF r(1) r(2)] have IH: "length ss = length ts \<and> length rs' = length ss \<and>
     (\<forall>i < length ss. f (ss ! i) (ts ! i) = Some (rs' ! i))" .
  then show ?case using r by (auto simp: nth_Cons split: nat.splits)
qed auto

lemma sets_zip_elems:
  assumes "sets_zip f (m_bits d) (m_bits e) = Some bs"
    and "\<And>s t r. f s t = Some r \<Longrightarrow> set_elems r = g (set_elems s) (set_elems t)"
  shows "dest_elems (d\<lparr>m_bits := bs\<rparr>) =
    {(i, j). i < length (m_bits d) \<and> j \<in> g (set_elems (m_bits d ! i)) (set_elems (m_bits e ! i))}"
  using sets_zip_nth [OF assms(1)] assms(2) by (auto simp: dest_elems_def)

lemma removeNetDest_elems:
  assumes "NetDest_removeNetDest d e = Some r"
  shows "dest_elems r = dest_elems d - dest_elems e"
proof -
  obtain bs where len: "length (m_bits d) = length (m_bits e)"
    and bs: "sets_zip Set_removeSet (m_bits d) (m_bits e) = Some bs" and r: "r = d\<lparr>m_bits := bs\<rparr>"
    using assms by (auto simp: NetDest_removeNetDest_def bind_Some)
  have "dest_elems r = {(i, j). i < length (m_bits d) \<and>
      j \<in> set_elems (m_bits d ! i) - set_elems (m_bits e ! i)}"
    unfolding r by (rule sets_zip_elems [OF bs]) (simp add: Set_removeSet_elems)
  then show ?thesis using len by (auto simp: dest_elems_def)
qed

lemma addNetDest_elems:
  assumes "NetDest_addNetDest d e = Some r"
  shows "dest_elems r = dest_elems d \<union> dest_elems e"
proof -
  obtain bs where len: "length (m_bits d) = length (m_bits e)"
    and bs: "sets_zip Set_addSet (m_bits d) (m_bits e) = Some bs" and r: "r = d\<lparr>m_bits := bs\<rparr>"
    using assms by (auto simp: NetDest_addNetDest_def bind_Some)
  have "dest_elems r = {(i, j). i < length (m_bits d) \<and>
      j \<in> set_elems (m_bits d ! i) \<union> set_elems (m_bits e ! i)}"
    unfolding r by (rule sets_zip_elems [OF bs]) (simp add: Set_addSet_elems)
  then show ?thesis using len by (auto simp: dest_elems_def)
qed

lemma AND_elems:
  assumes "NetDest_AND d e = Some r"
  shows "dest_elems r = dest_elems d \<inter> dest_elems e"
proof -
  obtain bs where len: "length (m_bits d) = length (m_bits e)"
    and bs: "sets_zip Set_AND (m_bits d) (m_bits e) = Some bs" and r: "r = d\<lparr>m_bits := bs\<rparr>"
    using assms by (auto simp: NetDest_AND_def bind_Some)
  have "dest_elems r = {(i, j). i < length (m_bits d) \<and>
      j \<in> set_elems (m_bits d ! i) \<inter> set_elems (m_bits e ! i)}"
    unfolding r by (rule sets_zip_elems [OF bs]) (simp add: Set_AND_elems)
  then show ?thesis using len by (auto simp: dest_elems_def)
qed

lemma finite_dest_elems [simp]: "finite (dest_elems d)"
  by (rule finite_subset [of _ "{..<length (m_bits d)} \<times> {..<256}"]) (auto simp: dest_elems_def set_elems_def)

lemma NetDest_count_0: "NetDest_count d = 0 \<longleftrightarrow> dest_elems d = {}"
proof -
  have "NetDest_count d = 0 \<longleftrightarrow> (\<forall>s \<in> set (m_bits d). Set_count s = 0)"
    unfolding NetDest_count_def by (subst sum_list_nonneg_eq_0_iff) (auto simp: Set_count_def)
  then show ?thesis by (auto simp: dest_elems_def Set_count_card all_set_conv_all_nth)
qed

text \<open>\<^verbatim>\<open>smallestElement\<close> finds a machine of the set, the first in the order of its scan.\<close>

lemma first_element_spec:
  assumes "first_element d ps = Some (i, j)"
  shows "(nat i, nat j) \<in> dest_elems d \<and>
    (\<exists>qs rs. ps = qs @ (i, j) # rs \<and> (\<forall>(i', j') \<in> set qs. (nat i', nat j') \<notin> dest_elems d))"
  using assms
proof (induction d ps rule: first_element.induct)
  case (2 d i' j' ps)
  then obtain s b where s: "vec_at (m_bits d) i' = Some s" "Set_isElement s j' = Some b" by (auto simp: bind_Some)
  have b: "b \<longleftrightarrow> (nat i', nat j') \<in> dest_elems d"
    using s(1) Set_isElement_iff [OF s(2)] by (auto simp: vec_at_eq_Some dest_elems_def)
  show ?case
  proof (cases b)
    case True
    then show ?thesis using 2(2) s b by (intro conjI exI [of _ "[]"] exI [of _ ps]) auto
  next
    case False
    then obtain qs rs where "(nat i, nat j) \<in> dest_elems d" "ps = qs @ (i, j) # rs"
      "\<forall>(i', j') \<in> set qs. (nat i', nat j') \<notin> dest_elems d"
      using 2(1) [OF s] 2(2) s by auto
    then show ?thesis using False b by (intro conjI exI [of _ "(i', j') # qs"] exI [of _ rs]) auto
  qed
qed simp

lemma intersectionIsNotEmpty_iff:
  assumes "NetDest_intersectionIsNotEmpty d e = Some b"
  shows "b \<longleftrightarrow> dest_elems d \<inter> dest_elems e \<noteq> {}"
proof -
  have len: "length (m_bits d) = length (m_bits e)"
    using assms by (simp add: NetDest_intersectionIsNotEmpty_def bind_Some)
  then have "b \<longleftrightarrow> (\<exists>i < length (m_bits d). set_elems (m_bits d ! i) \<inter> set_elems (m_bits e ! i) \<noteq> {})"
    using assms
    by (simp add: NetDest_intersectionIsNotEmpty_def list_ex_zip Set_intersectionIsEmpty_iff)
  with len show ?thesis by (fastforce simp: dest_elems_def)
qed

lemma intersectionIsNotEmpty_total:
  "length (m_bits d) = length (m_bits e) \<Longrightarrow>
     NetDest_intersectionIsNotEmpty d e = Some (dest_elems d \<inter> dest_elems e \<noteq> {})"
  using intersectionIsNotEmpty_iff [of d e]
  by (simp add: NetDest_intersectionIsNotEmpty_def)

lemma NetDest_isEmpty_iff: "NetDest_isEmpty d \<longleftrightarrow> dest_elems d = {}"
  by (auto simp: NetDest_isEmpty_def dest_elems_def list_all_length Set_isEmpty_iff)

lemma NetDest_add_elems:
  assumes "NetDest_add mc d m = Some r"
  shows "dest_elems r =
    insert (nat (MachineType_base_level mc (mid_type m)), nat (mid_num m)) (dest_elems d)"
proof -
  let ?i = "nat (MachineType_base_level mc (mid_type m))"
  obtain s' where i: "?i < length (m_bits d)"
    and s': "Set_add (m_bits d ! ?i) (mid_num m) = Some s'" and r: "r = d\<lparr>m_bits := (m_bits d)[?i := s']\<rparr>"
    using assms by (auto simp: NetDest_add_def vecIndex_def run_simps)
  have "set_elems s' = insert (nat (mid_num m)) (set_elems (m_bits d ! ?i))"
    using Set_add_elems [OF s'] by simp
  then show ?thesis using i by (auto simp: r dest_elems_def nth_list_update split: if_splits)
qed

section \<open>Properties\<close>

lemma getAllDest_inner:
  assumes "for_each (\<lambda>j dest. do { b \<leftarrow> Set_isElement s j; Some (if b then dest @ [base + j] else dest) }) [0..int k - 1] ds = Some ds'"
  shows "ds' = ds @ map (\<lambda>j. base + int j) (filter (\<lambda>j. j \<in> set_elems s) [0..<k])"
  using assms
proof (induction k arbitrary: ds')
  case (Suc k)
  let ?f = "\<lambda>j dest. do { b \<leftarrow> Set_isElement s j; Some (if b then dest @ [base + j] else dest) }"
  obtain d1 b where d1: "for_each ?f [0..int k - 1] ds = Some d1" "Set_isElement s (int k) = Some b"
    "ds' = (if b then d1 @ [base + int k] else d1)"
    using Suc.prems unfolding upto_snoc_nat for_each_append by (auto simp: bind_Some)
  have "b \<longleftrightarrow> k \<in> set_elems s" using Set_isElement_iff [OF d1(2)] by simp
  then show ?case using Suc.IH [OF d1(1)] d1(3) by simp
qed simp

lemma getAllDest_eq:
  assumes "NetDest_getAllDest mc d = Some ds"
  shows "ds = concat (map (\<lambda>i. map (\<lambda>j. MachineType_base_number mc (int i) + int j)
      (filter (\<lambda>j. j \<in> set_elems (m_bits d ! i)) [0..<nat (m_nSize (m_bits d ! i))])) [0..<length (m_bits d)])"
proof -
  let ?in = "\<lambda>i s. (\<lambda>j dest. do { b \<leftarrow> Set_isElement s j; Some (if b then dest @ [MachineType_base_number mc i + j] else dest) })"
  let ?g = "\<lambda>i dest. do { s \<leftarrow> vec_at (m_bits d) i; for_each (?in i s) [0..m_nSize s - 1] dest }"
  let ?row = "\<lambda>i. map (\<lambda>j. MachineType_base_number mc (int i) + int j)
      (filter (\<lambda>j. j \<in> set_elems (m_bits d ! i)) [0..<nat (m_nSize (m_bits d ! i))])"
  have upt: "[0..m - 1] = [0..int (nat m) - 1]" for m :: int by (cases "0 \<le> m") simp_all
  have "ds = concat (map ?row [0..<k])" if "for_each ?g [0..int k - 1] [] = Some ds" for k ds
    using that
  proof (induction k arbitrary: ds)
    case (Suc k)
    obtain d1 s where d1: "for_each ?g [0..int k - 1] [] = Some d1" "vec_at (m_bits d) (int k) = Some s"
      "for_each (?in (int k) s) [0..m_nSize s - 1] d1 = Some ds"
      using Suc.prems unfolding upto_snoc_nat for_each_append by (auto simp: bind_Some)
    then have s: "s = m_bits d ! k" by (auto simp: vec_at_eq_Some)
    show ?case using getAllDest_inner [OF d1(3) [unfolded upt [of "m_nSize s"]]] Suc.IH [OF d1(1)] s by simp
  qed simp
  then show ?thesis using assms unfolding NetDest_getAllDest_def by blast
qed
text \<open>C31. \<^verbatim>\<open>getAllDest\<close> returns the node numbers of exactly the machines in the destination set, as many as \<^verbatim>\<open>count\<close> says.\<close>

theorem getAllDest_lists_the_elements:
  assumes "NetDest_getAllDest mc d = Some ds" "\<forall>s \<in> set (m_bits d). set_ok s"
  shows "set ds = (\<lambda>(i, j). MachineType_base_number mc (int i) + int j) ` dest_elems d \<and> int (length ds) = NetDest_count d"
proof -
  let ?row = "\<lambda>i. filter (\<lambda>j. j \<in> set_elems (m_bits d ! i)) [0..<nat (m_nSize (m_bits d ! i))]"
  have row: "set (?row i) = set_elems (m_bits d ! i)" if "i < length (m_bits d)" for i
  proof -
    have "set_ok (m_bits d ! i)" using assms(2) that by simp
    then show ?thesis by (auto simp: set_ok_def)
  qed
  have ds: "ds = concat (map (\<lambda>i. map (\<lambda>j. MachineType_base_number mc (int i) + int j) (?row i)) [0..<length (m_bits d)])"
    using getAllDest_eq [OF assms(1)] .
  have elems: "set ds = (\<Union>i < length (m_bits d). (\<lambda>j. MachineType_base_number mc (int i) + int j) ` set_elems (m_bits d ! i))"
    unfolding ds using row by auto
  define len where "len i = int (length (?row i))" for i
  have cnt: "len i = Set_count (m_bits d ! i)" if "i < length (m_bits d)" for i
    using row [OF that] distinct_card [of "?row i"] by (simp add: len_def Set_count_card)
  have "map len [0..<length (m_bits d)] = map Set_count (m_bits d)"
    by (rule nth_equalityI) (simp_all add: cnt)
  moreover have "int (length (concat (map (\<lambda>i. map (f i) (?row i)) xs))) = (\<Sum>i\<leftarrow>xs. len i)" for f :: "nat \<Rightarrow> nat \<Rightarrow> int" and xs
    unfolding len_def by (induction xs) simp_all
  ultimately have "int (length ds) = NetDest_count d" by (simp only: ds NetDest_count_def)
  then show ?thesis using elems by (force simp: dest_elems_def)
qed
definition sample_dest :: "256 word \<Rightarrow> NetDest" where
  "sample_dest w = \<lparr>m_bits = [\<lparr>m_nSize = 2, bits = w\<rparr>]\<rparr>"

definition sample_mc :: machine_cfg where
  "sample_mc = \<lparr>MachineType_NUM = 1, MachineType_base_level = id, MachineType_base_number = (\<lambda>m. 2 * m), MachineType_base_count = (\<lambda>_. 2)\<rparr>"

theorem getAllDest_lists_the_elements_witness:
  "NetDest_getAllDest sample_mc (sample_dest 2) = Some [1] \<and>
   set [1] = (\<lambda>(i, j). MachineType_base_number sample_mc (int i) + int j) ` dest_elems (sample_dest 2) \<and>
   int (length [1 :: int]) = NetDest_count (sample_dest 2)"
proof -
  have run: "NetDest_getAllDest sample_mc (sample_dest 2) = Some [1]"
    by (simp add: NetDest_getAllDest_def sample_mc_def sample_dest_def Set_isElement_def bs_ok_def upto.simps)
  have ok: "\<forall>s \<in> set (m_bits (sample_dest 2)). set_ok s"
    by (auto simp: sample_dest_def set_ok_def set_elems_def bit_2_iff)
  show ?thesis using run getAllDest_lists_the_elements [OF run ok] by blast
qed

lemma sets_zip_total: "list_all2 (\<lambda>s t. \<exists>r. f s t = Some r) ss ts \<Longrightarrow> \<exists>rs. sets_zip f ss ts = Some rs"
  by (induction rule: list_all2_induct) (auto simp: bind_Some)

lemma sets_all_spec: "list_all2 (\<lambda>s t. f s t = Some (P s t)) ss ts \<Longrightarrow> sets_all f ss ts = Some (list_all2 P ss ts)"
  by (induction rule: list_all2_induct) simp_all

definition same_shape :: "NetDest \<Rightarrow> NetDest \<Rightarrow> bool" where
  "same_shape d e \<longleftrightarrow> list_all2 (\<lambda>s t. m_nSize s = m_nSize t) (m_bits d) (m_bits e)"

lemma dest_elems_pointwise:
  assumes "length (m_bits d) = length (m_bits e)"
  shows "list_all2 (\<lambda>s t. set_elems t \<subseteq> set_elems s) (m_bits d) (m_bits e) \<longleftrightarrow> dest_elems e \<subseteq> dest_elems d"
    "list_all2 (\<lambda>s t. set_elems s = set_elems t) (m_bits d) (m_bits e) \<longleftrightarrow> dest_elems d = dest_elems e"
  using assms by (auto simp: list_all2_conv_all_nth dest_elems_def set_eq_iff subset_iff)

text \<open>C30. On sets made for the same machines the operations on destination sets never fail, and they are union, difference,
  test for a common element, inclusion and equality of the sets of machines.\<close>

theorem NetDest_refines_sets:
  assumes "same_shape d e"
  shows "map_option dest_elems (NetDest_addNetDest d e) = Some (dest_elems d \<union> dest_elems e) \<and>
    map_option dest_elems (NetDest_removeNetDest d e) = Some (dest_elems d - dest_elems e) \<and>
    NetDest_intersectionIsNotEmpty d e = Some (dest_elems d \<inter> dest_elems e \<noteq> {}) \<and>
    NetDest_isSuperset d e = Some (dest_elems e \<subseteq> dest_elems d) \<and>
    NetDest_isEqual d e = Some (dest_elems d = dest_elems e)"
proof -
  have sz: "list_all2 (\<lambda>s t. m_nSize s = m_nSize t) (m_bits d) (m_bits e)" and len: "length (m_bits d) = length (m_bits e)"
    using assms by (auto simp: same_shape_def dest: list_all2_lengthD)
  have "\<exists>rs. sets_zip Set_addSet (m_bits d) (m_bits e) = Some rs"
    by (rule sets_zip_total, rule list_all2_mono [OF sz]) (simp add: Set_addSet_def)
  then have add: "\<exists>r. NetDest_addNetDest d e = Some r" using len by (auto simp: NetDest_addNetDest_def)
  have "\<exists>rs. sets_zip Set_removeSet (m_bits d) (m_bits e) = Some rs"
    by (rule sets_zip_total, rule list_all2_mono [OF sz]) (simp add: Set_removeSet_def)
  then have rem: "\<exists>r. NetDest_removeNetDest d e = Some r" using len by (auto simp: NetDest_removeNetDest_def)
  have "sets_all Set_isSuperset (m_bits d) (m_bits e) = Some (list_all2 (\<lambda>s t. set_elems t \<subseteq> set_elems s) (m_bits d) (m_bits e))"
    by (rule sets_all_spec, rule list_all2_mono [OF sz]) (use Set_isSuperset_iff in \<open>auto simp: Set_isSuperset_def\<close>)
  moreover have "sets_all Set_isEqual (m_bits d) (m_bits e) = Some (list_all2 (\<lambda>s t. set_elems s = set_elems t) (m_bits d) (m_bits e))"
    by (rule sets_all_spec, rule list_all2_mono [OF sz]) (use Set_isEqual_iff in \<open>auto simp: Set_isEqual_def\<close>)
  ultimately show ?thesis
    using add rem len addNetDest_elems removeNetDest_elems intersectionIsNotEmpty_total [OF len] dest_elems_pointwise [OF len]
    by (auto simp: NetDest_isSuperset_def NetDest_isEqual_def)
qed

theorem NetDest_refines_sets_witness:
  "same_shape (sample_dest 3) (sample_dest 2) \<and>
   NetDest_isSuperset (sample_dest 3) (sample_dest 2) = Some (dest_elems (sample_dest 2) \<subseteq> dest_elems (sample_dest 3)) \<and>
   map_option dest_elems (NetDest_removeNetDest (sample_dest 3) (sample_dest 2)) =
     Some (dest_elems (sample_dest 3) - dest_elems (sample_dest 2))"
proof -
  have h: "same_shape (sample_dest 3) (sample_dest 2)" by (simp add: same_shape_def sample_dest_def)
  show ?thesis using h NetDest_refines_sets [OF h] by blast
qed

end
