(* ===== verification/Std_Heap.thy ===== *)
theory Std_Heap
  imports Sim_Prelude
begin

text \<open>
  The binary heap of the C++ standard library on a vector, as the flit buffers and the
  message buffers use it: \<^verbatim>\<open>std::push_heap\<close> and \<^verbatim>\<open>std::pop_heap\<close> with a comparator \<open>gt\<close>
  ("greater"), so that \<^verbatim>\<open>front()\<close> is a least element. \<open>sift_up\<close> is the hole-moving loop of
  \<^verbatim>\<open>push_heap\<close>; \<open>sift_down\<close> walks the hole from the root to a leaf along the smaller
  children, after which the last element is sifted up from that leaf.

  The locale \<open>heap_cmp\<close> states what a comparator must satisfy (a strict weak order) and
  proves, once for every buffer, that both operations keep the heap order and the contents
  and that the front is least. The locale \<open>prio_buffer\<close> is the interface the clients of a
  time-ordered buffer rely on.
\<close>

section \<open>The operations\<close>

function sift_up :: "('a \<Rightarrow> 'a \<Rightarrow> bool) \<Rightarrow> 'a list \<Rightarrow> nat \<Rightarrow> 'a \<Rightarrow> 'a list" where
  "sift_up gt xs hole v =
     (let parent = (hole - 1) div 2
      in if hole > 0 \<and> gt (xs ! parent) v
         then sift_up gt (xs[hole := xs ! parent]) parent v
         else xs[hole := v])"
  by pat_completeness auto
termination
  by (relation "measure (\<lambda>(gt, xs, hole, v). hole)") auto

function sift_down :: "('a \<Rightarrow> 'a \<Rightarrow> bool) \<Rightarrow> 'a list \<Rightarrow> nat \<Rightarrow> 'a list \<times> nat" where
  "sift_down gt xs hole =
     (if 2 * hole + 2 < length xs
      then let r = 2 * (hole + 1); c = (if gt (xs ! r) (xs ! (r - 1)) then r - 1 else r)
           in sift_down gt (xs[hole := xs ! c]) c
      else if 2 * hole + 2 = length xs
      then (xs[hole := xs ! (2 * hole + 1)], 2 * hole + 1)
      else (xs, hole))"
  by pat_completeness auto
termination
  by (relation "measure (\<lambda>(gt, xs, hole). length xs - hole)") (auto simp: Let_def)

declare sift_up.simps [simp del] sift_down.simps [simp del]

text \<open>\<^verbatim>\<open>push_back(x); push_heap(begin, end, gt)\<close>\<close>

definition push_heap :: "('a \<Rightarrow> 'a \<Rightarrow> bool) \<Rightarrow> 'a list \<Rightarrow> 'a \<Rightarrow> 'a list" where
  "push_heap gt xs x = sift_up gt (xs @ [x]) (length xs) x"

text \<open>\<^verbatim>\<open>pop_heap(begin, end, gt); pop_back()\<close>\<close>

definition pop_heap :: "('a \<Rightarrow> 'a \<Rightarrow> bool) \<Rightarrow> 'a list \<Rightarrow> 'a list" where
  "pop_heap gt xs =
     (if length xs \<le> 1 then []
      else case sift_down gt (butlast xs) 0 of (ys, hole) \<Rightarrow> sift_up gt ys hole (last xs))"

definition is_heap :: "('a \<Rightarrow> 'a \<Rightarrow> bool) \<Rightarrow> 'a list \<Rightarrow> bool" where
  "is_heap gt xs \<longleftrightarrow> (\<forall>i \<in> {1..<length xs}. \<not> gt (xs ! ((i - 1) div 2)) (xs ! i))"

section \<open>Contents\<close>

lemma sift_up_step:
  "h > 0 \<Longrightarrow> gt (xs ! ((h - 1) div 2)) v \<Longrightarrow>
     sift_up gt xs h v = sift_up gt (xs[h := xs ! ((h - 1) div 2)]) ((h - 1) div 2) v"
  by (subst sift_up.simps) (simp add: Let_def)

lemma sift_up_stop:
  "\<not> (h > 0 \<and> gt (xs ! ((h - 1) div 2)) v) \<Longrightarrow> sift_up gt xs h v = xs[h := v]"
  by (subst sift_up.simps) (auto simp: Let_def)

definition down_child :: "('a \<Rightarrow> 'a \<Rightarrow> bool) \<Rightarrow> 'a list \<Rightarrow> nat \<Rightarrow> nat" where
  "down_child gt xs h = (if gt (xs ! (2 * (h + 1))) (xs ! (2 * (h + 1) - 1)) then 2 * h + 1 else 2 * h + 2)"

lemma sift_down_step:
  "2 * h + 2 < length xs \<Longrightarrow>
     sift_down gt xs h = sift_down gt (xs[h := xs ! down_child gt xs h]) (down_child gt xs h)"
  by (subst sift_down.simps) (simp add: Let_def down_child_def)

lemma sift_down_last:
  "2 * h + 2 = length xs \<Longrightarrow>
     sift_down gt xs h = (xs[h := xs ! (2 * h + 1)], 2 * h + 1)"
  by (subst sift_down.simps) simp

lemma sift_down_stop: "length xs < 2 * h + 2 \<Longrightarrow> sift_down gt xs h = (xs, h)"
  by (subst sift_down.simps) simp

lemma down_child_bounds:
  "2 * h + 2 < length xs \<Longrightarrow>
     0 < down_child gt xs h \<and> (down_child gt xs h - 1) div 2 = h \<and>
     down_child gt xs h < length xs \<and> h < down_child gt xs h"
  by (auto simp: down_child_def)

text \<open>The walk down goes through at most \<open>length xs - h\<close> positions, which drives the inductions.\<close>

lemma sift_down_induct [case_names step last stop]:
  assumes step: "\<And>xs h. 2 * h + 2 < length xs \<Longrightarrow>
      P (xs[h := xs ! down_child gt xs h]) (down_child gt xs h) \<Longrightarrow> P xs h"
    and last: "\<And>xs h. 2 * h + 2 = length xs \<Longrightarrow> P xs h"
    and stop: "\<And>xs h. length xs < 2 * h + 2 \<Longrightarrow> P xs h"
  shows "P xs h"
proof (induction "length xs - h" arbitrary: xs h rule: less_induct)
  case less
  consider "2 * h + 2 < length xs" | "2 * h + 2 = length xs" | "length xs < 2 * h + 2" by linarith
  then show ?case
  proof cases
    case 1
    have "P (xs[h := xs ! down_child gt xs h]) (down_child gt xs h)"
      by (rule less.hyps) (use down_child_bounds [OF 1, of gt] in auto)
    then show ?thesis using 1 step by blast
  qed (use last stop in blast)+
qed

lemma length_sift_up [simp]: "length (sift_up gt xs h v) = length xs"
proof (induction gt xs h v rule: sift_up.induct)
  case (1 gt xs h v)
  show ?case
  proof (cases "h > 0 \<and> gt (xs ! ((h - 1) div 2)) v")
    case True
    then show ?thesis using "1.IH" [OF refl True] by (simp add: sift_up_step)
  next
    case False
    then show ?thesis by (simp only: sift_up_stop [of h gt xs v, OF False] length_list_update)
  qed
qed

lemma mset_hole_swap:
  assumes "h < length xs" "c < length xs" "h \<noteq> c"
  shows "mset (xs[h := xs ! c, c := v]) = mset (xs[h := v])"
proof -
  have "xs[h := xs ! c, c := v] = (xs[h := v])[h := (xs[h := v]) ! c, c := (xs[h := v]) ! h]"
    using assms by simp
  then show ?thesis using assms mset_swap [of c "xs[h := v]" h] by simp
qed

lemma mset_sift_up:
  "h < length xs \<Longrightarrow> mset (sift_up gt xs h v) = mset (xs[h := v])"
proof (induction gt xs h v rule: sift_up.induct)
  case (1 gt xs h v)
  let ?p = "(h - 1) div 2"
  show ?case
  proof (cases "h > 0 \<and> gt (xs ! ?p) v")
    case True
    then have p: "?p < h" by auto
    have "mset (sift_up gt xs h v) = mset (sift_up gt (xs[h := xs ! ?p]) ?p v)"
      using True by (simp add: sift_up_step)
    also have "\<dots> = mset ((xs[h := xs ! ?p])[?p := v])"
      using "1.IH" [OF refl True] 1(2) p by simp
    also have "\<dots> = mset (xs[h := v])"
      using p 1(2) by (intro mset_hole_swap) auto
    finally show ?thesis .
  next
    case False
    then show ?thesis by (simp only: sift_up_stop [of h gt xs v, OF False])
  qed
qed

lemma sift_down_hole:
  "h < length xs \<Longrightarrow> sift_down gt xs h = (ys, k) \<Longrightarrow>
     k < length xs \<and> length ys = length xs \<and> length xs \<le> 2 * k + 1"
proof (induction xs h rule: sift_down_induct [where gt = gt])
  case (step xs h)
  then show ?case using down_child_bounds [OF step(1), of gt] by (simp add: sift_down_step)
next
  case (last xs h)
  then show ?case by (auto simp: sift_down_last)
next
  case (stop xs h)
  then show ?case by (auto simp: sift_down_stop)
qed

lemma mset_sift_down:
  "h < length xs \<Longrightarrow> sift_down gt xs h = (ys, k) \<Longrightarrow> mset (ys[k := v]) = mset (xs[h := v])"
proof (induction xs h rule: sift_down_induct [where gt = gt])
  case (step xs h)
  then show ?case
    using down_child_bounds [OF step(1), of gt] mset_hole_swap [OF step(3), of "down_child gt xs h"]
    by (simp add: sift_down_step)
next
  case (last xs h)
  then show ?case
    using mset_hole_swap [OF last(2), of "2 * h + 1"] by (auto simp: sift_down_last)
next
  case (stop xs h)
  then show ?case by (auto simp: sift_down_stop)
qed

lemma mset_push_heap [simp]: "mset (push_heap gt xs x) = add_mset x (mset xs)"
  by (simp add: push_heap_def mset_sift_up)

lemma length_push_heap [simp]: "length (push_heap gt xs x) = Suc (length xs)"
  by (simp add: push_heap_def)

lemma mset_pop_heap:
  assumes "xs \<noteq> []"
  shows "mset (pop_heap gt xs) = mset xs - {#hd xs#}"
proof (cases "length xs \<le> 1")
  case True
  with assms obtain a where "xs = [a]" by (cases xs) auto
  then show ?thesis by (simp add: pop_heap_def)
next
  case False
  obtain ys k where sd: "sift_down gt (butlast xs) 0 = (ys, k)" by fastforce
  have bl: "0 < length (butlast xs)" using False by simp
  have k: "k < length ys" using sift_down_hole [OF bl sd] by simp
  have "mset (pop_heap gt xs) = mset (ys[k := last xs])"
    using False sd k by (simp add: pop_heap_def mset_sift_up)
  also have "\<dots> = mset ((butlast xs)[0 := last xs])"
    by (rule mset_sift_down [OF bl sd])
  also have "\<dots> = add_mset (last xs) (mset (butlast xs)) - {#hd xs#}"
    using bl by (cases xs) (auto simp: mset_update)
  also have "add_mset (last xs) (mset (butlast xs)) = mset (butlast xs @ [last xs])"
    by simp
  also have "butlast xs @ [last xs] = xs" using assms by simp
  finally show ?thesis .
qed

lemma length_pop_heap: "xs \<noteq> [] \<Longrightarrow> length (pop_heap gt xs) = length xs - 1"
  by (metis hd_in_set mset_pop_heap size_Diff_singleton size_mset set_mset_mset)

lemma pop_heap_single [simp]: "pop_heap gt [x] = []"
  by (simp add: pop_heap_def)

lemma push_heap_Nil [simp]: "push_heap gt [] x = [x]"
  by (simp add: push_heap_def sift_up.simps [of gt "[x]" 0 x])

lemma is_heap_Nil [simp]: "is_heap gt []"
  by (simp add: is_heap_def)

lemma is_heap_single [simp]: "is_heap gt [x]"
  by (simp add: is_heap_def)

section \<open>Heap order\<close>

text \<open>
  \<open>hole_heap gt xs h\<close>: every parent/child pair that does not involve the hole \<open>h\<close> is in
  order, and the hole's parent is in order with the hole's children.
\<close>

definition hole_heap :: "('a \<Rightarrow> 'a \<Rightarrow> bool) \<Rightarrow> 'a list \<Rightarrow> nat \<Rightarrow> bool" where
  "hole_heap gt xs h \<longleftrightarrow>
     (\<forall>i \<in> {1..<length xs}. i \<noteq> h \<longrightarrow> (i - 1) div 2 \<noteq> h \<longrightarrow> \<not> gt (xs ! ((i - 1) div 2)) (xs ! i)) \<and>
     (\<forall>i \<in> {1..<length xs}. 0 < h \<longrightarrow> (i - 1) div 2 = h \<longrightarrow> \<not> gt (xs ! ((h - 1) div 2)) (xs ! i))"

lemma hole_heapD1:
  "hole_heap gt xs h \<Longrightarrow> 0 < i \<Longrightarrow> i < length xs \<Longrightarrow> i \<noteq> h \<Longrightarrow> (i - 1) div 2 \<noteq> h \<Longrightarrow>
     \<not> gt (xs ! ((i - 1) div 2)) (xs ! i)"
  by (auto simp: hole_heap_def)

lemma hole_heapD2:
  "hole_heap gt xs h \<Longrightarrow> 0 < i \<Longrightarrow> i < length xs \<Longrightarrow> 0 < h \<Longrightarrow> (i - 1) div 2 = h \<Longrightarrow>
     \<not> gt (xs ! ((h - 1) div 2)) (xs ! i)"
  by (auto simp: hole_heap_def)

locale heap_cmp =
  fixes gt :: "'a \<Rightarrow> 'a \<Rightarrow> bool"
  assumes gt_irrefl: "\<not> gt x x"
    and gt_trans: "gt x y \<Longrightarrow> gt y z \<Longrightarrow> gt x z"
    and gt_cotrans: "gt x z \<Longrightarrow> gt x y \<or> gt y z"
begin

lemma gt_asym: "gt x y \<Longrightarrow> \<not> gt y x"
  using gt_irrefl gt_trans by blast

lemma sift_up_heap:
  assumes "hole_heap gt xs h" "h < length xs"
    and "\<And>i. 0 < i \<Longrightarrow> i < length xs \<Longrightarrow> (i - 1) div 2 = h \<Longrightarrow> \<not> gt v (xs ! i)"
  shows "is_heap gt (sift_up gt xs h v)"
  using assms
proof (induction h arbitrary: xs rule: less_induct)
  case (less h)
  let ?p = "(h - 1) div 2"
  show ?case
  proof (cases "h > 0 \<and> gt (xs ! ?p) v")
    case True
    let ?ys = "xs[h := xs ! ?p]"
    have p: "?p < h" using True by auto
    have hh: "hole_heap gt ?ys ?p"
      unfolding hole_heap_def
    proof (intro conjI ballI impI)
      fix i assume i: "i \<in> {1..<length ?ys}" "i \<noteq> ?p" "(i - 1) div 2 \<noteq> ?p"
      then have "i \<noteq> h" by auto
      then show "\<not> gt (?ys ! ((i - 1) div 2)) (?ys ! i)"
        using i p less.prems(1,2) True hole_heapD1 [OF less.prems(1), of i]
          hole_heapD2 [OF less.prems(1), of i]
        by (cases "(i - 1) div 2 = h") auto
    next
      fix i assume i: "i \<in> {1..<length ?ys}" "0 < ?p" "(i - 1) div 2 = ?p"
      have pp: "(?p - 1) div 2 < ?p" using i(2) by auto
      have up: "\<not> gt (xs ! ((?p - 1) div 2)) (xs ! ?p)"
        using hole_heapD1 [OF less.prems(1), of ?p] i(2) p pp less.prems(2) by auto
      show "\<not> gt (?ys ! ((?p - 1) div 2)) (?ys ! i)"
      proof (cases "i = h")
        case True
        then show ?thesis using up p pp less.prems(2) by simp
      next
        case False
        then have "\<not> gt (xs ! ?p) (xs ! i)"
          using hole_heapD1 [OF less.prems(1), of i] i p by auto
        then have "\<not> gt (xs ! ((?p - 1) div 2)) (xs ! i)"
          using up gt_cotrans by blast
        then show ?thesis using False p pp by simp
      qed
    qed
    have child: "\<not> gt v (?ys ! i)" if "0 < i" "i < length ?ys" "(i - 1) div 2 = ?p" for i
    proof (cases "i = h")
      case True
      then show ?thesis using \<open>h > 0 \<and> gt (xs ! ?p) v\<close> less.prems(2) gt_asym by auto
    next
      case False
      then have "\<not> gt (xs ! ?p) (xs ! i)"
        using hole_heapD1 [OF less.prems(1), of i] that p by auto
      then show ?thesis using False True gt_trans by auto
    qed
    have "is_heap gt (sift_up gt ?ys ?p v)"
      by (rule less.IH [OF p hh]) (use p less.prems(2) child in auto)
    then show ?thesis using True by (simp add: sift_up_step)
  next
    case False
    have "is_heap gt (xs[h := v])"
      unfolding is_heap_def
    proof
      fix i assume i: "i \<in> {1..<length (xs[h := v])}"
      have pi: "(i - 1) div 2 < i" using i by auto
      consider "i = h" | "(i - 1) div 2 = h" | "i \<noteq> h" "(i - 1) div 2 \<noteq> h" by blast
      then show "\<not> gt ((xs[h := v]) ! ((i - 1) div 2)) ((xs[h := v]) ! i)"
      proof cases
        case 1
        then show ?thesis using False i pi by auto
      next
        case 2
        then show ?thesis using less.prems(2,3) i pi by auto
      next
        case 3
        then show ?thesis using hole_heapD1 [OF less.prems(1), of i] i by auto
      qed
    qed
    then show ?thesis by (simp only: sift_up_stop [of h gt xs v, OF False])
  qed
qed

lemma hole_heap_move:
  assumes hh: "hole_heap gt xs h" and h: "h < length xs"
    and c: "0 < c" "(c - 1) div 2 = h" "c < length xs"
    and least: "\<And>i. 0 < i \<Longrightarrow> i < length xs \<Longrightarrow> (i - 1) div 2 = h \<Longrightarrow> \<not> gt (xs ! c) (xs ! i)"
  shows "hole_heap gt (xs[h := xs ! c]) c"
  unfolding hole_heap_def
proof (intro conjI ballI impI)
  fix i assume i: "i \<in> {1..<length (xs[h := xs ! c])}" "i \<noteq> c" "(i - 1) div 2 \<noteq> c"
  show "\<not> gt (xs[h := xs ! c] ! ((i - 1) div 2)) (xs[h := xs ! c] ! i)"
  proof (cases "(i - 1) div 2 = h")
    case True
    moreover have "i \<noteq> h" using True i by auto
    ultimately show ?thesis using least [of i] i h by auto
  next
    case False
    then show ?thesis
      using hole_heapD2 [OF hh, of c] hole_heapD1 [OF hh, of i] c i h by (cases "i = h") auto
  qed
next
  fix i assume i: "i \<in> {1..<length (xs[h := xs ! c])}" "0 < c" "(i - 1) div 2 = c"
  have ne: "i \<noteq> h" "c \<noteq> h" using c i by auto
  then have "\<not> gt (xs ! c) (xs ! i)"
    using hole_heapD1 [OF hh, of i] i by auto
  then show "\<not> gt (xs[h := xs ! c] ! ((c - 1) div 2)) (xs[h := xs ! c] ! i)"
    using c h ne by simp
qed

lemma down_child_least:
  assumes "0 < i" "(i - 1) div 2 = h"
  shows "\<not> gt (xs ! down_child gt xs h) (xs ! i)"
proof -
  have "i = 2 * h + 1 \<or> i = 2 * h + 2" using assms by presburger
  then show ?thesis using gt_irrefl gt_asym by (auto simp: down_child_def)
qed

lemma sift_down_hole_heap:
  "hole_heap gt xs h \<Longrightarrow> h < length xs \<Longrightarrow> sift_down gt xs h = (ys, k) \<Longrightarrow> hole_heap gt ys k"
proof (induction xs h rule: sift_down_induct [where gt = gt])
  case (step xs h)
  let ?c = "down_child gt xs h"
  note b = down_child_bounds [OF step(1), of gt]
  have "hole_heap gt (xs[h := xs ! ?c]) ?c"
    by (rule hole_heap_move [OF step(3,4)]) (use b down_child_least in auto)
  then show ?case using step b by (simp add: sift_down_step)
next
  case (last xs h)
  have kids: "i = 2 * h + 1" if "0 < i" "i < length xs" "(i - 1) div 2 = h" for i
    using that last(1) by presburger
  have "hole_heap gt (xs[h := xs ! (2 * h + 1)]) (2 * h + 1)"
    by (rule hole_heap_move [OF last(2,3)]) (use last(1) kids gt_irrefl in auto)
  then show ?case using last by (auto simp: sift_down_last)
next
  case (stop xs h)
  then show ?case by (auto simp: sift_down_stop)
qed

lemma push_heap_heap:
  assumes "is_heap gt xs"
  shows "is_heap gt (push_heap gt xs x)"
proof -
  have "hole_heap gt (xs @ [x]) (length xs)"
    unfolding hole_heap_def
  proof (intro conjI ballI impI)
    fix i assume i: "i \<in> {1..<length (xs @ [x])}" "i \<noteq> length xs" "(i - 1) div 2 \<noteq> length xs"
    then have "i < length xs" "(i - 1) div 2 < length xs" by auto
    then show "\<not> gt ((xs @ [x]) ! ((i - 1) div 2)) ((xs @ [x]) ! i)"
      using assms i(1) by (auto simp: is_heap_def nth_append)
  qed auto
  then show ?thesis
    unfolding push_heap_def by (rule sift_up_heap) auto
qed

lemma pop_heap_heap:
  assumes "is_heap gt xs"
  shows "is_heap gt (pop_heap gt xs)"
proof (cases "length xs \<le> 1")
  case True
  then show ?thesis by (simp add: pop_heap_def)
next
  case False
  obtain ys k where sd: "sift_down gt (butlast xs) 0 = (ys, k)" by fastforce
  have bl: "0 < length (butlast xs)" using False by auto
  have "hole_heap gt (butlast xs) 0"
    using assms by (auto simp: hole_heap_def is_heap_def nth_butlast)
  then have "hole_heap gt ys k" using bl sd by (rule sift_down_hole_heap)
  then have "is_heap gt (sift_up gt ys k (last xs))"
    by (rule sift_up_heap) (use sift_down_hole [OF bl sd] in auto)
  then show ?thesis using False sd by (simp add: pop_heap_def)
qed

lemma heap_front_least:
  assumes "is_heap gt xs" "i < length xs"
  shows "\<not> gt (xs ! 0) (xs ! i)"
  using assms(2)
proof (induction i rule: less_induct)
  case (less i)
  show ?case
  proof (cases "i = 0")
    case True
    then show ?thesis by (simp add: gt_irrefl)
  next
    case False
    then have "\<not> gt (xs ! 0) (xs ! ((i - 1) div 2))" using less by simp
    moreover have "\<not> gt (xs ! ((i - 1) div 2)) (xs ! i)"
      using assms(1) less.prems False by (auto simp: is_heap_def)
    ultimately show ?thesis using gt_cotrans by blast
  qed
qed

lemma heap_hd_least: "is_heap gt xs \<Longrightarrow> x \<in> set xs \<Longrightarrow> \<not> gt (hd xs) x"
  using heap_front_least by (metis gr_implies_not0 hd_conv_nth in_set_conv_nth length_0_conv)

end

section \<open>The buffer interface\<close>

text \<open>
  What a client of a time-ordered buffer relies on: the contents as a multiset, an
  invariant, insertion, and removal of a least element. \<open>drain\<close> empties a buffer.
\<close>

fun drain :: "('b \<Rightarrow> ('a \<times> 'b) option) \<Rightarrow> nat \<Rightarrow> 'b \<Rightarrow> 'a list" where
  "drain pop 0 b = []"
| "drain pop (Suc n) b = (case pop b of None \<Rightarrow> [] | Some (x, b') \<Rightarrow> x # drain pop n b')"

locale prio_buffer =
  fixes gt :: "'a \<Rightarrow> 'a \<Rightarrow> bool"
    and items :: "'b \<Rightarrow> 'a multiset"
    and invar :: "'b \<Rightarrow> bool"
    and insert :: "'b \<Rightarrow> 'a \<Rightarrow> 'b"
    and pop :: "'b \<Rightarrow> ('a \<times> 'b) option"
  assumes items_insert: "items (insert b x) = add_mset x (items b)"
    and invar_insert: "invar b \<Longrightarrow> invar (insert b x)"
    and pop_None: "pop b = None \<longleftrightarrow> items b = {#}"
    and items_pop: "pop b = Some (x, b') \<Longrightarrow> items b = add_mset x (items b')"
    and invar_pop: "invar b \<Longrightarrow> pop b = Some (x, b') \<Longrightarrow> invar b'"
    and pop_least: "invar b \<Longrightarrow> pop b = Some (x, b') \<Longrightarrow> y \<in># items b \<Longrightarrow> \<not> gt x y"
begin

lemma drain_items: "size (items b) \<le> n \<Longrightarrow> mset (drain pop n b) = items b"
proof (induction n arbitrary: b)
  case 0
  then show ?case by simp
next
  case (Suc n)
  show ?case
  proof (cases "pop b")
    case None
    then have "items b = {#}" using pop_None by blast
    then show ?thesis using None by simp
  next
    case (Some p)
    then obtain x b' where p: "pop b = Some (x, b')" by (cases p) auto
    then show ?thesis using Suc items_pop [OF p] by simp
  qed
qed

lemma drain_subset: "y \<in> set (drain pop n b) \<Longrightarrow> y \<in># items b"
proof (induction n arbitrary: b)
  case (Suc n)
  show ?case
  proof (cases "pop b")
    case (Some p)
    then obtain x b' where p: "pop b = Some (x, b')" by (cases p) auto
    then show ?thesis using Suc items_pop [OF p] by auto
  qed (use Suc in simp)
qed simp

lemma drain_sorted: "invar b \<Longrightarrow> sorted_wrt (\<lambda>x y. \<not> gt x y) (drain pop n b)"
proof (induction n arbitrary: b)
  case (Suc n)
  show ?case
  proof (cases "pop b")
    case (Some p)
    then obtain x b' where p: "pop b = Some (x, b')" by (cases p) auto
    have "\<not> gt x y" if "y \<in> set (drain pop n b')" for y
      using pop_least [OF Suc.prems p] items_pop [OF p] drain_subset [OF that] by simp
    then show ?thesis using p Suc.IH [OF invar_pop [OF Suc.prems p]] by simp
  qed simp
qed simp

end

text \<open>A heap vector with a strict weak order provides the interface.\<close>

definition heap_take :: "('a \<Rightarrow> 'a \<Rightarrow> bool) \<Rightarrow> 'a list \<Rightarrow> ('a \<times> 'a list) option" where
  "heap_take gt xs = (if xs = [] then None else Some (hd xs, pop_heap gt xs))"

sublocale heap_cmp \<subseteq> vec: prio_buffer gt mset "is_heap gt" "push_heap gt" "heap_take gt"
proof
  show "mset (push_heap gt b x) = add_mset x (mset b)" for b x by simp
  show "is_heap gt b \<Longrightarrow> is_heap gt (push_heap gt b x)" for b x by (rule push_heap_heap)
  show "heap_take gt b = None \<longleftrightarrow> mset b = {#}" for b by (simp add: heap_take_def)
  show "heap_take gt b = Some (x, b') \<Longrightarrow> mset b = add_mset x (mset b')" for b x b'
    by (auto simp: heap_take_def mset_pop_heap split: if_splits)
  show "is_heap gt b \<Longrightarrow> heap_take gt b = Some (x, b') \<Longrightarrow> is_heap gt b'" for b x b'
    by (auto simp: heap_take_def pop_heap_heap split: if_splits)
  show "is_heap gt b \<Longrightarrow> heap_take gt b = Some (x, b') \<Longrightarrow> y \<in># mset b \<Longrightarrow> \<not> gt x y" for b x b' y
    by (auto simp: heap_take_def heap_hd_least split: if_splits)
qed

lemma heap_one: "push_heap gt [] x = [x]" "pop_heap gt [x] = []"
  by (simp_all add: push_heap_def sift_up.simps)

end
