(* ===== verification/Ruby_Message.thy ===== *)
theory Ruby_Message
  imports Std_Heap Net_Dest
begin

text \<open>
  Protocol messages: \<^verbatim>\<open>class Message\<close> of src/gem5/src/mem/ruby/slicc_interface/Message.hh.
  The concrete message classes are generated from the protocol; the network reads two of
  their virtual members, the destination set and the size class, which are fields here.
  A \<^verbatim>\<open>MsgPtr\<close> is the message itself. The virtual \<^verbatim>\<open>functionalWrite\<close> is a parameter of
  type \<open>func_write\<close>: it tells whether the packet matched and gives the updated message.
\<close>

datatype MessageSizeType =
    Control | Request_Control | Reissue_Control | Response_Control | Writeback_Control
  | Broadcast_Control | Multicast_Control | Forwarded_Control | Invalidate_Control
  | Unblock_Control | Persistent_Control | Completion_Control
  | Data | Response_Data | ResponseLocal_Data | ResponseL2hit_Data | Writeback_Data
  | Undefined_Size

record Message =
  m_msg_time :: Tick
  m_LastEnqueueTime :: Tick
  m_DelayedTicks :: Tick
  m_msg_counter :: nat
  Destination :: NetDest
  MessageSize :: MessageSizeType

type_synonym func_write = "Message \<Rightarrow> bool \<times> Message"

definition Message_new :: "Tick \<Rightarrow> NetDest \<Rightarrow> MessageSizeType \<Rightarrow> Message" where
  "Message_new curTime dest sz =
     \<lparr>m_msg_time = curTime, m_LastEnqueueTime = curTime, m_DelayedTicks = 0, m_msg_counter = 0,
      Destination = dest, MessageSize = sz\<rparr>"

definition updateDelayedTicks :: "Tick \<Rightarrow> Message \<Rightarrow> Message option" where
  "updateDelayedTicks curTime m = do {
     cassert (m_LastEnqueueTime m \<le> curTime);
     let delta = curTime - m_LastEnqueueTime m;
     Some (m\<lparr>m_DelayedTicks := m_DelayedTicks m + delta\<rparr>) }"

text \<open>\<^verbatim>\<open>operator>(MsgPtr, MsgPtr)\<close>\<close>

definition msg_greater :: "Message \<Rightarrow> Message \<Rightarrow> bool" where
  "msg_greater l r =
     (if m_LastEnqueueTime l = m_LastEnqueueTime r then m_msg_counter l > m_msg_counter r
      else m_LastEnqueueTime l > m_LastEnqueueTime r)"

interpretation msg: heap_cmp msg_greater
  by unfold_locales (auto simp: msg_greater_def split: if_splits)

end
