(* ===== verification/Flit.thy ===== *)
theory Flit
  imports Ruby_Message
begin

text \<open>
  Flits and credits: the enumerations and \<^verbatim>\<open>RouteInfo\<close> of garnet2.0/CommonTypes.hh,
  \<^verbatim>\<open>class flit\<close> (flit.hh, flit.cc) and \<^verbatim>\<open>class Credit\<close> (Credit.hh, Credit.cc), all under
  src/gem5/src/mem/ruby/network/garnet2.0. \<^verbatim>\<open>Credit\<close> inherits from \<^verbatim>\<open>flit\<close>, so its record
  extends the flit record and both travel through the same buffers.

  A flit object is owned by one buffer at a time; a \<^verbatim>\<open>flit*\<close> is the record itself, and a
  write through the pointer is a record update. \<open>flit_uninit\<close> fills the members a
  constructor leaves uninitialised; no operation reads them before they are set.
\<close>

section \<open>Common types\<close>

datatype flit_type = HEAD | BODY | TAIL | HEAD_TAIL
datatype VC_state_type = IDLE | VC_AB | ACTIVE
datatype VNET_type = CTRL_VNET | DATA_VNET | NULL_VNET
datatype flit_stage = Stage_I | Stage_VA | Stage_SA | Stage_ST | Stage_LT
datatype link_type = EXT_IN | EXT_OUT | INT_LINK | NUM_LINK_TYPES
datatype RoutingAlgorithm = TABLE_ALG | XY_ALG | RANDOM_ALG | ADAPT_RAND_ALG | WestFirst_ALG
  | ADAPT_WestFirst_ALG | DEFLECTION_ALG | CUSTOM_ALG | OTHER_ALG

text \<open>The cast \<^verbatim>\<open>(RoutingAlgorithm) int\<close>.\<close>

definition RoutingAlgorithm_of_int :: "int \<Rightarrow> RoutingAlgorithm" where
  "RoutingAlgorithm_of_int i =
     (if i = 0 then TABLE_ALG else if i = 1 then XY_ALG else if i = 2 then RANDOM_ALG
      else if i = 3 then ADAPT_RAND_ALG else if i = 4 then WestFirst_ALG
      else if i = 5 then ADAPT_WestFirst_ALG else if i = 6 then DEFLECTION_ALG
      else if i = 7 then CUSTOM_ALG else OTHER_ALG)"

definition INFINITE_TIME :: nat where
  "INFINITE_TIME = 10000"

record RouteInfo =
  route_vnet :: int
  net_dest :: NetDest
  src_ni :: int
  src_router :: int
  dest_ni :: int
  dest_router :: int
  hops_traversed :: int

section \<open>class flit\<close>

record flit =
  m_id :: int
  m_vnet :: int
  m_vc :: int
  m_outvc :: int
  routedSwap :: bool
  m_route :: RouteInfo
  m_size :: int
  m_enqueue_time :: Cycles
  m_dequeue_time :: Cycles
  m_time :: Cycles
  m_type :: flit_type
  m_msg_ptr :: Message
  m_outport :: int
  m_outport_dir :: PortDirection
  src_delay :: Cycles
  m_stage :: "flit_stage \<times> Cycles"

record credit = flit +
  m_is_free_signal :: bool

definition route_uninit :: RouteInfo where
  "route_uninit = \<lparr>route_vnet = 0, net_dest = \<lparr>m_bits = []\<rparr>, src_ni = 0, src_router = 0,
     dest_ni = 0, dest_router = 0, hops_traversed = 0\<rparr>"

definition flit_uninit :: flit where
  "flit_uninit = \<lparr>m_id = 0, m_vnet = 0, m_vc = 0, m_outvc = 0, routedSwap = False,
     m_route = route_uninit, m_size = 0, m_enqueue_time = 0, m_dequeue_time = 0, m_time = 0,
     m_type = HEAD, m_msg_ptr = Message_new 0 \<lparr>m_bits = []\<rparr> Undefined_Size, m_outport = 0,
     m_outport_dir = [], src_delay = 0, m_stage = (Stage_I, 0)\<rparr>"

definition flit_new :: "int \<Rightarrow> int \<Rightarrow> int \<Rightarrow> RouteInfo \<Rightarrow> int \<Rightarrow> Message \<Rightarrow> Cycles \<Rightarrow> flit" where
  "flit_new fid vc vnet route sz msg_ptr curTime =
     flit_uninit\<lparr>m_size := sz, m_msg_ptr := msg_ptr, m_enqueue_time := curTime,
       m_dequeue_time := curTime, m_time := curTime, m_id := fid, m_vnet := vnet, m_vc := vc,
       m_outvc := -1, m_route := route, m_stage := (Stage_I, curTime), routedSwap := False,
       m_type := (if sz = 1 then HEAD_TAIL
                  else if fid = 0 then HEAD
                  else if fid = sz - 1 then TAIL
                  else BODY)\<rparr>"

definition set_RoutedSwap :: "flit \<Rightarrow> flit" where
  "set_RoutedSwap f = f\<lparr>routedSwap := True\<rparr>"

definition unset_RoutedSwap :: "flit \<Rightarrow> flit" where
  "unset_RoutedSwap f = f\<lparr>routedSwap := False\<rparr>"

definition set_outport :: "int \<Rightarrow> flit \<Rightarrow> flit" where
  "set_outport port f = f\<lparr>m_outport := port\<rparr>"

definition set_outport_dir :: "PortDirection \<Rightarrow> flit \<Rightarrow> flit" where
  "set_outport_dir dir f = f\<lparr>m_outport_dir := dir\<rparr>"

definition set_time :: "Cycles \<Rightarrow> 'a flit_scheme \<Rightarrow> 'a flit_scheme" where
  "set_time t f = f\<lparr>m_time := t\<rparr>"

definition set_vc :: "int \<Rightarrow> flit \<Rightarrow> flit" where
  "set_vc vc f = f\<lparr>m_vc := vc\<rparr>"

definition set_src_delay :: "Cycles \<Rightarrow> flit \<Rightarrow> flit" where
  "set_src_delay d f = f\<lparr>src_delay := d\<rparr>"

definition set_dequeue_time :: "Cycles \<Rightarrow> flit \<Rightarrow> flit" where
  "set_dequeue_time t f = f\<lparr>m_dequeue_time := t\<rparr>"

definition increment_hops :: "flit \<Rightarrow> flit" where
  "increment_hops f = f\<lparr>m_route := (m_route f)\<lparr>hops_traversed := hops_traversed (m_route f) + 1\<rparr>\<rparr>"

definition is_stage :: "flit_stage \<Rightarrow> Cycles \<Rightarrow> flit \<Rightarrow> bool" where
  "is_stage stage t f \<longleftrightarrow> stage = fst (m_stage f) \<and> t \<ge> snd (m_stage f)"

definition advance_stage :: "flit_stage \<Rightarrow> Cycles \<Rightarrow> flit \<Rightarrow> flit" where
  "advance_stage t_stage newTime f = f\<lparr>m_stage := (t_stage, newTime)\<rparr>"

definition flit_greater :: "'a flit_scheme \<Rightarrow> 'a flit_scheme \<Rightarrow> bool" where
  "flit_greater n1 n2 =
     (if m_time n1 = m_time n2 then m_id n1 > m_id n2 else m_time n1 > m_time n2)"

definition flit_functionalWrite :: "func_write \<Rightarrow> flit \<Rightarrow> bool \<times> flit" where
  "flit_functionalWrite fw f = (case fw (m_msg_ptr f) of (b, m) \<Rightarrow> (b, f\<lparr>m_msg_ptr := m\<rparr>))"

lemmas flit_updates = set_RoutedSwap_def unset_RoutedSwap_def set_outport_def set_outport_dir_def
  set_time_def set_vc_def set_src_delay_def set_dequeue_time_def increment_hops_def
  advance_stage_def

section \<open>class Credit\<close>

definition Credit_new :: "int \<Rightarrow> bool \<Rightarrow> Cycles \<Rightarrow> credit" where
  "Credit_new vc is_free_signal curTime =
     flit.extend (flit_uninit\<lparr>m_id := 0, m_vc := vc, m_time := curTime\<rparr>)
       (credit.fields is_free_signal)"

section \<open>The order of flits\<close>

text \<open>Flits (and credits) are ordered by time, then by position in the packet.\<close>

interpretation flit_ord: heap_cmp "flit_greater :: 'a flit_scheme \<Rightarrow> 'a flit_scheme \<Rightarrow> bool"
  by unfold_locales (auto simp: flit_greater_def split: if_splits)

lemma Credit_new_simps [simp]:
  "m_vc (Credit_new vc b t) = vc" "m_time (Credit_new vc b t) = t"
  "m_is_free_signal (Credit_new vc b t) = b" "m_id (Credit_new vc b t) = 0"
  by (simp_all add: Credit_new_def flit.defs credit.defs)

lemma flit_new_type:
  "0 < n \<Longrightarrow> 0 \<le> i \<Longrightarrow> i < n \<Longrightarrow>
     m_type (flit_new i vc vnet r n msg t) =
       (if n = 1 then HEAD_TAIL else if i = 0 then HEAD else if i = n - 1 then TAIL else BODY)"
  by (simp add: flit_new_def)

section \<open>What identifies a packet\<close>

text \<open>
  The part of a flit that stays the same between injection and delivery: everything but the channel,
  the output port, the pipeline stage, the swap mark, the hop count and the times of the current hop.
\<close>

definition packet :: "flit \<Rightarrow> flit" where
  "packet f = f\<lparr>m_vc := 0, m_outport := 0, m_outport_dir := [], routedSwap := False, m_stage := (Stage_I, 0),
     m_time := 0, m_dequeue_time := 0, m_route := (m_route f)\<lparr>hops_traversed := 0\<rparr>\<rparr>"

lemma packet_updates [simp]:
  "packet (set_outport p f) = packet f" "packet (set_outport_dir d f) = packet f"
  "packet (set_vc v f) = packet f" "packet (set_RoutedSwap f) = packet f"
  "packet (unset_RoutedSwap f) = packet f" "packet (set_time t f) = packet f"
  "packet (set_dequeue_time t f) = packet f" "packet (increment_hops f) = packet f"
  "packet (advance_stage st t f) = packet f"
  by (simp_all add: packet_def flit_updates)

lemma packet_fields [simp]:
  "m_type (packet f) = m_type f" "m_vnet (packet f) = m_vnet f" "m_msg_ptr (packet f) = m_msg_ptr f"
  by (simp_all add: packet_def)

text \<open>Concrete flits for examples: a one-flit packet with the given id, time and channel.\<close>

definition sample_flit :: "int \<Rightarrow> Cycles \<Rightarrow> int \<Rightarrow> flit" where
  "sample_flit i t vc = flit_uninit\<lparr>m_id := i, m_time := t, m_vc := vc, m_size := 1, m_type := HEAD_TAIL\<rparr>"

end
