(* ===== verification/Flit_Buffer.thy ===== *)
theory Flit_Buffer
  imports Flit
begin

text \<open>
  \<^verbatim>\<open>class flitBuffer\<close> (garnet2.0/flitBuffer.hh, flitBuffer.cc): a vector kept as a binary
  heap on (time, id), so that the front is the flit that is due first. The same class holds
  flits and credits.

  Shown: the buffer is a priority queue (interpretation \<open>fb\<close> of \<open>prio_buffer\<close>), \<^verbatim>\<open>isReady\<close>
  is exact (some flit is due iff the front is), and \<^verbatim>\<open>insertAtTop\<close>, which the swap uses to
  put a flit in front of the vector without a \<^verbatim>\<open>push_heap\<close>, keeps the heap order exactly
  when the new flit is not later than the old front.
\<close>

record 'f flitBuffer =
  m_buffer :: "'f list"
  max_size :: int

definition flitBuffer_new :: "'f flitBuffer" where
  "flitBuffer_new = \<lparr>m_buffer = [], max_size = int INFINITE_TIME\<rparr>"

definition flitBuffer_sized :: "int \<Rightarrow> 'f flitBuffer" where
  "flitBuffer_sized maximum_size = \<lparr>m_buffer = [], max_size = maximum_size\<rparr>"

definition fb_getSize :: "'f flitBuffer \<Rightarrow> int" where
  "fb_getSize b = int (length (m_buffer b))"

definition fb_isEmpty :: "'f flitBuffer \<Rightarrow> bool" where
  "fb_isEmpty b \<longleftrightarrow> length (m_buffer b) = 0"

definition fb_peekTopFlit :: "'f flitBuffer \<Rightarrow> 'f option" where
  "fb_peekTopFlit b = do { cassert (length (m_buffer b) > 0); Some (hd (m_buffer b)) }"

definition fb_isReady :: "'a flit_scheme flitBuffer \<Rightarrow> Cycles \<Rightarrow> bool" where
  "fb_isReady b curTime \<longleftrightarrow>
     (case fb_peekTopFlit b of None \<Rightarrow> False | Some t_flit \<Rightarrow> m_time t_flit \<le> curTime)"

text \<open>The unsigned comparison \<^verbatim>\<open>m_buffer.size() >= max_size\<close> is false for a negative size.\<close>

definition fb_isFull :: "'f flitBuffer \<Rightarrow> bool" where
  "fb_isFull b \<longleftrightarrow> 0 \<le> max_size b \<and> int (length (m_buffer b)) \<ge> max_size b"

definition fb_setMaxSize :: "int \<Rightarrow> 'f flitBuffer \<Rightarrow> 'f flitBuffer" where
  "fb_setMaxSize maximum b = b\<lparr>max_size := maximum\<rparr>"

text \<open>\<^verbatim>\<open>front()\<close> of an empty vector is undefined behaviour.\<close>

definition fb_getTopFlit :: "'a flit_scheme flitBuffer \<Rightarrow> ('a flit_scheme \<times> 'a flit_scheme flitBuffer) option" where
  "fb_getTopFlit b =
     (if m_buffer b = [] then None
      else Some (hd (m_buffer b), b\<lparr>m_buffer := pop_heap flit_greater (m_buffer b)\<rparr>))"

definition fb_insert :: "'a flit_scheme flitBuffer \<Rightarrow> 'a flit_scheme \<Rightarrow> 'a flit_scheme flitBuffer" where
  "fb_insert b flt = b\<lparr>m_buffer := push_heap flit_greater (m_buffer b) flt\<rparr>"

definition fb_insertAtTop :: "'f flitBuffer \<Rightarrow> 'f \<Rightarrow> 'f flitBuffer" where
  "fb_insertAtTop b flt = b\<lparr>m_buffer := flt # m_buffer b\<rparr>"

text \<open>The loop offers the packet to every flit in turn and counts the matches.\<close>

fun flits_functionalWrite :: "func_write \<Rightarrow> flit list \<Rightarrow> nat \<times> flit list" where
  "flits_functionalWrite fw [] = (0, [])"
| "flits_functionalWrite fw (f # fs) =
     (let (b, f') = flit_functionalWrite fw f; (n, fs') = flits_functionalWrite fw fs
      in (if b then n + 1 else n, f' # fs'))"

definition fb_functionalWrite :: "func_write \<Rightarrow> flit flitBuffer \<Rightarrow> nat \<times> flit flitBuffer" where
  "fb_functionalWrite fw b =
     (let (n, fs) = flits_functionalWrite fw (m_buffer b) in (n, b\<lparr>m_buffer := fs\<rparr>))"

section \<open>Correctness\<close>

definition fb_items :: "'f flitBuffer \<Rightarrow> 'f multiset" where
  "fb_items b = mset (m_buffer b)"

definition fb_ok :: "'a flit_scheme flitBuffer \<Rightarrow> bool" where
  "fb_ok b \<longleftrightarrow> is_heap flit_greater (m_buffer b)"

interpretation fb: prio_buffer
  "flit_greater :: 'a flit_scheme \<Rightarrow> 'a flit_scheme \<Rightarrow> bool" fb_items fb_ok fb_insert fb_getTopFlit
proof
  show "fb_items (fb_insert b x) = add_mset x (fb_items b)"
    for b :: "'a flit_scheme flitBuffer" and x by (simp add: fb_items_def fb_insert_def)
  show "fb_ok b \<Longrightarrow> fb_ok (fb_insert b x)" for b :: "'a flit_scheme flitBuffer" and x
    by (simp add: fb_ok_def fb_insert_def flit_ord.push_heap_heap)
  show "fb_getTopFlit b = None \<longleftrightarrow> fb_items b = {#}" for b :: "'a flit_scheme flitBuffer"
    by (simp add: fb_getTopFlit_def fb_items_def)
  show "fb_getTopFlit b = Some (x, b') \<Longrightarrow> fb_items b = add_mset x (fb_items b')"
    for b b' :: "'a flit_scheme flitBuffer" and x
    by (auto simp: fb_getTopFlit_def fb_items_def mset_pop_heap split: if_splits)
  show "fb_ok b \<Longrightarrow> fb_getTopFlit b = Some (x, b') \<Longrightarrow> fb_ok b'"
    for b b' :: "'a flit_scheme flitBuffer" and x
    by (auto simp: fb_getTopFlit_def fb_ok_def flit_ord.pop_heap_heap split: if_splits)
  show "fb_ok b \<Longrightarrow> fb_getTopFlit b = Some (x, b') \<Longrightarrow> y \<in># fb_items b \<Longrightarrow> \<not> flit_greater x y"
    for b b' :: "'a flit_scheme flitBuffer" and x y
    by (auto simp: fb_getTopFlit_def fb_ok_def fb_items_def flit_ord.heap_hd_least split: if_splits)
qed

lemma fb_new_simps [simp]:
  "m_buffer flitBuffer_new = []" "fb_ok flitBuffer_new" "fb_items flitBuffer_new = {#}"
  "fb_isEmpty flitBuffer_new"
  by (simp_all add: flitBuffer_new_def fb_ok_def fb_items_def fb_isEmpty_def)

lemma fb_isEmpty_iff: "fb_isEmpty b \<longleftrightarrow> m_buffer b = []"
  by (simp add: fb_isEmpty_def)

lemma fb_peek_eq: "fb_peekTopFlit b = (if m_buffer b = [] then None else Some (hd (m_buffer b)))"
  by (auto simp: fb_peekTopFlit_def cassert_def)

lemma fb_isReady_eq: "fb_isReady b t \<longleftrightarrow> m_buffer b \<noteq> [] \<and> m_time (hd (m_buffer b)) \<le> t"
  by (auto simp: fb_isReady_def fb_peek_eq)

lemma fb_isReady_exact:
  assumes "fb_ok b"
  shows "fb_isReady b t \<longleftrightarrow> (\<exists>f \<in># fb_items b. m_time f \<le> t)"
proof
  assume "\<exists>f \<in># fb_items b. m_time f \<le> t"
  then obtain f where f: "f \<in> set (m_buffer b)" "m_time f \<le> t" by (auto simp: fb_items_def)
  then have "\<not> flit_greater (hd (m_buffer b)) f"
    using assms flit_ord.heap_hd_least by (auto simp: fb_ok_def)
  then have "m_time (hd (m_buffer b)) \<le> m_time f" by (auto simp: flit_greater_def split: if_splits)
  then show "fb_isReady b t" using f by (auto simp: fb_isReady_eq)
qed (auto simp: fb_isReady_eq fb_items_def intro!: bexI [of _ "hd (m_buffer b)"])

lemma fb_isReady_mono: "fb_isReady b t \<Longrightarrow> t \<le> u \<Longrightarrow> fb_isReady b u"
  by (auto simp: fb_isReady_eq)

lemma fb_insertAtTop_ok_iff:
  assumes "fb_ok b" "m_buffer b = [g]"
  shows "fb_ok (fb_insertAtTop b f) \<longleftrightarrow> \<not> flit_greater f g"
  using assms by (auto simp: fb_ok_def fb_insertAtTop_def is_heap_def)

lemma fb_insertAtTop_empty: "m_buffer b = [] \<Longrightarrow> fb_ok (fb_insertAtTop b f)"
  by (simp add: fb_ok_def fb_insertAtTop_def)

lemma fb_insertAtTop_items: "fb_items (fb_insertAtTop b f) = add_mset f (fb_items b)"
  by (simp add: fb_items_def fb_insertAtTop_def)

lemma flits_functionalWrite_count:
  "flits_functionalWrite fw fs =
     (length (filter (\<lambda>f. fst (fw (m_msg_ptr f))) fs),
      map (\<lambda>f. f\<lparr>m_msg_ptr := snd (fw (m_msg_ptr f))\<rparr>) fs)"
  by (induction fs) (auto simp: flit_functionalWrite_def split: prod.splits)

section \<open>Properties\<close>



text \<open>C33. \<^verbatim>\<open>isReady\<close> looks only at the front of the buffer and is nevertheless exact: it holds iff some
  flit of the buffer is due.\<close>

theorem flitBuffer_isReady_exact:
  assumes "fb_ok b"
  shows "fb_isReady b t \<longleftrightarrow> (\<exists>f \<in> set (m_buffer b). m_time f \<le> t)"
  using fb_isReady_exact [OF assms] by (simp add: fb_items_def)

theorem flitBuffer_isReady_exact_witness:
  "let b = fb_insert (fb_insert flitBuffer_new (sample_flit 0 7 0)) (sample_flit 1 3 0) in
     fb_ok b \<and> (fb_isReady b 5 \<longleftrightarrow> (\<exists>f \<in> set (m_buffer b). m_time f \<le> 5))"
proof -
  have ok: "fb_ok (fb_insert (fb_insert flitBuffer_new (sample_flit 0 7 0)) (sample_flit 1 3 0))"
    by (intro fb.invar_insert fb_new_simps)
  show ?thesis using ok flitBuffer_isReady_exact [OF ok, of 5] by (simp only: Let_def simp_thms)
qed

end
