(* ===== verification/Garnet_Env.thy ===== *)
theory Garnet_Env
  imports Flit_Buffer
begin

text \<open>
  What every garnet object shares: the configuration (\<^verbatim>\<open>GarnetNetwork::GarnetNetwork\<close> and
  the configuration half of \<^verbatim>\<open>GarnetNetwork::init\<close>, GarnetNetwork.cc), the clock
  (\<^verbatim>\<open>Clocked::clockEdge\<close>, \<^verbatim>\<open>ticksToCycles\<close>; all garnet objects sit in one clock domain), the
  statistics counters (GarnetNetwork.hh), the wake-up scheduling of \<^verbatim>\<open>class Consumer\<close>
  (common/Consumer.hh, Consumer.cc), the links, and the values of \<^verbatim>\<open>rand()\<close>.

  Pointers to consumers are values of the type \<open>consumer\<close>. \<open>event_queue\<close> is the simulator's
  queue of pending wake-up events, \<open>m_scheduled_wakeups\<close> the sets of the same name, one per
  consumer, kept as one list of pairs.
\<close>

section \<open>Configuration\<close>

record garnet_params =
  p_num_rows :: int
  p_ni_flit_size :: nat
  p_vcs_per_vnet :: int
  p_buffers_per_data_vc :: int
  p_buffers_per_ctrl_vc :: int
  p_routing_algorithm :: int
  p_interswap :: bool
  p_policy :: nat
  p_whenToSwap :: nat
  p_whichToSwap :: nat
  p_no_is_swap :: nat
  p_occupancy_swap :: nat
  p_inj_single_vnet :: nat

record garnet_cfg =
  m_num_rows :: int
  m_num_cols :: int
  m_ni_flit_size :: nat
  m_vcs_per_vnet :: int
  m_buffers_per_data_vc :: int
  m_buffers_per_ctrl_vc :: int
  m_routing_algorithm :: int
  m_interswap :: bool
  m_policy :: nat
  m_whenToSwap :: nat
  m_whichToSwap :: nat
  m_no_is_swap :: nat
  m_occupancy_swap :: nat
  m_inj_single_vnet :: nat
  m_vnet_type :: "VNET_type list"
  m_ordered :: "bool list"
  m_virtual_networks :: int
  m_control_msg_size :: nat
  m_data_msg_size :: nat
  clockPeriod :: nat

definition DISABLE_LOCAL_SWAP :: nat where "DISABLE_LOCAL_SWAP = 1"
definition ENABLE_LOCAL_SWAP :: nat where "ENABLE_LOCAL_SWAP = 2"

text \<open>
  The constructor: copy the parameters, force \<^verbatim>\<open>m_no_is_swap\<close> to 1 when packets are injected
  into several virtual networks, check the swap knobs and classify the virtual networks by
  the names the protocol registered (the \<^verbatim>\<open>MY_PRINT\<close> branches print only). \<open>ordered\<close>, the
  names and the message sizes come from the base class \<^verbatim>\<open>Network\<close>.
\<close>

definition GarnetNetwork_new ::
    "garnet_params \<Rightarrow> bool list \<Rightarrow> string list \<Rightarrow> nat \<Rightarrow> nat \<Rightarrow> nat \<Rightarrow> garnet_cfg option" where
  "GarnetNetwork_new p ordered m_vnet_type_names control_msg_size data_msg_size period = do {
     let no_is_swap = (if p_inj_single_vnet p = 0 then 1 else p_no_is_swap p);
     (if p_interswap p then do {
        cassert (p_policy p = 0);
        cassert (p_whenToSwap p \<noteq> 0);
        cassert (p_whichToSwap p \<noteq> 0);
        cassert (p_whichToSwap p = DISABLE_LOCAL_SWAP \<or> p_whichToSwap p = ENABLE_LOCAL_SWAP) }
      else do {
        cassert (p_whenToSwap p = 0);
        cassert (p_whichToSwap p = 0);
        cassert (p_policy p = 0) });
     Some \<lparr>m_num_rows = p_num_rows p, m_num_cols = -1, m_ni_flit_size = p_ni_flit_size p,
       m_vcs_per_vnet = p_vcs_per_vnet p, m_buffers_per_data_vc = p_buffers_per_data_vc p,
       m_buffers_per_ctrl_vc = p_buffers_per_ctrl_vc p,
       m_routing_algorithm = p_routing_algorithm p, m_interswap = p_interswap p,
       m_policy = p_policy p, m_whenToSwap = p_whenToSwap p, m_whichToSwap = p_whichToSwap p,
       m_no_is_swap = no_is_swap, m_occupancy_swap = p_occupancy_swap p,
       m_inj_single_vnet = p_inj_single_vnet p,
       m_vnet_type = map (\<lambda>n. if n = ''response'' then DATA_VNET else CTRL_VNET) m_vnet_type_names,
       m_ordered = ordered, m_virtual_networks = int (length m_vnet_type_names),
       m_control_msg_size = control_msg_size, m_data_msg_size = data_msg_size,
       clockPeriod = period\<rparr> }"

text \<open>The mesh dimensions, fixed by \<^verbatim>\<open>init()\<close> once the routers are known.\<close>

definition init_dimensions :: "int \<Rightarrow> garnet_cfg \<Rightarrow> garnet_cfg option" where
  "init_dimensions num_routers c =
     (if m_num_rows c > 0 then do {
        let cols = num_routers div m_num_rows c;
        cassert (m_num_rows c * cols = num_routers);
        Some (c\<lparr>m_num_cols := cols\<rparr>) }
      else Some (c\<lparr>m_num_rows := -1, m_num_cols := -1\<rparr>))"

definition isVNetOrdered :: "garnet_cfg \<Rightarrow> int \<Rightarrow> bool option" where
  "isVNetOrdered c vnet = vec_at (m_ordered c) vnet"

definition get_vnet_type :: "garnet_cfg \<Rightarrow> int \<Rightarrow> VNET_type option" where
  "get_vnet_type c vc = do {
     cassert (m_vcs_per_vnet c \<noteq> 0);
     vec_at (m_vnet_type c) (vc div m_vcs_per_vnet c) }"

text \<open>\<^verbatim>\<open>Network::MessageSizeType_to_int\<close> (Network.cc)\<close>

fun MessageSizeType_to_int :: "garnet_cfg \<Rightarrow> MessageSizeType \<Rightarrow> nat option" where
  "MessageSizeType_to_int c Data = Some (m_data_msg_size c)"
| "MessageSizeType_to_int c Response_Data = Some (m_data_msg_size c)"
| "MessageSizeType_to_int c ResponseLocal_Data = Some (m_data_msg_size c)"
| "MessageSizeType_to_int c ResponseL2hit_Data = Some (m_data_msg_size c)"
| "MessageSizeType_to_int c Writeback_Data = Some (m_data_msg_size c)"
| "MessageSizeType_to_int c Undefined_Size = None"
| "MessageSizeType_to_int c _ = Some (m_control_msg_size c)"

section \<open>Statistics\<close>

record net_stats =
  m_total_swaps :: nat
  m_total_bailout :: nat
  m_total_routedSwaps :: nat
  m_total_initiated_swaps :: nat
  m_total_failed_swaps :: nat
  m_total_failed_downstream_empty :: nat
  m_total_failed_upstream_empty :: nat
  m_total_failed_downstream_localOutport :: nat
  m_total_failed_upstream_localOuport :: nat
  max_flit_latency :: Cycles
  max_flit_network_latency :: Cycles
  max_flit_queueing_latency :: Cycles
  min_flit_latency :: Cycles
  min_flit_network_latency :: Cycles
  min_flit_queueing_latency :: Cycles
  m_max_flit_latency :: Cycles
  m_max_flit_network_latency :: Cycles
  m_max_flit_queueing_latency :: Cycles
  m_min_flit_latency :: Cycles
  m_min_flit_network_latency :: Cycles
  m_min_flit_queueing_latency :: Cycles
  m_network_latency_histogram :: "nat list"
  m_flt_latency_hist :: "Cycles list"
  m_flt_network_latency_hist :: "Cycles list"
  m_flt_queueing_latency_hist :: "Cycles list"
  m_packets_received :: "nat list"
  m_packets_injected :: "nat list"
  m_packet_network_latency :: "nat list"
  m_packet_queueing_latency :: "nat list"
  m_flits_received :: "nat list"
  m_flits_injected :: "nat list"
  m_flit_network_latency :: "nat list"
  m_flit_queueing_latency :: "nat list"
  m_total_hops :: int

text \<open>
  The initial statistics: extremes as the constructor sets them, counters zero, vectors as
  long as \<^verbatim>\<open>regStats\<close> makes them.
\<close>

definition net_stats_init :: "int \<Rightarrow> net_stats" where
  "net_stats_init virtual_networks = \<lparr>m_total_swaps = 0, m_total_bailout = 0,
     m_total_routedSwaps = 0, m_total_initiated_swaps = 0, m_total_failed_swaps = 0,
     m_total_failed_downstream_empty = 0, m_total_failed_upstream_empty = 0,
     m_total_failed_downstream_localOutport = 0, m_total_failed_upstream_localOuport = 0,
     max_flit_latency = 0, max_flit_network_latency = 0, max_flit_queueing_latency = 0,
     min_flit_latency = 999999, min_flit_network_latency = 999999,
     min_flit_queueing_latency = 999999,
     m_max_flit_latency = 0, m_max_flit_network_latency = 0, m_max_flit_queueing_latency = 0,
     m_min_flit_latency = 0, m_min_flit_network_latency = 0, m_min_flit_queueing_latency = 0,
     m_network_latency_histogram = replicate 21 0, m_flt_latency_hist = [],
     m_flt_network_latency_hist = [], m_flt_queueing_latency_hist = [],
     m_packets_received = replicate (nat virtual_networks) 0,
     m_packets_injected = replicate (nat virtual_networks) 0,
     m_packet_network_latency = replicate (nat virtual_networks) 0,
     m_packet_queueing_latency = replicate (nat virtual_networks) 0,
     m_flits_received = replicate (nat virtual_networks) 0,
     m_flits_injected = replicate (nat virtual_networks) 0,
     m_flit_network_latency = replicate (nat virtual_networks) 0,
     m_flit_queueing_latency = replicate (nat virtual_networks) 0, m_total_hops = 0\<rparr>"

definition update_flit_latency_histogram :: "Cycles \<Rightarrow> net_stats \<Rightarrow> net_stats" where
  "update_flit_latency_histogram latency s =
     s\<lparr>m_flt_latency_hist := m_flt_latency_hist s @ [latency],
       max_flit_latency := (if latency > max_flit_latency s then latency else max_flit_latency s),
       min_flit_latency := (if latency < min_flit_latency s then latency else min_flit_latency s)\<rparr>"

definition update_flit_network_latency_histogram :: "Cycles \<Rightarrow> net_stats \<Rightarrow> net_stats" where
  "update_flit_network_latency_histogram latency s =
     s\<lparr>m_flt_network_latency_hist := m_flt_network_latency_hist s @ [latency],
       max_flit_network_latency :=
         (if latency > max_flit_network_latency s then latency else max_flit_network_latency s),
       min_flit_network_latency :=
         (if latency < min_flit_network_latency s then latency else min_flit_network_latency s)\<rparr>"

definition update_flit_queueing_latency_histogram :: "Cycles \<Rightarrow> net_stats \<Rightarrow> net_stats" where
  "update_flit_queueing_latency_histogram latency s =
     s\<lparr>m_flt_queueing_latency_hist := m_flt_queueing_latency_hist s @ [latency],
       max_flit_queueing_latency :=
         (if latency > max_flit_queueing_latency s then latency else max_flit_queueing_latency s),
       min_flit_queueing_latency :=
         (if latency < min_flit_queueing_latency s then latency else min_flit_queueing_latency s)\<rparr>"

definition update_network_latency_histogram :: "Cycles \<Rightarrow> net_stats \<Rightarrow> net_stats option" where
  "update_network_latency_histogram latency s = do {
     let index = latency div 5;
     h \<leftarrow> vec_add (m_network_latency_histogram s) (if index < 20 then int index else 20) 1;
     Some (s\<lparr>m_network_latency_histogram := h\<rparr>) }"

definition increment_injected_packets :: "int \<Rightarrow> net_stats \<Rightarrow> net_stats option" where
  "increment_injected_packets vnet s = do {
     v \<leftarrow> vec_add (m_packets_injected s) vnet 1;
     Some (s\<lparr>m_packets_injected := v\<rparr>) }"

definition increment_received_packets :: "int \<Rightarrow> net_stats \<Rightarrow> net_stats option" where
  "increment_received_packets vnet s = do {
     v \<leftarrow> vec_add (m_packets_received s) vnet 1;
     Some (s\<lparr>m_packets_received := v\<rparr>) }"

definition increment_packet_network_latency :: "Cycles \<Rightarrow> int \<Rightarrow> net_stats \<Rightarrow> net_stats option" where
  "increment_packet_network_latency latency vnet s = do {
     v \<leftarrow> vec_add (m_packet_network_latency s) vnet latency;
     Some (s\<lparr>m_packet_network_latency := v\<rparr>) }"

definition increment_packet_queueing_latency :: "Cycles \<Rightarrow> int \<Rightarrow> net_stats \<Rightarrow> net_stats option" where
  "increment_packet_queueing_latency latency vnet s = do {
     v \<leftarrow> vec_add (m_packet_queueing_latency s) vnet latency;
     Some (s\<lparr>m_packet_queueing_latency := v\<rparr>) }"

definition increment_injected_flits :: "int \<Rightarrow> net_stats \<Rightarrow> net_stats option" where
  "increment_injected_flits vnet s = do {
     v \<leftarrow> vec_add (m_flits_injected s) vnet 1;
     Some (s\<lparr>m_flits_injected := v\<rparr>) }"

text \<open>Besides counting, this copies the running extremes into the reported statistics.\<close>

definition increment_received_flits :: "int \<Rightarrow> net_stats \<Rightarrow> net_stats option" where
  "increment_received_flits vnet s = do {
     v \<leftarrow> vec_add (m_flits_received s) vnet 1;
     Some (s\<lparr>m_flits_received := v,
       m_max_flit_latency := max_flit_latency s,
       m_max_flit_network_latency := max_flit_network_latency s,
       m_max_flit_queueing_latency := max_flit_queueing_latency s,
       m_min_flit_latency := min_flit_latency s,
       m_min_flit_network_latency := min_flit_network_latency s,
       m_min_flit_queueing_latency := min_flit_queueing_latency s\<rparr>) }"

definition increment_flit_network_latency :: "Cycles \<Rightarrow> int \<Rightarrow> net_stats \<Rightarrow> net_stats option" where
  "increment_flit_network_latency latency vnet s = do {
     v \<leftarrow> vec_add (m_flit_network_latency s) vnet latency;
     Some (s\<lparr>m_flit_network_latency := v\<rparr>) }"

definition increment_flit_queueing_latency :: "Cycles \<Rightarrow> int \<Rightarrow> net_stats \<Rightarrow> net_stats option" where
  "increment_flit_queueing_latency latency vnet s = do {
     v \<leftarrow> vec_add (m_flit_queueing_latency s) vnet latency;
     Some (s\<lparr>m_flit_queueing_latency := v\<rparr>) }"

definition increment_total_hops :: "int \<Rightarrow> net_stats \<Rightarrow> net_stats" where
  "increment_total_hops hops s = s\<lparr>m_total_hops := m_total_hops s + hops\<rparr>"

definition increment_total_swaps :: "net_stats \<Rightarrow> net_stats" where
  "increment_total_swaps s = s\<lparr>m_total_swaps := m_total_swaps s + 1\<rparr>"

section \<open>The shared state, the clock and wake-ups\<close>

text \<open>
  The objects that are woken: routers, network interfaces and links, the protocol controllers, and the switches and
  throttles of the simple network.
\<close>

datatype consumer = C_Router int | C_NI int | C_NetLink int | C_CreditLink int | C_Controller int
  | C_Switch int | C_Throttle int int

text \<open>
  The \<^verbatim>\<open>flitBuffer*\<close> a link reads from: an output unit's buffer, an input unit's credit queue,
  or one of the two queues of a network interface.
\<close>

datatype queue_ref = Q_OutputUnit int int | Q_InputCredit int int | Q_NIFlit int | Q_NICredit int

text \<open>
  \<^verbatim>\<open>class NetworkLink\<close> (and \<^verbatim>\<open>CreditLink\<close>). Links are named by their position in the network's
  vectors \<^verbatim>\<open>m_networklinks\<close> and \<^verbatim>\<open>m_creditlinks\<close>.
\<close>

record 'f NetworkLink =
  m_id_l :: int
  m_type_l :: link_type
  m_latency_l :: Cycles
  linkBuffer :: "'f flitBuffer"
  link_consumer :: "consumer option"
  link_srcQueue :: "queue_ref option"
  m_link_utilized :: nat
  m_vc_load :: "nat list"

record env =
  cfg :: garnet_cfg
  curCycle :: Cycles
  stats :: net_stats
  event_queue :: "(Tick \<times> consumer) list"
  m_scheduled_wakeups :: "(consumer \<times> Tick) list"
  rng_state :: rng
  m_networklinks :: "flit NetworkLink list"
  m_creditlinks :: "credit NetworkLink list"

definition clockEdge :: "env \<Rightarrow> Cycles \<Rightarrow> Tick" where
  "clockEdge e d = (curCycle e + d) * clockPeriod (cfg e)"

definition ticksToCycles :: "env \<Rightarrow> Tick \<Rightarrow> Cycles" where
  "ticksToCycles e t = (t + clockPeriod (cfg e) - 1) div clockPeriod (cfg e)"

definition cyclesToTicks :: "env \<Rightarrow> Cycles \<Rightarrow> Tick" where
  "cyclesToTicks e c = clockPeriod (cfg e) * c"

definition random_draw :: "env \<Rightarrow> nat \<times> env" where
  "random_draw e = (case rng_next (rng_state e) of (v, g) \<Rightarrow> (v, e\<lparr>rng_state := g\<rparr>))"

definition upd_stats :: "(net_stats \<Rightarrow> net_stats) \<Rightarrow> env \<Rightarrow> env" where
  "upd_stats f e = e\<lparr>stats := f (stats e)\<rparr>"

definition alreadyScheduled :: "env \<Rightarrow> consumer \<Rightarrow> Tick \<Rightarrow> bool" where
  "alreadyScheduled e c t \<longleftrightarrow> (c, t) \<in> set (m_scheduled_wakeups e)"

definition insertScheduledWakeupTime :: "consumer \<Rightarrow> Tick \<Rightarrow> env \<Rightarrow> env" where
  "insertScheduledWakeupTime c t e = e\<lparr>m_scheduled_wakeups := (c, t) # m_scheduled_wakeups e\<rparr>"

text \<open>
  \<^verbatim>\<open>scheduleEventAbsolute\<close>: a wake-up that is not already scheduled goes into the event queue
  (which refuses times in the past), and times before the current edge are forgotten.
\<close>

definition scheduleEventAbsolute :: "consumer \<Rightarrow> Tick \<Rightarrow> env \<Rightarrow> env option" where
  "scheduleEventAbsolute c evt_time e = do {
     e' \<leftarrow> (if \<not> alreadyScheduled e c evt_time then do {
              cassert (clockEdge e 0 \<le> evt_time);
              Some (insertScheduledWakeupTime c evt_time
                      (e\<lparr>event_queue := event_queue e @ [(evt_time, c)]\<rparr>)) }
           else Some e);
     let t = clockEdge e' 0;
     Some (e'\<lparr>m_scheduled_wakeups :=
              filter (\<lambda>(c', t'). \<not> (c' = c \<and> t' < t)) (m_scheduled_wakeups e')\<rparr>) }"

definition scheduleEvent :: "consumer \<Rightarrow> Cycles \<Rightarrow> env \<Rightarrow> env option" where
  "scheduleEvent c timeDelta e = scheduleEventAbsolute c (clockEdge e timeDelta) e"

subsection \<open>Wake-ups are never lost and never duplicated\<close>

text \<open>
  The invariant: no wake-up is pending twice, every pending one that is not in the past is
  remembered in \<^verbatim>\<open>m_scheduled_wakeups\<close>, and every one remembered for the future is pending. (One that is
  remembered for the present may just have been served.)
\<close>

definition sched_ok :: "env \<Rightarrow> bool" where
  "sched_ok e \<longleftrightarrow>
     distinct (event_queue e) \<and>
     (\<forall>(t, c) \<in> set (event_queue e). clockEdge e 0 \<le> t \<longrightarrow> (c, t) \<in> set (m_scheduled_wakeups e)) \<and>
     (\<forall>(c, t) \<in> set (m_scheduled_wakeups e). clockEdge e 0 < t \<longrightarrow> (t, c) \<in> set (event_queue e))"

lemma scheduleEventAbsolute_frame:
  "scheduleEventAbsolute c t e = Some e' \<Longrightarrow>
     cfg e' = cfg e \<and> curCycle e' = curCycle e \<and> stats e' = stats e \<and> rng_state e' = rng_state e \<and>
     m_networklinks e' = m_networklinks e \<and> m_creditlinks e' = m_creditlinks e"
  by (auto simp: scheduleEventAbsolute_def insertScheduledWakeupTime_def bind_Some Let_def
      split: if_splits)

lemma scheduleEventAbsolute_total:
  "clockEdge e 0 \<le> t \<Longrightarrow> \<exists>e'. scheduleEventAbsolute c t e = Some e'"
  by (auto simp: scheduleEventAbsolute_def)

lemma clockEdge_mono: "d \<le> d' \<Longrightarrow> clockEdge e d \<le> clockEdge e d'"
  by (simp add: clockEdge_def)

lemma clockEdge_cong: "cfg e' = cfg e \<Longrightarrow> curCycle e' = curCycle e \<Longrightarrow> clockEdge e' d = clockEdge e d"
  by (simp add: clockEdge_def)

lemma scheduleEvent_total: "\<exists>e'. scheduleEvent c d e = Some e'"
  unfolding scheduleEvent_def by (rule scheduleEventAbsolute_total) (simp add: clockEdge_mono)

lemma scheduleEventAbsolute_queue:
  assumes "scheduleEventAbsolute c t e = Some e'"
  shows "event_queue e' = (if alreadyScheduled e c t then event_queue e
           else event_queue e @ [(t, c)])"
  using assms
  by (auto simp: scheduleEventAbsolute_def insertScheduledWakeupTime_def bind_Some Let_def
      split: if_splits)

lemma scheduleEventAbsolute_pending:
  assumes "scheduleEventAbsolute c t e = Some e'" "sched_ok e" "clockEdge e 0 < t"
  shows "(t, c) \<in> set (event_queue e')"
  using assms scheduleEventAbsolute_queue [OF assms(1)]
  by (auto simp: sched_ok_def alreadyScheduled_def)

lemma scheduleEventAbsolute_ok:
  assumes s: "scheduleEventAbsolute c t e = Some e'" and ok: "sched_ok e"
  shows "sched_ok e'"
proof -
  have edge: "clockEdge e' 0 = clockEdge e 0"
    using scheduleEventAbsolute_frame [OF s] by (simp add: clockEdge_def)
  have wk: "set (m_scheduled_wakeups e') =
      {(c', t'). ((c', t') = (c, t) \<or> (c', t') \<in> set (m_scheduled_wakeups e)) \<and>
                 \<not> (c' = c \<and> t' < clockEdge e 0)}"
    using s
    by (auto simp: scheduleEventAbsolute_def insertScheduledWakeupTime_def bind_Some Let_def
        clockEdge_def alreadyScheduled_def split: if_splits)
  have eq: "event_queue e' = (if alreadyScheduled e c t then event_queue e
      else event_queue e @ [(t, c)])"
    by (rule scheduleEventAbsolute_queue [OF s])
  have t: "alreadyScheduled e c t \<or> clockEdge e 0 \<le> t"
    using s by (auto simp: scheduleEventAbsolute_def bind_Some split: if_splits)
  show ?thesis
    using ok t unfolding sched_ok_def edge wk eq alreadyScheduled_def
    by (auto split: if_splits)
qed

text \<open>Requests for wake-ups and nothing else on the event queue.\<close>

definition wakes :: "env \<Rightarrow> env \<Rightarrow> bool" where
  "wakes e e' \<longleftrightarrow> set (event_queue e) \<subseteq> set (event_queue e') \<and> (sched_ok e \<longrightarrow> sched_ok e')"

lemma wakes_refl [simp]: "wakes e e"
  by (simp add: wakes_def)

lemma wakes_trans: "wakes e e' \<Longrightarrow> wakes e' e'' \<Longrightarrow> wakes e e''"
  by (auto simp: wakes_def)

lemma sched_ok_updates [simp]:
  "sched_ok (e\<lparr>stats := s\<rparr>) = sched_ok e" "sched_ok (e\<lparr>rng_state := g\<rparr>) = sched_ok e"
  "sched_ok (e\<lparr>m_networklinks := ls\<rparr>) = sched_ok e" "sched_ok (e\<lparr>m_creditlinks := cs\<rparr>) = sched_ok e"
  by (simp_all add: sched_ok_def clockEdge_def)

lemma wakes_updates [simp]:
  "wakes e (e'\<lparr>stats := s\<rparr>) = wakes e e'" "wakes e (e'\<lparr>rng_state := g\<rparr>) = wakes e e'"
  "wakes e (e'\<lparr>m_networklinks := ls\<rparr>) = wakes e e'" "wakes e (e'\<lparr>m_creditlinks := cs\<rparr>) = wakes e e'"
  by (simp_all add: wakes_def)

lemma wakes_same:
  assumes "cfg e' = cfg e" "curCycle e' = curCycle e" "event_queue e' = event_queue e"
    "m_scheduled_wakeups e' = m_scheduled_wakeups e"
  shows "wakes e e'"
  using assms by (simp add: wakes_def sched_ok_def clockEdge_def)

lemma scheduleEventAbsolute_wakes: "scheduleEventAbsolute c t e = Some e' \<Longrightarrow> wakes e e'"
  using scheduleEventAbsolute_ok scheduleEventAbsolute_queue by (auto simp: wakes_def)

section \<open>What the routers leave alone\<close>

text \<open>Configuration, clock and the counts of injected and received packets.\<close>

definition ctx :: "env \<Rightarrow> garnet_cfg \<times> Cycles \<times> nat list \<times> nat list" where
  "ctx e = (cfg e, curCycle e, m_packets_injected (stats e), m_packets_received (stats e))"

text \<open>A change of the event queue, the random state and other statistics only.\<close>

definition calm :: "env \<Rightarrow> env \<Rightarrow> bool" where
  "calm e e' \<longleftrightarrow> ctx e' = ctx e \<and> m_networklinks e' = m_networklinks e \<and> m_creditlinks e' = m_creditlinks e \<and> wakes e e'"

lemma calm_refl [simp]: "calm e e"
  by (simp add: calm_def)

lemma calm_trans: "calm e e' \<Longrightarrow> calm e' e'' \<Longrightarrow> calm e e''"
  by (auto simp: calm_def intro: wakes_trans)

lemma scheduleEventAbsolute_calm: "scheduleEventAbsolute c t e = Some e' \<Longrightarrow> calm e e'"
  using scheduleEventAbsolute_frame scheduleEventAbsolute_wakes by (simp add: ctx_def calm_def)

lemma scheduleEvent_calm: "scheduleEvent c d e = Some e' \<Longrightarrow> calm e e'"
  by (simp add: scheduleEvent_def scheduleEventAbsolute_calm)

lemma calm_frame:
  assumes "calm e e'"
  shows "cfg e' = cfg e" "curCycle e' = curCycle e" "ctx e' = ctx e" "m_networklinks e' = m_networklinks e"
    "m_creditlinks e' = m_creditlinks e"
  using assms by (auto simp: calm_def ctx_def)

lemma ctx_links [simp]:
  "ctx (e\<lparr>m_networklinks := ls\<rparr>) = ctx e" "ctx (e\<lparr>m_creditlinks := cs\<rparr>) = ctx e"
  by (simp_all add: ctx_def)

text \<open>Links that only lose what their consumer takes, and the change of the shared state this allows.\<close>

definition drained :: "'f NetworkLink list \<Rightarrow> 'f NetworkLink list \<Rightarrow> bool" where
  "drained = list_all2 (\<lambda>l l'. link_consumer l' = link_consumer l \<and> fb_items (linkBuffer l') \<subseteq># fb_items (linkBuffer l))"

lemma drained_refl [simp]: "drained ls ls"
  by (simp add: drained_def list_all2_same)

lemma drained_trans: "drained ls ls' \<Longrightarrow> drained ls' ls'' \<Longrightarrow> drained ls ls''"
  unfolding drained_def by (rule list_all2_trans [where ?P1.0 = "\<lambda>l l'. link_consumer l' = link_consumer l \<and>
    fb_items (linkBuffer l') \<subseteq># fb_items (linkBuffer l)"]) (auto intro: subset_mset.trans)

definition drift :: "env \<Rightarrow> env \<Rightarrow> bool" where
  "drift e e' \<longleftrightarrow> cfg e' = cfg e \<and> curCycle e' = curCycle e \<and> wakes e e' \<and>
     drained (m_networklinks e) (m_networklinks e') \<and> drained (m_creditlinks e) (m_creditlinks e')"

lemma drift_refl [simp]: "drift e e"
  by (simp add: drift_def)

lemma drift_trans: "drift e e' \<Longrightarrow> drift e' e'' \<Longrightarrow> drift e e''"
  by (auto simp: drift_def intro: wakes_trans drained_trans)

lemma calm_drift: "calm e e' \<Longrightarrow> drift e e'"
  by (simp add: calm_def drift_def ctx_def)

lemma drift_stats [simp]: "drift e (e'\<lparr>stats := s\<rparr>) = drift e e'"
  by (simp add: drift_def)

text \<open>The flits on the links.\<close>

definition link_flits :: "env \<Rightarrow> flit multiset" where
  "link_flits e = (\<Sum>l\<leftarrow>m_networklinks e. fb_items (linkBuffer l))"

section \<open>A concrete network state for examples\<close>

definition sample_cfg :: garnet_cfg where
  "sample_cfg = \<lparr>m_num_rows = 2, m_num_cols = 2, m_ni_flit_size = 16, m_vcs_per_vnet = 2,
     m_buffers_per_data_vc = 1, m_buffers_per_ctrl_vc = 1, m_routing_algorithm = 1,
     m_interswap = True, m_policy = 0, m_whenToSwap = 1, m_whichToSwap = DISABLE_LOCAL_SWAP,
     m_no_is_swap = 0, m_occupancy_swap = 0, m_inj_single_vnet = 1, m_vnet_type = [CTRL_VNET],
     m_ordered = [False], m_virtual_networks = 1, m_control_msg_size = 8, m_data_msg_size = 72,
     clockPeriod = 1\<rparr>"

definition sample_env :: "Cycles \<Rightarrow> env" where
  "sample_env now = \<lparr>cfg = sample_cfg, curCycle = now, stats = net_stats_init 1, event_queue = [],
     m_scheduled_wakeups = [], rng_state = (\<lambda>_. 0), m_networklinks = [], m_creditlinks = []\<rparr>"

section \<open>Properties\<close>

text \<open>The combinations of swap parameters that make sense: all of them off, or a turn policy and a port policy chosen.\<close>

definition knobs_ok :: "garnet_params \<Rightarrow> bool" where
  "knobs_ok p \<longleftrightarrow> p_policy p = 0 \<and>
     (if p_interswap p then p_whenToSwap p \<noteq> 0 \<and> p_whichToSwap p \<in> {DISABLE_LOCAL_SWAP, ENABLE_LOCAL_SWAP}
      else p_whenToSwap p = 0 \<and> p_whichToSwap p = 0)"

text \<open>Construction followed by \<^verbatim>\<open>init()\<close>, for \<open>n\<close> routers.\<close>

definition configured :: "garnet_params \<Rightarrow> bool list \<Rightarrow> string list \<Rightarrow> nat \<Rightarrow> nat \<Rightarrow> nat \<Rightarrow> int \<Rightarrow> garnet_cfg option" where
  "configured p ord names cs ds period n = do { c \<leftarrow> GarnetNetwork_new p ord names cs ds period; init_dimensions n c }"


definition sample_params :: garnet_params where
  "sample_params = \<lparr>p_num_rows = 2, p_ni_flit_size = 16, p_vcs_per_vnet = 2, p_buffers_per_data_vc = 1, p_buffers_per_ctrl_vc = 1,
     p_routing_algorithm = 1, p_interswap = True, p_policy = 0, p_whenToSwap = 1, p_whichToSwap = 1, p_no_is_swap = 0,
     p_occupancy_swap = 0, p_inj_single_vnet = 1\<rparr>"


end
