(* ===== verification/Mesh.thy ===== *)
theory Mesh
  imports Garnet_Env
begin

text \<open>
  The mesh geometry the SWAP code relies on: \<^verbatim>\<open>get_downstreamId\<close>, \<^verbatim>\<open>get_downstreamDirn\<close> and
  \<^verbatim>\<open>get_upstreamId\<close> of GarnetNetwork.cc, and the coordinate arithmetic every mesh routing function
  of RoutingUnit.cc opens with. Router ids are row major, so router \<open>i\<close> stands at
  (\<open>i mod cols\<close>, \<open>i div cols\<close>); ids are never negative, so C++ \<^verbatim>\<open>/\<close> and \<^verbatim>\<open>%\<close> are \<open>div\<close> and
  \<open>mod\<close>.

  Shown: the upstream neighbour undoes the downstream one; a hop in a direction the mesh has
  changes the coordinates by one; a hop towards the destination shortens the distance by one.
  The locale \<open>mesh_routing\<close> derives from that single law that every packet arrives after
  exactly as many hops as the distance and never leaves the mesh.
\<close>

definition get_downstreamId :: "garnet_cfg \<Rightarrow> PortDirection \<Rightarrow> int \<Rightarrow> int option" where
  "get_downstreamId c outport_dir upstream_id =
     (if outport_dir = ''East'' then Some (upstream_id + 1)
      else if outport_dir = ''West'' then Some (upstream_id - 1)
      else if outport_dir = ''North'' then Some (upstream_id + m_num_cols c)
      else if outport_dir = ''South'' then Some (upstream_id - m_num_cols c)
      else None)"

text \<open>For a direction that is none of the five the default-constructed string is returned.\<close>

definition get_downstreamDirn :: "PortDirection \<Rightarrow> PortDirection option" where
  "get_downstreamDirn outport_dir =
     (if outport_dir = ''East'' then Some ''West''
      else if outport_dir = ''West'' then Some ''East''
      else if outport_dir = ''North'' then Some ''South''
      else if outport_dir = ''South'' then Some ''North''
      else if outport_dir = ''Local'' then None
      else Some [])"

definition get_upstreamId :: "garnet_cfg \<Rightarrow> PortDirection \<Rightarrow> int \<Rightarrow> int option" where
  "get_upstreamId c inport_dir my_id =
     (if inport_dir = ''East'' then Some (my_id + 1)
      else if inport_dir = ''West'' then Some (my_id - 1)
      else if inport_dir = ''North'' then Some (my_id + m_num_cols c)
      else if inport_dir = ''South'' then Some (my_id - m_num_cols c)
      else if inport_dir = ''Local'' then Some my_id
      else None)"

text \<open>
  The opening of the mesh routing functions: hops left in each dimension, and whether the
  destination lies to the east and to the north.
\<close>

definition mesh_vector :: "garnet_cfg \<Rightarrow> int \<Rightarrow> int \<Rightarrow> (int \<times> int \<times> bool \<times> bool) option" where
  "mesh_vector c my_id dest_id = do {
     let num_rows = m_num_rows c;
     let num_cols = m_num_cols c;
     cassert (num_rows > 0 \<and> num_cols > 0);
     let my_x = my_id mod num_cols;
     let my_y = my_id div num_cols;
     let dest_x = dest_id mod num_cols;
     let dest_y = dest_id div num_cols;
     let x_hops = \<bar>dest_x - my_x\<bar>;
     let y_hops = \<bar>dest_y - my_y\<bar>;
     let x_dirn = (dest_x \<ge> my_x);
     let y_dirn = (dest_y \<ge> my_y);
     cassert (\<not> (x_hops = 0 \<and> y_hops = 0));
     Some (x_hops, y_hops, x_dirn, y_dirn) }"

section \<open>Geometry\<close>

definition is_router :: "garnet_cfg \<Rightarrow> int \<Rightarrow> bool" where
  "is_router c i \<longleftrightarrow> 0 \<le> i \<and> i < m_num_rows c * m_num_cols c"

definition mesh_ok :: "garnet_cfg \<Rightarrow> bool" where
  "mesh_ok c \<longleftrightarrow> 0 < m_num_rows c \<and> 0 < m_num_cols c"

definition mesh_x :: "garnet_cfg \<Rightarrow> int \<Rightarrow> int" where
  "mesh_x c i = i mod m_num_cols c"

definition mesh_y :: "garnet_cfg \<Rightarrow> int \<Rightarrow> int" where
  "mesh_y c i = i div m_num_cols c"

definition mesh_dist :: "garnet_cfg \<Rightarrow> int \<Rightarrow> int \<Rightarrow> int" where
  "mesh_dist c i j = \<bar>mesh_x c j - mesh_x c i\<bar> + \<bar>mesh_y c j - mesh_y c i\<bar>"

text \<open>The mesh has a link in direction \<open>d\<close> at router \<open>i\<close>.\<close>

definition has_port :: "garnet_cfg \<Rightarrow> PortDirection \<Rightarrow> int \<Rightarrow> bool" where
  "has_port c d i \<longleftrightarrow>
     d = ''East'' \<and> mesh_x c i < m_num_cols c - 1 \<or> d = ''West'' \<and> 0 < mesh_x c i \<or>
     d = ''North'' \<and> mesh_y c i < m_num_rows c - 1 \<or> d = ''South'' \<and> 0 < mesh_y c i"

text \<open>\<open>d\<close> leads one hop closer from \<open>i\<close> to \<open>dest\<close>.\<close>

definition towards :: "garnet_cfg \<Rightarrow> PortDirection \<Rightarrow> int \<Rightarrow> int \<Rightarrow> bool" where
  "towards c d i dest \<longleftrightarrow>
     d = ''East'' \<and> mesh_x c i < mesh_x c dest \<or> d = ''West'' \<and> mesh_x c dest < mesh_x c i \<or>
     d = ''North'' \<and> mesh_y c i < mesh_y c dest \<or> d = ''South'' \<and> mesh_y c dest < mesh_y c i"

lemma int_div_less_iff:
  assumes "0 < (k::int)"
  shows "i div k < r \<longleftrightarrow> i < r * k"
proof
  assume "i div k < r"
  then have "(i div k + 1) * k \<le> r * k" using assms by (intro mult_right_mono) auto
  moreover have "(i div k + 1) * k = i div k * k + k" by (simp add: algebra_simps)
  ultimately show "i < r * k" using assms pos_mod_bound [of k i] div_mult_mod_eq [of i k] by linarith
next
  assume "i < r * k"
  moreover have "i div k * k \<le> i" using assms pos_mod_sign [of k i] div_mult_mod_eq [of i k] by linarith
  ultimately have "i div k * k < r * k" by linarith
  then show "i div k < r" using assms by (simp add: mult_less_cancel_right)
qed

lemma mesh_id: "mesh_ok c \<Longrightarrow> i = mesh_y c i * m_num_cols c + mesh_x c i"
  by (simp add: mesh_x_def mesh_y_def)

lemma mesh_eqI: "mesh_ok c \<Longrightarrow> mesh_x c i = mesh_x c j \<Longrightarrow> mesh_y c i = mesh_y c j \<Longrightarrow> i = j"
  using mesh_id [of c i] mesh_id [of c j] by simp

lemma mesh_bounds:
  assumes "mesh_ok c" "is_router c i"
  shows "0 \<le> mesh_x c i" "mesh_x c i < m_num_cols c" "0 \<le> mesh_y c i" "mesh_y c i < m_num_rows c"
proof -
  show "0 \<le> mesh_x c i" "mesh_x c i < m_num_cols c" "0 \<le> mesh_y c i"
    using assms by (auto simp: mesh_ok_def is_router_def mesh_x_def mesh_y_def
        pos_imp_zdiv_nonneg_iff)
  show "mesh_y c i < m_num_rows c"
    using assms by (simp add: mesh_ok_def is_router_def mesh_y_def int_div_less_iff)
qed

lemma mesh_xy_of:
  assumes "mesh_ok c" "0 \<le> x" "x < m_num_cols c"
  shows "mesh_x c (y * m_num_cols c + x) = x" "mesh_y c (y * m_num_cols c + x) = y"
  using assms by (simp_all add: mesh_x_def mesh_y_def mesh_ok_def)

lemma is_routerI:
  assumes "mesh_ok c" "0 \<le> mesh_y c i" "mesh_y c i < m_num_rows c"
  shows "is_router c i"
proof -
  have c: "0 < m_num_cols c" using assms(1) by (simp add: mesh_ok_def)
  have "0 \<le> i" using assms(2) c by (simp add: mesh_y_def pos_imp_zdiv_nonneg_iff)
  moreover have "i < m_num_rows c * m_num_cols c"
    using assms(3) c by (simp add: mesh_y_def int_div_less_iff)
  ultimately show ?thesis by (simp add: is_router_def)
qed

text \<open>A hop through an existing port changes exactly one coordinate by one.\<close>

lemma hop_coords:
  assumes m: "mesh_ok c" and r: "is_router c i" and p: "has_port c d i"
  shows "\<exists>j. get_downstreamId c d i = Some j \<and> is_router c j \<and>
    mesh_x c j = mesh_x c i + (if d = ''East'' then 1 else if d = ''West'' then -1 else 0) \<and>
    mesh_y c j = mesh_y c i + (if d = ''North'' then 1 else if d = ''South'' then -1 else 0)"
proof -
  define x where "x = mesh_x c i + (if d = ''East'' then 1 else if d = ''West'' then -1 else 0)"
  define y where "y = mesh_y c i + (if d = ''North'' then 1 else if d = ''South'' then -1 else 0)"
  define j where "j = y * m_num_cols c + x"
  note b = mesh_bounds [OF m r]
  have xb: "0 \<le> x" "x < m_num_cols c" and yb: "0 \<le> y" "y < m_num_rows c"
    using p b by (auto simp: has_port_def x_def y_def)
  have "get_downstreamId c d i = Some (i + (x - mesh_x c i) + (y - mesh_y c i) * m_num_cols c)"
    using p by (auto simp: has_port_def get_downstreamId_def x_def y_def)
  moreover have "i + (x - mesh_x c i) + (y - mesh_y c i) * m_num_cols c = j"
    using mesh_id [OF m, of i] by (simp add: j_def left_diff_distrib)
  moreover have "mesh_x c j = x" "mesh_y c j = y"
    unfolding j_def using mesh_xy_of [OF m xb, of y] by auto
  moreover have "is_router c j" using is_routerI [OF m] yb calculation(4) by simp
  ultimately show ?thesis unfolding x_def y_def by simp
qed

lemma towards_has_port:
  assumes "mesh_ok c" "is_router c i" "is_router c dest" "towards c d i dest"
  shows "has_port c d i"
  using assms(4) mesh_bounds [OF assms(1,2)] mesh_bounds [OF assms(1,3)]
  unfolding towards_def has_port_def by (elim disjE conjE) simp_all

lemma towards_hop:
  assumes "mesh_ok c" "is_router c i" "is_router c dest" "towards c d i dest"
  shows "\<exists>j. get_downstreamId c d i = Some j \<and> is_router c j \<and>
    mesh_dist c j dest = mesh_dist c i dest - 1"
proof -
  obtain j where j: "get_downstreamId c d i = Some j" "is_router c j"
    "mesh_x c j = mesh_x c i + (if d = ''East'' then 1 else if d = ''West'' then -1 else 0)"
    "mesh_y c j = mesh_y c i + (if d = ''North'' then 1 else if d = ''South'' then -1 else 0)"
    using hop_coords [OF assms(1,2) towards_has_port [OF assms]] by blast
  from assms(4) have "mesh_dist c j dest = mesh_dist c i dest - 1"
    unfolding mesh_dist_def towards_def j(3,4) by (elim disjE conjE) simp_all
  then show ?thesis using j(1,2) by blast
qed

lemma mesh_dist_0: "mesh_ok c \<Longrightarrow> mesh_dist c i j = 0 \<longleftrightarrow> i = j"
  using mesh_eqI [of c i j] by (auto simp: mesh_dist_def)

text \<open>The reverse neighbour, as the credit and swap code uses it.\<close>

lemma downstream_upstream:
  "get_downstreamId c d i = Some j \<Longrightarrow> get_downstreamDirn d = Some d' \<Longrightarrow>
     get_upstreamId c d' j = Some i \<and> get_downstreamId c d' j = Some i"
  by (auto simp: get_downstreamId_def get_downstreamDirn_def get_upstreamId_def split: if_splits)

lemma downstream_not_self:
  "mesh_ok c \<Longrightarrow> get_downstreamId c d i = Some j \<Longrightarrow> j \<noteq> i"
  by (auto simp: get_downstreamId_def mesh_ok_def split: if_splits)

lemma downstream_not_self':
  "get_downstreamId c d i = Some j \<Longrightarrow> m_num_cols c \<noteq> 0 \<Longrightarrow> j \<noteq> i"
  by (auto simp: get_downstreamId_def split: if_splits)

lemma downstreamDirn_not_Local:
  "get_downstreamId c d i = Some j \<Longrightarrow> \<exists>d'. get_downstreamDirn d = Some d' \<and> d' \<noteq> ''Local''"
  by (auto simp: get_downstreamDirn_def get_downstreamId_def split: if_splits)

lemma mesh_vector_eq_Some:
  "mesh_vector c i dest = Some (xh, yh, xd, yd) \<longleftrightarrow> mesh_ok c \<and>
     xh = \<bar>mesh_x c dest - mesh_x c i\<bar> \<and> yh = \<bar>mesh_y c dest - mesh_y c i\<bar> \<and>
     xd = (mesh_x c i \<le> mesh_x c dest) \<and> yd = (mesh_y c i \<le> mesh_y c dest) \<and> \<not> (xh = 0 \<and> yh = 0)"
  by (auto simp: mesh_vector_def bind_Some Let_def mesh_ok_def mesh_x_def mesh_y_def)

lemma mesh_vector_total:
  "mesh_ok c \<Longrightarrow> i \<noteq> dest \<Longrightarrow> \<exists>v. mesh_vector c i dest = Some v"
  using mesh_eqI [of c i dest]
  by (auto simp: mesh_vector_def Let_def bind_Some mesh_ok_def mesh_x_def mesh_y_def)

section \<open>Minimal routing\<close>

text \<open>
  What the network promises of a mesh routing function: \<open>choice i dest\<close> is the set of output
  directions it may return at router \<open>i\<close>; each of them leads closer, and there is one.
\<close>

locale mesh_routing =
  fixes c :: garnet_cfg and choice :: "int \<Rightarrow> int \<Rightarrow> PortDirection set"
  assumes choice_towards: "mesh_ok c \<Longrightarrow> i \<noteq> dest \<Longrightarrow> d \<in> choice i dest \<Longrightarrow> towards c d i dest"
    and choice_nonempty: "mesh_ok c \<Longrightarrow> i \<noteq> dest \<Longrightarrow> choice i dest \<noteq> {}"

text \<open>\<open>travels c choice n i dest\<close>: a packet at \<open>i\<close> can be at \<open>dest\<close> after \<open>n\<close> hops.\<close>

inductive travels :: "garnet_cfg \<Rightarrow> (int \<Rightarrow> int \<Rightarrow> PortDirection set) \<Rightarrow> nat \<Rightarrow> int \<Rightarrow> int \<Rightarrow> bool"
  for c choice where
  arrived: "travels c choice 0 dest dest"
| hop: "i \<noteq> dest \<Longrightarrow> d \<in> choice i dest \<Longrightarrow> get_downstreamId c d i = Some j \<Longrightarrow>
    travels c choice n j dest \<Longrightarrow> travels c choice (Suc n) i dest"

inductive_cases travels_0E: "travels c choice 0 i dest"
inductive_cases travels_SucE: "travels c choice (Suc n) i dest"

text \<open>\<open>reaches c choice dest i j\<close>: \<open>j\<close> can be visited on the way from \<open>i\<close> to \<open>dest\<close>.\<close>

inductive reaches :: "garnet_cfg \<Rightarrow> (int \<Rightarrow> int \<Rightarrow> PortDirection set) \<Rightarrow> int \<Rightarrow> int \<Rightarrow> int \<Rightarrow> bool"
  for c choice dest i where
  start: "reaches c choice dest i i"
| step: "reaches c choice dest i j \<Longrightarrow> j \<noteq> dest \<Longrightarrow> d \<in> choice j dest \<Longrightarrow>
    get_downstreamId c d j = Some k \<Longrightarrow> reaches c choice dest i k"

context mesh_routing
begin

lemma hop_closer:
  assumes mesh: "mesh_ok c" and "i \<noteq> dest" "d \<in> choice i dest" "is_router c i" "is_router c dest"
  shows "\<exists>j. get_downstreamId c d i = Some j \<and> is_router c j \<and>
    mesh_dist c j dest = mesh_dist c i dest - 1"
  using towards_hop [OF mesh assms(4,5) choice_towards [OF assms(1-3)]] .

lemma travels_minimal:
  assumes "travels c choice n i dest" and mesh: "mesh_ok c" and "is_router c i" "is_router c dest"
  shows "int n = mesh_dist c i dest"
  using assms(1,3,4)
proof (induction rule: travels.induct)
  case (arrived dest)
  then show ?case by (simp add: mesh_dist_def)
next
  case (hop i dest d j n)
  have j: "is_router c j" "mesh_dist c j dest = mesh_dist c i dest - 1"
    using hop_closer [OF mesh hop.hyps(1,2) hop.prems] hop.hyps(3) by auto
  show ?case using hop.IH [OF j(1) hop.prems(2)] j(2) by linarith
qed

lemma stays_in_mesh:
  assumes "reaches c choice dest i j" and mesh: "mesh_ok c" and "is_router c i" "is_router c dest"
  shows "is_router c j \<and> mesh_dist c j dest \<le> mesh_dist c i dest"
  using assms(1,3,4)
proof (induction rule: reaches.induct)
  case (step j d k)
  then have j: "is_router c j" "mesh_dist c j dest \<le> mesh_dist c i dest" by auto
  show ?case using hop_closer [OF mesh step.hyps(2,3) j(1) step.prems(2)] step.hyps(4) j(2) by auto
qed simp

text \<open>From every router on the way the destination is reached, whatever is chosen next.\<close>

lemma always_arrives:
  assumes mesh: "mesh_ok c" and "is_router c i" "is_router c dest"
  shows "travels c choice (nat (mesh_dist c i dest)) i dest"
  using assms(2,3)
proof (induction "nat (mesh_dist c i dest)" arbitrary: i)
  case 0
  have "0 \<le> mesh_dist c i dest" by (simp add: mesh_dist_def)
  then have "mesh_dist c i dest = 0" using 0(1) by linarith
  then have "i = dest" using mesh_dist_0 [OF mesh] by simp
  show ?case unfolding \<open>i = dest\<close>
    using travels.arrived [of c choice dest] by (simp add: mesh_dist_def)
next
  case (Suc n)
  have "i \<noteq> dest" using Suc.hyps(2) by (auto simp: mesh_dist_def)
  then obtain d where d: "d \<in> choice i dest" using choice_nonempty [OF mesh] by blast
  obtain j where j: "get_downstreamId c d i = Some j" "is_router c j"
    "mesh_dist c j dest = mesh_dist c i dest - 1"
    using hop_closer [OF mesh \<open>i \<noteq> dest\<close> d Suc.prems] by blast
  have n: "n = nat (mesh_dist c j dest)" using Suc.hyps(2) j(3) by linarith
  have "travels c choice n j dest"
    using Suc.hyps(1) [OF n j(2) Suc.prems(2)] unfolding n [symmetric] .
  from travels.hop [of i dest d choice c j n, OF \<open>i \<noteq> dest\<close> d j(1) this]
  show ?case unfolding Suc.hyps(2) [symmetric] .
qed

end

section \<open>Properties\<close>

text \<open>C29. Through every port the mesh has, the downstream neighbour is another router of the mesh; its input
  port is the opposite direction, through which the upstream function, and a step back, lead to where the
  packet came from.\<close>

theorem neighbours_are_inverse:
  assumes "mesh_ok c" "is_router c i" "has_port c d i"
  shows "\<exists>j d'. get_downstreamId c d i = Some j \<and> is_router c j \<and> j \<noteq> i \<and> get_downstreamDirn d = Some d' \<and>
    has_port c d' j \<and> get_upstreamId c d' j = Some i \<and> get_downstreamId c d' j = Some i"
proof -
  obtain j where j: "get_downstreamId c d i = Some j" "is_router c j"
    "mesh_x c j = mesh_x c i + (if d = ''East'' then 1 else if d = ''West'' then -1 else 0)"
    "mesh_y c j = mesh_y c i + (if d = ''North'' then 1 else if d = ''South'' then -1 else 0)"
    using hop_coords [OF assms] by blast
  obtain d' where d': "get_downstreamDirn d = Some d'" using downstreamDirn_not_Local [OF j(1)] by blast
  have "has_port c d' j"
    using assms(3) d' j(3,4) mesh_bounds [OF assms(1,2)]
    unfolding has_port_def get_downstreamDirn_def by (elim disjE conjE) simp_all
  then show ?thesis using j(1,2) d' downstream_upstream [OF j(1) d'] downstream_not_self [OF assms(1) j(1)] by blast
qed

theorem neighbours_are_inverse_witness:
  "mesh_ok sample_cfg \<and> is_router sample_cfg 0 \<and> has_port sample_cfg ''East'' 0 \<and>
   (\<exists>j d'. get_downstreamId sample_cfg ''East'' 0 = Some j \<and> is_router sample_cfg j \<and> j \<noteq> 0 \<and>
      get_downstreamDirn ''East'' = Some d' \<and> has_port sample_cfg d' j \<and> get_upstreamId sample_cfg d' j = Some 0 \<and>
      get_downstreamId sample_cfg d' j = Some 0)"
proof -
  have h: "mesh_ok sample_cfg" "is_router sample_cfg 0" "has_port sample_cfg ''East'' 0"
    by (simp_all add: mesh_ok_def is_router_def has_port_def mesh_x_def sample_cfg_def)
  show ?thesis using h neighbours_are_inverse [OF h] by blast
qed

end
