(* ===== verification/Mesh_Routing.thy ===== *)
theory Mesh_Routing
  imports Routing_Unit
begin

text \<open>
  What the mesh algorithms of RoutingUnit.cc guarantee.

  For each algorithm, \<open>XY_choice\<close> and its companions collect the directions it can return for
  any state of the random generator and any answer of the neighbours; the interpretations of
  \<open>mesh_routing\<close> turn "each choice leads closer" into "every route is minimal and arrives".

  The second half is the deadlock side. A channel is a router with an output direction; a
  channel depends on the next one when some packet may hold the first while waiting for the
  second. The locale \<open>ranked_routing\<close> shows that a rank which grows along dependencies excludes
  cycles; XY and west-first have one. The random and the adaptive random algorithm have a
  cyclic dependency already on a 2x2 mesh: for them the network relies on the swaps.
\<close>

section \<open>The choices of each algorithm\<close>

definition XY_choice :: "garnet_cfg \<Rightarrow> int \<Rightarrow> int \<Rightarrow> PortDirection set" where
  "XY_choice c i dest = {d. XY_dirn c i dest = Some d}"

definition Random_choice :: "garnet_cfg \<Rightarrow> int \<Rightarrow> int \<Rightarrow> PortDirection set" where
  "Random_choice c i dest = {d. \<exists>e e'. cfg e = c \<and> Random_dirn i dest e = Some (d, e')}"

definition AdaptRand_choice :: "garnet_cfg \<Rightarrow> int \<Rightarrow> int \<Rightarrow> PortDirection set" where
  "AdaptRand_choice c i dest =
     {d. \<exists>free e e'. cfg e = c \<and> AdaptRand_dirn free i dest e = Some (d, e')}"

definition WestFirst_choice :: "garnet_cfg \<Rightarrow> int \<Rightarrow> int \<Rightarrow> PortDirection set" where
  "WestFirst_choice c i dest = {d. \<exists>e e'. cfg e = c \<and> WestFirst_dirn i dest e = Some (d, e')}"

definition AdaptWestFirst_choice :: "garnet_cfg \<Rightarrow> int \<Rightarrow> int \<Rightarrow> PortDirection set" where
  "AdaptWestFirst_choice c i dest =
     {d. \<exists>free e e'. cfg e = c \<and> AdaptWestFirst_dirn free i dest e = Some (d, e')}"

subsection \<open>What is chosen, in coordinates\<close>

text \<open>The minimal directions, and those of them a west-first router may take.\<close>

definition minimal_dirns :: "garnet_cfg \<Rightarrow> int \<Rightarrow> int \<Rightarrow> PortDirection set" where
  "minimal_dirns c i dest = {d. towards c d i dest}"

definition west_first_dirns :: "garnet_cfg \<Rightarrow> int \<Rightarrow> int \<Rightarrow> PortDirection set" where
  "west_first_dirns c i dest =
     {d. towards c d i dest \<and> (mesh_x c dest < mesh_x c i \<longrightarrow> d = ''West'')}"

lemma aligned_dirn_towards:
  assumes "mesh_vector c i dest = Some (xh, yh, xd, yd)" "aligned_dirn xh yh xd yd = Some d"
  shows "d \<in> west_first_dirns c i dest"
  using assms unfolding mesh_vector_eq_Some
  by (auto simp: aligned_dirn_def west_first_dirns_def towards_def split: if_splits)

lemma not_aligned:
  assumes "mesh_vector c i dest = Some (xh, yh, xd, yd)" "aligned_dirn xh yh xd yd = None"
  shows "mesh_x c i \<noteq> mesh_x c dest" "mesh_y c i \<noteq> mesh_y c dest"
    "xd \<longleftrightarrow> mesh_x c i < mesh_x c dest" "yd \<longleftrightarrow> mesh_y c i < mesh_y c dest"
  using assms unfolding mesh_vector_eq_Some by (auto simp: aligned_dirn_def split: if_splits)

lemma adapt_pick_range: "adapt_pick free rand h v = Some d \<Longrightarrow> d = h \<or> d = v"
  by (auto simp: adapt_pick_def bind_Some split: if_splits)

lemma random_draw_cfg [simp]: "cfg (snd (random_draw e)) = cfg e"
  by (simp add: random_draw_def rng_next_def)

lemma west_first_minimal: "west_first_dirns c i dest \<subseteq> minimal_dirns c i dest"
  by (auto simp: west_first_dirns_def minimal_dirns_def)

lemma XY_sound:
  assumes "d \<in> XY_choice c i dest"
  shows "d \<in> west_first_dirns c i dest"
proof -
  obtain xh yh xd yd where v: "mesh_vector c i dest = Some (xh, yh, xd, yd)"
    and d: "(if xh > 0 then Some (if xd then ''East'' else ''West'')
       else if yh > 0 then Some (if yd then ''North'' else ''South'') else None) = Some d"
    using assms by (auto simp: XY_choice_def XY_dirn_def bind_Some)
  then show ?thesis unfolding mesh_vector_eq_Some
    by (auto simp: west_first_dirns_def towards_def split: if_splits)
qed

lemma quadrant_minimal:
  assumes "mesh_vector c i dest = Some (xh, yh, xd, yd)" "aligned_dirn xh yh xd yd = None"
    and "d \<in> {if xd then ''East'' else ''West'', if yd then ''North'' else ''South''}"
  shows "d \<in> minimal_dirns c i dest"
  using assms(3) not_aligned [OF assms(1,2)]
  unfolding minimal_dirns_def towards_def by (cases xd; cases yd) auto

lemma quadrant_west_first:
  assumes "mesh_vector c i dest = Some (xh, yh, xd, yd)" "aligned_dirn xh yh xd yd = None"
    and "d \<in> (if xd then {''East'', if yd then ''North'' else ''South''} else {''West''})"
  shows "d \<in> west_first_dirns c i dest"
  using assms(3) not_aligned [OF assms(1,2)]
  unfolding west_first_dirns_def towards_def by (cases xd; cases yd) auto

lemma Random_sound:
  assumes "d \<in> Random_choice c i dest"
  shows "d \<in> minimal_dirns c i dest"
proof -
  obtain e e' where c: "c = cfg e" and run: "Random_dirn i dest e = Some (d, e')"
    using assms by (auto simp: Random_choice_def)
  from run obtain xh yh xd yd where v: "mesh_vector c i dest = Some (xh, yh, xd, yd)"
    by (cases "mesh_vector c i dest") (auto simp: Random_dirn_def c)
  obtain r e1 where rd: "random_draw e = (r, e1)" by (cases "random_draw e")
  show ?thesis
  proof (cases "aligned_dirn xh yh xd yd")
    case None
    have "d \<in> {if xd then ''East'' else ''West'', if yd then ''North'' else ''South''}"
      using run v None unfolding c
      by (auto simp: Random_dirn_def rd Let_def split: if_splits)
    then show ?thesis by (rule quadrant_minimal [OF v None])
  next
    case (Some d')
    then have "d = d'" using run v unfolding c by (simp add: Random_dirn_def rd Let_def)
    then show ?thesis using aligned_dirn_towards [OF v Some] west_first_minimal by blast
  qed
qed

lemma AdaptRand_sound:
  assumes "d \<in> AdaptRand_choice c i dest"
  shows "d \<in> minimal_dirns c i dest"
proof -
  obtain free e e' where c: "c = cfg e" and run: "AdaptRand_dirn free i dest e = Some (d, e')"
    using assms by (auto simp: AdaptRand_choice_def)
  from run obtain xh yh xd yd where v: "mesh_vector c i dest = Some (xh, yh, xd, yd)"
    by (cases "mesh_vector c i dest") (auto simp: AdaptRand_dirn_def c)
  obtain r e1 where rd: "random_draw e = (r, e1)" by (cases "random_draw e")
  show ?thesis
  proof (cases "aligned_dirn xh yh xd yd")
    case None
    have "d \<in> {if xd then ''East'' else ''West'', if yd then ''North'' else ''South''}"
      using run v None unfolding c
      by (auto simp: AdaptRand_dirn_def rd Let_def bind_Some split: if_splits dest!: adapt_pick_range)
    then show ?thesis by (rule quadrant_minimal [OF v None])
  next
    case (Some d')
    then have "d = d'" using run v unfolding c by (simp add: AdaptRand_dirn_def rd Let_def)
    then show ?thesis using aligned_dirn_towards [OF v Some] west_first_minimal by blast
  qed
qed

lemma WestFirst_sound:
  assumes "d \<in> WestFirst_choice c i dest"
  shows "d \<in> west_first_dirns c i dest"
proof -
  obtain e e' where c: "c = cfg e" and run: "WestFirst_dirn i dest e = Some (d, e')"
    using assms by (auto simp: WestFirst_choice_def)
  from run obtain xh yh xd yd where v: "mesh_vector c i dest = Some (xh, yh, xd, yd)"
    by (cases "mesh_vector c i dest") (auto simp: WestFirst_dirn_def c)
  obtain r e1 where rd: "random_draw e = (r, e1)" by (cases "random_draw e")
  show ?thesis
  proof (cases "aligned_dirn xh yh xd yd")
    case None
    have "d \<in> (if xd then {''East'', if yd then ''North'' else ''South''} else {''West''})"
      using run v None unfolding c
      by (auto simp: WestFirst_dirn_def rd Let_def split: if_splits)
    then show ?thesis by (rule quadrant_west_first [OF v None])
  next
    case (Some d')
    then have "d = d'" using run v unfolding c by (simp add: WestFirst_dirn_def rd Let_def)
    then show ?thesis using aligned_dirn_towards [OF v Some] by simp
  qed
qed

lemma AdaptWestFirst_sound:
  assumes "d \<in> AdaptWestFirst_choice c i dest"
  shows "d \<in> west_first_dirns c i dest"
proof -
  obtain free e e' where c: "c = cfg e" and run: "AdaptWestFirst_dirn free i dest e = Some (d, e')"
    using assms by (auto simp: AdaptWestFirst_choice_def)
  from run obtain xh yh xd yd where v: "mesh_vector c i dest = Some (xh, yh, xd, yd)"
    by (cases "mesh_vector c i dest") (auto simp: AdaptWestFirst_dirn_def c)
  obtain r e1 where rd: "random_draw e = (r, e1)" by (cases "random_draw e")
  show ?thesis
  proof (cases "aligned_dirn xh yh xd yd")
    case None
    have "d \<in> (if xd then {''East'', if yd then ''North'' else ''South''} else {''West''})"
      using run v None unfolding c
      by (auto simp: AdaptWestFirst_dirn_def rd Let_def bind_Some split: if_splits dest!: adapt_pick_range)
    then show ?thesis by (rule quadrant_west_first [OF v None])
  next
    case (Some d')
    then have "d = d'" using run v unfolding c by (simp add: AdaptWestFirst_dirn_def rd Let_def)
    then show ?thesis using aligned_dirn_towards [OF v Some] by simp
  qed
qed

subsection \<open>Every algorithm always answers\<close>

lemma XY_total: "mesh_ok c \<Longrightarrow> i \<noteq> dest \<Longrightarrow> \<exists>d. XY_dirn c i dest = Some d"
proof -
  assume "mesh_ok c" "i \<noteq> dest"
  then obtain xh yh xd yd where v: "mesh_vector c i dest = Some (xh, yh, xd, yd)"
    using mesh_vector_total [of c i dest] by auto
  then have "xh > 0 \<or> yh > 0" unfolding mesh_vector_eq_Some by auto
  then show ?thesis using v by (auto simp: XY_dirn_def)
qed

lemma Random_total: "mesh_ok (cfg e) \<Longrightarrow> i \<noteq> dest \<Longrightarrow> \<exists>d e'. Random_dirn i dest e = Some (d, e')"
  using mesh_vector_total [of "cfg e" i dest]
  by (auto simp: Random_dirn_def Let_def split: prod.splits option.splits)

lemma WestFirst_total:
  "mesh_ok (cfg e) \<Longrightarrow> i \<noteq> dest \<Longrightarrow> \<exists>d e'. WestFirst_dirn i dest e = Some (d, e')"
  using mesh_vector_total [of "cfg e" i dest]
  by (auto simp: WestFirst_dirn_def Let_def split: prod.splits option.splits)

text \<open>The adaptive ones answer when the neighbours do.\<close>

lemma adapt_pick_total:
  "free h \<noteq> None \<Longrightarrow> free v \<noteq> None \<Longrightarrow> \<exists>d. adapt_pick free rand h v = Some d"
  by (auto simp: adapt_pick_def)

lemma AdaptRand_total:
  assumes "mesh_ok (cfg e)" "i \<noteq> dest" "\<And>d. towards (cfg e) d i dest \<Longrightarrow> free d \<noteq> None"
  shows "\<exists>d e'. AdaptRand_dirn free i dest e = Some (d, e')"
proof -
  obtain xh yh xd yd where v: "mesh_vector (cfg e) i dest = Some (xh, yh, xd, yd)"
    using mesh_vector_total [OF assms(1,2)] by auto
  show ?thesis
  proof (cases "aligned_dirn xh yh xd yd")
    case None
    note n = not_aligned [OF v None]
    have f: "xd \<Longrightarrow> free ''East'' \<noteq> None" "\<not> xd \<Longrightarrow> free ''West'' \<noteq> None"
      "yd \<Longrightarrow> free ''North'' \<noteq> None" "\<not> yd \<Longrightarrow> free ''South'' \<noteq> None"
      using n by (simp_all add: assms(3) towards_def)
    show ?thesis using v None f
      by (cases xd; cases yd)
        (auto simp: AdaptRand_dirn_def Let_def adapt_pick_def split: prod.splits)
  qed (use v in \<open>auto simp: AdaptRand_dirn_def\<close>)
qed

lemma AdaptWestFirst_total:
  assumes "mesh_ok (cfg e)" "i \<noteq> dest" "\<And>d. towards (cfg e) d i dest \<Longrightarrow> free d \<noteq> None"
  shows "\<exists>d e'. AdaptWestFirst_dirn free i dest e = Some (d, e')"
proof -
  obtain xh yh xd yd where v: "mesh_vector (cfg e) i dest = Some (xh, yh, xd, yd)"
    using mesh_vector_total [OF assms(1,2)] by auto
  show ?thesis
  proof (cases "aligned_dirn xh yh xd yd")
    case None
    note n = not_aligned [OF v None]
    have f: "xd \<Longrightarrow> free ''East'' \<noteq> None" "yd \<Longrightarrow> free ''North'' \<noteq> None" "\<not> yd \<Longrightarrow> free ''South'' \<noteq> None"
      using n by (simp_all add: assms(3) towards_def)
    show ?thesis using v None f
      by (cases xd; cases yd)
        (auto simp: AdaptWestFirst_dirn_def Let_def adapt_pick_def split: prod.splits)
  qed (use v in \<open>auto simp: AdaptWestFirst_dirn_def Let_def split: prod.splits\<close>)
qed

lemma env_with_cfg: "\<exists>e :: env. cfg e = c"
proof -
  have "cfg ((undefined :: env)\<lparr>cfg := c\<rparr>) = c" by simp
  then show ?thesis by blast
qed

interpretation XY: mesh_routing c "XY_choice c" for c
proof
  show "mesh_ok c \<Longrightarrow> i \<noteq> dest \<Longrightarrow> d \<in> XY_choice c i dest \<Longrightarrow> towards c d i dest" for i dest d
    using XY_sound [of d c i dest] by (simp add: west_first_dirns_def)
  show "mesh_ok c \<Longrightarrow> i \<noteq> dest \<Longrightarrow> XY_choice c i dest \<noteq> {}" for i dest
    using XY_total [of c i dest] by (simp add: XY_choice_def)
qed

interpretation RandomR: mesh_routing c "Random_choice c" for c
proof
  show "mesh_ok c \<Longrightarrow> i \<noteq> dest \<Longrightarrow> d \<in> Random_choice c i dest \<Longrightarrow> towards c d i dest" for i dest d
    using Random_sound [of d c i dest] by (simp add: minimal_dirns_def)
  obtain e :: env where e: "cfg e = c" using env_with_cfg by blast
  show "mesh_ok c \<Longrightarrow> i \<noteq> dest \<Longrightarrow> Random_choice c i dest \<noteq> {}" for i dest
    using Random_total [of e i dest] e by (auto simp: Random_choice_def)
qed

interpretation AdaptRandR: mesh_routing c "AdaptRand_choice c" for c
proof
  show "mesh_ok c \<Longrightarrow> i \<noteq> dest \<Longrightarrow> d \<in> AdaptRand_choice c i dest \<Longrightarrow> towards c d i dest" for i dest d
    using AdaptRand_sound [of d c i dest] by (simp add: minimal_dirns_def)
  obtain e :: env where e: "cfg e = c" using env_with_cfg by blast
  show "mesh_ok c \<Longrightarrow> i \<noteq> dest \<Longrightarrow> AdaptRand_choice c i dest \<noteq> {}" for i dest
    using AdaptRand_total [of e i dest "\<lambda>_. Some 0"] e by (auto simp: AdaptRand_choice_def)
qed

interpretation WestFirstR: mesh_routing c "WestFirst_choice c" for c
proof
  show "mesh_ok c \<Longrightarrow> i \<noteq> dest \<Longrightarrow> d \<in> WestFirst_choice c i dest \<Longrightarrow> towards c d i dest" for i dest d
    using WestFirst_sound [of d c i dest] by (simp add: west_first_dirns_def)
  obtain e :: env where e: "cfg e = c" using env_with_cfg by blast
  show "mesh_ok c \<Longrightarrow> i \<noteq> dest \<Longrightarrow> WestFirst_choice c i dest \<noteq> {}" for i dest
    using WestFirst_total [of e i dest] e by (auto simp: WestFirst_choice_def)
qed

interpretation AdaptWestFirstR: mesh_routing c "AdaptWestFirst_choice c" for c
proof
  show "mesh_ok c \<Longrightarrow> i \<noteq> dest \<Longrightarrow> d \<in> AdaptWestFirst_choice c i dest \<Longrightarrow> towards c d i dest" for i dest d
    using AdaptWestFirst_sound [of d c i dest] by (simp add: west_first_dirns_def)
  obtain e :: env where e: "cfg e = c" using env_with_cfg by blast
  show "mesh_ok c \<Longrightarrow> i \<noteq> dest \<Longrightarrow> AdaptWestFirst_choice c i dest \<noteq> {}" for i dest
    using AdaptWestFirst_total [of e i dest "\<lambda>_. Some 0"] e by (auto simp: AdaptWestFirst_choice_def)
qed

section \<open>Turns\<close>

text \<open>XY: a packet that has started to move vertically keeps its direction until it arrives.\<close>

lemma XY_no_turn_back:
  assumes xy: "XY_dirn c i dest = Some d" and d: "d = ''North'' \<or> d = ''South''"
    and r: "is_router c i" "is_router c dest"
    and hop: "get_downstreamId c d i = Some j" "j \<noteq> dest"
  shows "XY_dirn c j dest = Some d"
proof -
  obtain xh yh xd yd where v: "mesh_vector c i dest = Some (xh, yh, xd, yd)" and
    x: "mesh_x c i = mesh_x c dest"
    using xy d by (auto simp: XY_dirn_def bind_Some mesh_vector_eq_Some split: if_splits)
  then have m: "mesh_ok c" by (simp add: mesh_vector_eq_Some)
  have "d \<in> XY_choice c i dest" using xy by (simp add: XY_choice_def)
  then have t: "towards c d i dest" using XY_sound [of d c i dest] by (simp add: west_first_dirns_def)
  have xj: "mesh_x c j = mesh_x c dest" and
    yj: "mesh_y c j = mesh_y c i + (if d = ''North'' then 1 else if d = ''South'' then -1 else 0)"
    using hop_coords [OF m r(1) towards_has_port [OF m r t]] hop(1) x d by auto
  obtain xh' yh' xd' yd' where v': "mesh_vector c j dest = Some (xh', yh', xd', yd')"
    using mesh_vector_total [OF m hop(2)] by auto
  then have e: "xh' = 0" "0 < yh'" "yh' = \<bar>mesh_y c dest - mesh_y c j\<bar>"
    "yd' \<longleftrightarrow> mesh_y c j \<le> mesh_y c dest"
    using xj by (auto simp: mesh_vector_eq_Some)
  from d show ?thesis
  proof
    assume "d = ''North''"
    then show ?thesis using e yj t by (simp add: XY_dirn_def v' towards_def)
  next
    assume "d = ''South''"
    then show ?thesis using e yj t by (simp add: XY_dirn_def v' towards_def)
  qed
qed

text \<open>West-first: where the destination is not to the west, it never will be.\<close>

lemma west_first_no_west:
  assumes sub: "\<And>i. choice i dest \<subseteq> west_first_dirns c i dest"
    and "mesh_ok c" "is_router c i" "is_router c dest" "mesh_x c i \<le> mesh_x c dest"
    and "reaches c choice dest i k"
  shows "is_router c k \<and> mesh_x c k \<le> mesh_x c dest"
  using assms(6)
proof (induction rule: reaches.induct)
  case (step j d k)
  then have w: "d \<in> west_first_dirns c j dest" using sub by blast
  then have t: "towards c d j dest" by (simp add: west_first_dirns_def)
  have "is_router c k" and
    "mesh_x c k = mesh_x c j + (if d = ''East'' then 1 else if d = ''West'' then -1 else 0)"
    using hop_coords [OF assms(2) _ towards_has_port [OF assms(2) _ assms(4) t]] step by auto
  then show ?case using t step.IH by (auto simp: towards_def)
qed (use assms in simp)

section \<open>Channel dependencies\<close>

text \<open>
  Channel (i, d) depends on channel (j, d') when some packet may take output \<open>d\<close> of router \<open>i\<close>
  to router \<open>j\<close> and there ask for output \<open>d'\<close>.
\<close>

type_synonym channel = "int \<times> PortDirection"

inductive depends :: "garnet_cfg \<Rightarrow> (int \<Rightarrow> int \<Rightarrow> PortDirection set) \<Rightarrow> channel \<Rightarrow> channel \<Rightarrow> bool"
  for c choice where
  dep: "mesh_ok c \<Longrightarrow> is_router c i \<Longrightarrow> is_router c dest \<Longrightarrow> i \<noteq> dest \<Longrightarrow> d \<in> choice i dest \<Longrightarrow>
    get_downstreamId c d i = Some j \<Longrightarrow> j \<noteq> dest \<Longrightarrow> d' \<in> choice j dest \<Longrightarrow>
    depends c choice (i, d) (j, d')"

locale ranked_routing =
  fixes dep :: "'a \<Rightarrow> 'a \<Rightarrow> bool" and rank :: "'a \<Rightarrow> int"
  assumes rank_grows: "dep x y \<Longrightarrow> rank x < rank y"
begin

lemma rank_tranclp: "dep\<^sup>+\<^sup>+ x y \<Longrightarrow> rank x < rank y"
  by (induction rule: tranclp.induct) (auto dest: rank_grows)

lemma no_cycle: "\<not> dep\<^sup>+\<^sup>+ x x"
  using rank_tranclp by blast

end

text \<open>
  The rank of a channel under west-first turns: west channels first, against the x coordinate;
  then column by column from west to east, the vertical channels of a column before the east
  channel that leaves it.
\<close>

definition wf_rank :: "garnet_cfg \<Rightarrow> channel \<Rightarrow> int" where
  "wf_rank c ch = (case ch of (i, d) \<Rightarrow>
     if d = ''West'' then - mesh_x c i - 1
     else mesh_x c i * (m_num_rows c + 2) +
       (if d = ''North'' then mesh_y c i
        else if d = ''South'' then m_num_rows c - mesh_y c i
        else m_num_rows c + 1))"

lemma wf_rank_grows:
  assumes sub: "\<And>i dest. choice i dest \<subseteq> west_first_dirns c i dest"
    and "depends c choice ch ch'"
  shows "wf_rank c ch < wf_rank c ch'"
  using assms(2)
proof cases
  case (dep i dest d j d')
  have w: "d \<in> west_first_dirns c i dest" "d' \<in> west_first_dirns c j dest" using sub dep by blast+
  have t: "towards c d i dest" "towards c d' j dest" using w by (auto simp: west_first_dirns_def)
  have j: "is_router c j"
    "mesh_x c j = mesh_x c i + (if d = ''East'' then 1 else if d = ''West'' then -1 else 0)"
    "mesh_y c j = mesh_y c i + (if d = ''North'' then 1 else if d = ''South'' then -1 else 0)"
    using hop_coords [OF dep(3,4) towards_has_port [OF dep(3-5) t(1)]] dep(8) by auto
  note bi = mesh_bounds [OF dep(3,4)] and bj = mesh_bounds [OF dep(3) j(1)]
  have nn: "0 \<le> mesh_x c j * (m_num_rows c + 2)" using bj bi by (intro mult_nonneg_nonneg) auto
  from t(1) consider "d = ''East''" "mesh_x c i < mesh_x c dest" | "d = ''West''"
    | "d = ''North''" "mesh_y c i < mesh_y c dest" | "d = ''South''" "mesh_y c dest < mesh_y c i"
    by (auto simp: towards_def)
  then show ?thesis
  proof cases
    case 1
    have "d' \<noteq> ''West''" using t(2) 1 j by (auto simp: towards_def)
    then show ?thesis unfolding dep(1,2) wf_rank_def using 1 j bi bj by (auto simp: distrib_right)
  next
    case 2
    show ?thesis
    proof (cases "d' = ''West''")
      case False
      have "wf_rank c (i, d) < 0" using 2 bi by (simp add: wf_rank_def)
      moreover have "0 \<le> wf_rank c (j, d')" using False nn bj by (simp add: wf_rank_def)
      ultimately show ?thesis unfolding dep(1,2) by simp
    qed (use 2 j in \<open>simp add: dep(1,2) wf_rank_def\<close>)
  next
    case 3
    have "d' \<noteq> ''West''" "d' \<noteq> ''South''" using t(2) w(1) 3 j by (auto simp: towards_def west_first_dirns_def)
    then show ?thesis unfolding dep(1,2) wf_rank_def using 3 j bi bj by auto
  next
    case 4
    have "d' \<noteq> ''West''" "d' \<noteq> ''North''" using t(2) w(1) 4 j by (auto simp: towards_def west_first_dirns_def)
    then show ?thesis unfolding dep(1,2) wf_rank_def using 4 j bi bj by auto
  qed
qed

interpretation XY_cdg: ranked_routing "depends c (XY_choice c)" "wf_rank c" for c
  by unfold_locales (rule wf_rank_grows [OF subsetI [OF XY_sound]])

interpretation WestFirst_cdg: ranked_routing "depends c (WestFirst_choice c)" "wf_rank c" for c
  by unfold_locales (rule wf_rank_grows [OF subsetI [OF WestFirst_sound]])

interpretation AdaptWestFirst_cdg:
  ranked_routing "depends c (AdaptWestFirst_choice c)" "wf_rank c" for c
  by unfold_locales (rule wf_rank_grows [OF subsetI [OF AdaptWestFirst_sound]])

subsection \<open>Random routing is cyclic\<close>

text \<open>Each minimal direction is returned for some state of the generator.\<close>

definition coin_env :: "garnet_cfg \<Rightarrow> nat \<Rightarrow> env" where
  "coin_env c r = \<lparr>cfg = c, curCycle = 0, stats = net_stats_init 0, event_queue = [],
     m_scheduled_wakeups = [], rng_state = (\<lambda>_. r), m_networklinks = [], m_creditlinks = []\<rparr>"

lemma coin_draw: "random_draw (coin_env c r) = (r, coin_env c r)" "cfg (coin_env c r) = c"
  by (simp_all add: random_draw_def coin_env_def rng_next_def)

lemma minimal_cases:
  assumes "mesh_ok c" "towards c d i dest"
  obtains xh yh xd yd where "mesh_vector c i dest = Some (xh, yh, xd, yd)"
    "aligned_dirn xh yh xd yd = Some d"
  | xh yh xd yd where "mesh_vector c i dest = Some (xh, yh, xd, yd)" "aligned_dirn xh yh xd yd = None"
    "d = (if xd then ''East'' else ''West'') \<or> d = (if yd then ''North'' else ''South'')"
proof -
  have "i \<noteq> dest" using assms(2) by (auto simp: towards_def)
  then obtain xh yh xd yd where v: "mesh_vector c i dest = Some (xh, yh, xd, yd)"
    using mesh_vector_total [OF assms(1), of i dest] by auto
  then have e: "xh = \<bar>mesh_x c dest - mesh_x c i\<bar>" "yh = \<bar>mesh_y c dest - mesh_y c i\<bar>"
    "xd \<longleftrightarrow> mesh_x c i \<le> mesh_x c dest" "yd \<longleftrightarrow> mesh_y c i \<le> mesh_y c dest"
    by (auto simp: mesh_vector_eq_Some)
  show thesis
  proof (cases "aligned_dirn xh yh xd yd")
    case None
    have "d = (if xd then ''East'' else ''West'') \<or> d = (if yd then ''North'' else ''South'')"
      using assms(2) e by (auto simp: towards_def)
    then show thesis using that(2) [OF v None] by blast
  next
    case (Some d')
    then have "d' = d" using assms(2) e
      by (auto simp: towards_def aligned_dirn_def split: if_splits)
    then show thesis using that(1) [OF v] Some by blast
  qed
qed

lemma Random_complete:
  assumes "mesh_ok c" "towards c d i dest"
  shows "d \<in> Random_choice c i dest"
  using assms
proof (cases rule: minimal_cases)
  case (1 xh yh xd yd)
  then have "Random_dirn i dest (coin_env c 0) = Some (d, coin_env c 0)"
    by (simp add: Random_dirn_def coin_draw)
  then show ?thesis unfolding Random_choice_def using coin_draw(2) by blast
next
  case (2 xh yh xd yd)
  define r :: nat where "r = (if d = (if xd then ''East'' else ''West'') then 1 else 0)"
  have "Random_dirn i dest (coin_env c r) = Some (d, coin_env c r)"
    using 2 by (cases xd; cases yd) (auto simp: Random_dirn_def coin_draw r_def Let_def)
  then show ?thesis unfolding Random_choice_def using coin_draw(2) by blast
qed

lemma AdaptRand_complete:
  assumes "mesh_ok c" "towards c d i dest"
  shows "d \<in> AdaptRand_choice c i dest"
  using assms
proof (cases rule: minimal_cases)
  case (1 xh yh xd yd)
  then have "AdaptRand_dirn (\<lambda>_. Some 0) i dest (coin_env c 0) = Some (d, coin_env c 0)"
    by (simp add: AdaptRand_dirn_def coin_draw)
  then show ?thesis unfolding AdaptRand_choice_def using coin_draw(2) by blast
next
  case (2 xh yh xd yd)
  define r :: nat where "r = (if d = (if xd then ''East'' else ''West'') then 1 else 0)"
  have "AdaptRand_dirn (\<lambda>_. Some 0) i dest (coin_env c r) = Some (d, coin_env c r)"
    using 2 by (cases xd; cases yd) (auto simp: AdaptRand_dirn_def adapt_pick_def coin_draw r_def Let_def)
  then show ?thesis unfolding AdaptRand_choice_def using coin_draw(2) by blast
qed

text \<open>The four routers in the south-west corner wait for each other in a ring.\<close>

lemma fully_adaptive_cycle:
  assumes rc: "2 \<le> m_num_rows c" "2 \<le> m_num_cols c"
    and all: "\<And>d i dest. towards c d i dest \<Longrightarrow> d \<in> choice i dest"
  shows "(depends c choice)\<^sup>+\<^sup>+ (0, ''East'') (0, ''East'')"
proof -
  let ?n = "m_num_cols c"
  have m: "mesh_ok c" using rc by (simp add: mesh_ok_def)
  have "2 * ?n \<le> m_num_rows c * ?n" using rc by (intro mult_right_mono) auto
  then have "?n + 1 < m_num_rows c * ?n" using rc by linarith
  then have r: "is_router c 0" "is_router c 1" "is_router c ?n" "is_router c (?n + 1)"
    unfolding is_router_def using rc by linarith+
  have xy: "mesh_x c 0 = 0" "mesh_y c 0 = 0" "mesh_x c 1 = 1" "mesh_y c 1 = 0"
    "mesh_x c ?n = 0" "mesh_y c ?n = 1" "mesh_x c (?n + 1) = 1" "mesh_y c (?n + 1) = 1"
    using rc mesh_xy_of [OF m, of 1 1] by (auto simp: mesh_x_def mesh_y_def)
  have "depends c choice (0, ''East'') (1, ''North'')"
    by (rule depends.dep [OF m r(1) r(4)]) (use rc xy all in \<open>auto simp: towards_def get_downstreamId_def\<close>)
  moreover have "depends c choice (1, ''North'') (?n + 1, ''West'')"
    by (rule depends.dep [OF m r(2) r(3)]) (use rc xy all in \<open>auto simp: towards_def get_downstreamId_def\<close>)
  moreover have "depends c choice (?n + 1, ''West'') (?n, ''South'')"
    by (rule depends.dep [OF m r(4) r(1)]) (use rc xy all in \<open>auto simp: towards_def get_downstreamId_def\<close>)
  moreover have "depends c choice (?n, ''South'') (0, ''East'')"
    by (rule depends.dep [OF m r(3) r(2)]) (use rc xy all in \<open>auto simp: towards_def get_downstreamId_def\<close>)
  ultimately show ?thesis
    by (intro tranclp.trancl_into_trancl [OF tranclp.trancl_into_trancl [OF
          tranclp.trancl_into_trancl [OF tranclp.r_into_trancl]]])
qed

section \<open>Properties\<close>

text \<open>C4. Whatever the random draws and the answers of the neighbours are, each of the five mesh algorithms brings a packet from
  any router to any other in exactly as many hops as they are apart, and never out of the mesh.\<close>

theorem mesh_routes_are_minimal:
  assumes "mesh_ok c" "is_router c i" "is_router c dest"
    "choice = XY_choice c \<or> choice = Random_choice c \<or> choice = AdaptRand_choice c \<or> choice = WestFirst_choice c \<or>
     choice = AdaptWestFirst_choice c"
  shows "(\<forall>n. travels c choice n i dest \<longleftrightarrow> n = nat (mesh_dist c i dest)) \<and>
    (\<forall>j. reaches c choice dest i j \<longrightarrow> is_router c j \<and> travels c choice (nat (mesh_dist c j dest)) j dest)"
proof -
  have m: "mesh_routing c choice"
    using assms(4) XY.mesh_routing_axioms RandomR.mesh_routing_axioms AdaptRandR.mesh_routing_axioms
      WestFirstR.mesh_routing_axioms AdaptWestFirstR.mesh_routing_axioms by blast
  have "n = nat (mesh_dist c i dest)" if "travels c choice n i dest" for n
    using mesh_routing.travels_minimal [OF m that assms(1-3)] by simp
  moreover have "is_router c j" if "reaches c choice dest i j" for j
    using mesh_routing.stays_in_mesh [OF m that assms(1-3)] by blast
  ultimately show ?thesis using mesh_routing.always_arrives [OF m assms(1) _ assms(3)] assms(2) by blast
qed

theorem mesh_routes_are_minimal_witness:
  "mesh_ok sample_cfg \<and> is_router sample_cfg 0 \<and> is_router sample_cfg 3 \<and>
   (\<forall>n. travels sample_cfg (Random_choice sample_cfg) n 0 3 \<longleftrightarrow> n = nat (mesh_dist sample_cfg 0 3)) \<and>
   travels sample_cfg (Random_choice sample_cfg) (nat (mesh_dist sample_cfg 0 3)) 0 3"
proof -
  have h: "mesh_ok sample_cfg" "is_router sample_cfg 0" "is_router sample_cfg 3"
    by (simp_all add: mesh_ok_def is_router_def sample_cfg_def)
  show ?thesis using h mesh_routes_are_minimal [OF h, of "Random_choice sample_cfg"] by blast
qed

text \<open>C6. With XY, west-first or adaptive west-first routing no set of packets can wait for each other in a circle: the
  channel dependencies have no cycle, on a mesh of any size.\<close>

theorem turn_models_have_no_cycle:
  "\<not> (depends c (XY_choice c))\<^sup>+\<^sup>+ ch ch \<and> \<not> (depends c (WestFirst_choice c))\<^sup>+\<^sup>+ ch ch \<and>
   \<not> (depends c (AdaptWestFirst_choice c))\<^sup>+\<^sup>+ ch ch"
  using XY_cdg.no_cycle WestFirst_cdg.no_cycle AdaptWestFirst_cdg.no_cycle by blast

text \<open>C7. With random and with adaptive random routing packets can: on every mesh with at least two rows and two columns the
  channel dependencies have a cycle, so these algorithms rely on the swaps.\<close>

theorem random_routing_has_cycle:
  assumes "2 \<le> m_num_rows c" "2 \<le> m_num_cols c"
  shows "(depends c (Random_choice c))\<^sup>+\<^sup>+ (0, ''East'') (0, ''East'') \<and>
    (depends c (AdaptRand_choice c))\<^sup>+\<^sup>+ (0, ''East'') (0, ''East'')"
proof -
  have m: "mesh_ok c" using assms by (simp add: mesh_ok_def)
  show ?thesis using fully_adaptive_cycle [OF assms] Random_complete [OF m] AdaptRand_complete [OF m] by blast
qed

theorem random_routing_has_cycle_witness:
  "2 \<le> m_num_rows sample_cfg \<and> 2 \<le> m_num_cols sample_cfg \<and>
   (depends sample_cfg (Random_choice sample_cfg))\<^sup>+\<^sup>+ (0, ''East'') (0, ''East'') \<and>
   (depends sample_cfg (AdaptRand_choice sample_cfg))\<^sup>+\<^sup>+ (0, ''East'') (0, ''East'')"
proof -
  have h: "2 \<le> m_num_rows sample_cfg" "2 \<le> m_num_cols sample_cfg" by (simp_all add: sample_cfg_def)
  show ?thesis using h random_routing_has_cycle [OF h] by blast
qed

end
