(* ===== verification/Network_Link.thy ===== *)
theory Network_Link
  imports Garnet_Env
begin

text \<open>
  \<^verbatim>\<open>class NetworkLink\<close> and its subclass \<^verbatim>\<open>CreditLink\<close> (NetworkLink.hh, NetworkLink.cc,
  CreditLink.hh): a link moves the front of its source queue into its own buffer, stamps it with the
  arrival time and wakes the consumer at that time.

  Shown: a wake-up moves exactly the due front flit, everything in the buffer arrives no
  earlier than the link latency, and the consumer is pending for the cycle in which the flit
  becomes ready, so no flit is left on a link without a wake-up.
\<close>

definition NetworkLink_new :: "int \<Rightarrow> Cycles \<Rightarrow> int \<Rightarrow> int \<Rightarrow> 'f NetworkLink" where
  "NetworkLink_new link_id link_latency vcs_per_vnet virt_nets =
     \<lparr>m_id_l = link_id, m_type_l = NUM_LINK_TYPES, m_latency_l = link_latency,
      linkBuffer = flitBuffer_new, link_consumer = None, link_srcQueue = None,
      m_link_utilized = 0, m_vc_load = replicate (nat (vcs_per_vnet * virt_nets)) 0\<rparr>"

definition setLinkConsumer :: "consumer \<Rightarrow> 'f NetworkLink \<Rightarrow> 'f NetworkLink" where
  "setLinkConsumer c l = l\<lparr>link_consumer := Some c\<rparr>"

definition setSourceQueue :: "queue_ref \<Rightarrow> 'f NetworkLink \<Rightarrow> 'f NetworkLink" where
  "setSourceQueue q l = l\<lparr>link_srcQueue := Some q\<rparr>"

definition link_setType :: "link_type \<Rightarrow> 'f NetworkLink \<Rightarrow> 'f NetworkLink" where
  "link_setType t l = l\<lparr>m_type_l := t\<rparr>"

definition link_isReady :: "'a flit_scheme NetworkLink \<Rightarrow> Cycles \<Rightarrow> bool" where
  "link_isReady l curTime = fb_isReady (linkBuffer l) curTime"

definition peekLink :: "'f NetworkLink \<Rightarrow> 'f option" where
  "peekLink l = fb_peekTopFlit (linkBuffer l)"

definition consumeLink ::
    "'a flit_scheme NetworkLink \<Rightarrow> ('a flit_scheme \<times> 'a flit_scheme NetworkLink) option" where
  "consumeLink l = do {
     (f, b) \<leftarrow> fb_getTopFlit (linkBuffer l);
     Some (f, l\<lparr>linkBuffer := b\<rparr>) }"

definition link_resetStats :: "'f NetworkLink \<Rightarrow> 'f NetworkLink" where
  "link_resetStats l = l\<lparr>m_vc_load := map (\<lambda>_. 0) (m_vc_load l), m_link_utilized := 0\<rparr>"

definition link_functionalWrite :: "func_write \<Rightarrow> flit NetworkLink \<Rightarrow> nat \<times> flit NetworkLink" where
  "link_functionalWrite fw l =
     (case fb_functionalWrite fw (linkBuffer l) of (n, b) \<Rightarrow> (n, l\<lparr>linkBuffer := b\<rparr>))"

text \<open>
  \<^verbatim>\<open>NetworkLink::wakeup\<close>. The source queue belongs to the sender and is passed in and out; a
  null consumer is a null dereference.
\<close>

definition NetworkLink_wakeup ::
    "'a flit_scheme flitBuffer \<Rightarrow> 'a flit_scheme NetworkLink \<Rightarrow> env \<Rightarrow>
       ('a flit_scheme flitBuffer \<times> 'a flit_scheme NetworkLink \<times> env) option" where
  "NetworkLink_wakeup srcQueue l e =
     (if fb_isReady srcQueue (curCycle e) then do {
        (t_flit, srcQueue) \<leftarrow> fb_getTopFlit srcQueue;
        let t_flit = set_time (curCycle e + m_latency_l l) t_flit;
        let l = l\<lparr>linkBuffer := fb_insert (linkBuffer l) t_flit\<rparr>;
        c \<leftarrow> link_consumer l;
        e \<leftarrow> scheduleEventAbsolute c (clockEdge e (m_latency_l l)) e;
        load \<leftarrow> vec_add (m_vc_load l) (m_vc t_flit) 1;
        Some (srcQueue, l\<lparr>m_link_utilized := m_link_utilized l + 1, m_vc_load := load\<rparr>, e) }
      else Some (srcQueue, l, e))"

section \<open>Links lose nothing\<close>

text \<open>Stamping a time changes nothing else, so a flit is recognised by its other fields.\<close>

definition untimed :: "'a flit_scheme \<Rightarrow> 'a flit_scheme" where
  "untimed f = f\<lparr>m_time := 0\<rparr>"

lemma untimed_set_time [simp]: "untimed (set_time t f) = untimed f"
  by (simp add: untimed_def set_time_def)

lemma NetworkLink_wakeup_items:
  assumes "NetworkLink_wakeup q l e = Some (q', l', e')"
  shows "image_mset untimed (fb_items q') + image_mset untimed (fb_items (linkBuffer l')) =
         image_mset untimed (fb_items q) + image_mset untimed (fb_items (linkBuffer l))"
  using assms
  by (auto simp: NetworkLink_wakeup_def bind_Some Let_def fb.items_pop fb.items_insert
      split: if_splits)

lemma NetworkLink_wakeup_ok:
  assumes "NetworkLink_wakeup q l e = Some (q', l', e')" "fb_ok q" "fb_ok (linkBuffer l)"
  shows "fb_ok q' \<and> fb_ok (linkBuffer l')"
  using assms
  by (auto simp: NetworkLink_wakeup_def bind_Some Let_def split: if_splits
      intro: fb.invar_pop fb.invar_insert)

lemma NetworkLink_wakeup_sched:
  assumes "NetworkLink_wakeup q l e = Some (q', l', e')" "sched_ok e"
  shows "sched_ok e'"
  using assms
  by (auto simp: NetworkLink_wakeup_def bind_Some Let_def split: if_splits intro: scheduleEventAbsolute_ok)

lemma NetworkLink_wakeup_pending:
  assumes w: "NetworkLink_wakeup q l e = Some (q', l', e')" and ready: "fb_isReady q (curCycle e)"
    and ok: "sched_ok e" and l_ok: "fb_ok (linkBuffer l)" and pos: "0 < m_latency_l l" "0 < clockPeriod (cfg e)"
  shows "\<exists>c. link_consumer l = Some c \<and> (clockEdge e (m_latency_l l), c) \<in> set (event_queue e') \<and>
    link_isReady l' (curCycle e + m_latency_l l)"
proof -
  obtain f q1 c e1 load where
    run: "fb_getTopFlit q = Some (f, q1)" "link_consumer l = Some c"
      "scheduleEventAbsolute c (clockEdge e (m_latency_l l)) e = Some e1"
    and l': "linkBuffer l' = fb_insert (linkBuffer l) (set_time (curCycle e + m_latency_l l) f)"
    and e': "e' = e1"
    using w ready by (auto simp: NetworkLink_wakeup_def bind_Some Let_def)
  have "(clockEdge e (m_latency_l l), c) \<in> set (event_queue e1)"
    by (rule scheduleEventAbsolute_pending [OF run(3) ok]) (use pos in \<open>simp add: clockEdge_def\<close>)
  moreover have "link_isReady l' (curCycle e + m_latency_l l)"
    unfolding link_isReady_def l' by (subst fb_isReady_exact)
      (auto simp: fb.invar_insert [OF l_ok] fb.items_insert set_time_def)
  ultimately show ?thesis using run(2) e' by blast
qed

text \<open>Taking a flit off a link.\<close>

lemma consumeLink_eq_Some:
  "consumeLink l = Some (f, l') \<longleftrightarrow> (\<exists>b. fb_getTopFlit (linkBuffer l) = Some (f, b) \<and> l' = l\<lparr>linkBuffer := b\<rparr>)"
  by (auto simp: consumeLink_def bind_Some)

lemma consumeLink_drained:
  assumes "vec_at ls i = Some l" "consumeLink l = Some (f, l')" "vec_set ls i l' = Some ls'"
  shows "drained ls ls'"
proof -
  have "fb_items (linkBuffer l') \<subseteq># fb_items (linkBuffer l)" "link_consumer l' = link_consumer l"
    using assms(2) by (auto simp: consumeLink_eq_Some fb.items_pop)
  then show ?thesis
    using assms(1,3) by (auto simp: vec_at_eq_Some vec_set_eq_Some drained_def list_all2_conv_all_nth nth_list_update)
qed

lemma consumeLink_flits:
  assumes "vec_at (m_networklinks e) i = Some l" "consumeLink l = Some (f, l')"
    "vec_set (m_networklinks e) i l' = Some ls"
  shows "link_flits e = add_mset f (link_flits (e\<lparr>m_networklinks := ls\<rparr>))"
proof -
  have i: "nat i < length (m_networklinks e)" and l: "l = m_networklinks e ! nat i"
    and ls: "ls = (m_networklinks e)[nat i := l']"
    using assms by (auto simp: vec_at_eq_Some vec_set_eq_Some)
  have "fb_items (linkBuffer l) = add_mset f (fb_items (linkBuffer l'))"
    using assms(2) by (auto simp: consumeLink_eq_Some fb.items_pop)
  then show ?thesis
    using list_update_sum [OF i, of "\<lambda>l. fb_items (linkBuffer l)" l'] by (simp add: link_flits_def ls l)
qed

end
