(* ===== verification/Virtual_Channel.thy ===== *)
theory Virtual_Channel
  imports Garnet_Env
begin

text \<open>
  The two halves of a virtual channel: \<^verbatim>\<open>class VirtualChannel\<close> (VirtualChannel.hh,
  VirtualChannel.cc), the buffer and state at the receiving input port, and \<^verbatim>\<open>class OutVcState\<close>
  (OutVcState.hh, OutVcState.cc), the sender's record of that channel with its credit count.

  Shown: a channel that is idle exactly while empty never trips the assertion in
  \<^verbatim>\<open>need_stage\<close>; the credit count never leaves [0, max], and the two credit operations undo
  each other.
\<close>

section \<open>class VirtualChannel\<close>

record VirtualChannel =
  m_id_vc :: int
  m_input_buffer :: "flit flitBuffer"
  m_vc_state :: "VC_state_type \<times> Cycles"
  m_output_port :: int
  m_enqueue_time_vc :: Cycles
  m_output_vc :: int

definition VirtualChannel_new :: "int \<Rightarrow> VirtualChannel" where
  "VirtualChannel_new i = \<lparr>m_id_vc = i, m_input_buffer = flitBuffer_new, m_vc_state = (IDLE, 0),
     m_output_port = -1, m_enqueue_time_vc = INFINITE_TIME, m_output_vc = -1\<rparr>"

definition set_idle :: "Cycles \<Rightarrow> VirtualChannel \<Rightarrow> VirtualChannel" where
  "set_idle curTime v = v\<lparr>m_vc_state := (IDLE, curTime), m_enqueue_time_vc := INFINITE_TIME,
     m_output_port := -1, m_output_vc := -1\<rparr>"

definition set_active :: "Cycles \<Rightarrow> VirtualChannel \<Rightarrow> VirtualChannel" where
  "set_active curTime v = v\<lparr>m_vc_state := (ACTIVE, curTime), m_enqueue_time_vc := curTime\<rparr>"

definition vc_set_outvc :: "int \<Rightarrow> VirtualChannel \<Rightarrow> VirtualChannel" where
  "vc_set_outvc outvc v = v\<lparr>m_output_vc := outvc\<rparr>"

definition vc_set_outport :: "int \<Rightarrow> VirtualChannel \<Rightarrow> VirtualChannel" where
  "vc_set_outport outport v = v\<lparr>m_output_port := outport\<rparr>"

definition vc_set_enqueue_time :: "Cycles \<Rightarrow> VirtualChannel \<Rightarrow> VirtualChannel" where
  "vc_set_enqueue_time t v = v\<lparr>m_enqueue_time_vc := t\<rparr>"

definition vc_set_state :: "VC_state_type \<Rightarrow> Cycles \<Rightarrow> VirtualChannel \<Rightarrow> VirtualChannel" where
  "vc_set_state st curTime v = v\<lparr>m_vc_state := (st, curTime)\<rparr>"

definition vc_get_state :: "VirtualChannel \<Rightarrow> VC_state_type" where
  "vc_get_state v = fst (m_vc_state v)"

definition vc_isEmpty :: "VirtualChannel \<Rightarrow> bool" where
  "vc_isEmpty v = fb_isEmpty (m_input_buffer v)"

definition vc_isReady :: "VirtualChannel \<Rightarrow> Cycles \<Rightarrow> bool" where
  "vc_isReady v curTime = fb_isReady (m_input_buffer v) curTime"

definition vc_insertFlit :: "flit \<Rightarrow> VirtualChannel \<Rightarrow> VirtualChannel" where
  "vc_insertFlit t_flit v = v\<lparr>m_input_buffer := fb_insert (m_input_buffer v) t_flit\<rparr>"

definition vc_insertFlitAtTop :: "flit \<Rightarrow> VirtualChannel \<Rightarrow> VirtualChannel" where
  "vc_insertFlitAtTop t_flit v = v\<lparr>m_input_buffer := fb_insertAtTop (m_input_buffer v) t_flit\<rparr>"

definition vc_peekTopFlit :: "VirtualChannel \<Rightarrow> flit option" where
  "vc_peekTopFlit v = fb_peekTopFlit (m_input_buffer v)"

definition vc_getTopFlit :: "VirtualChannel \<Rightarrow> (flit \<times> VirtualChannel) option" where
  "vc_getTopFlit v = do {
     (f, b) \<leftarrow> fb_getTopFlit (m_input_buffer v);
     Some (f, v\<lparr>m_input_buffer := b\<rparr>) }"

text \<open>
  A write through the pointer \<^verbatim>\<open>peekTopFlit()\<close> returns, for fields that do not take part in the
  heap order.
\<close>

definition vc_updTopFlit :: "(flit \<Rightarrow> flit) \<Rightarrow> VirtualChannel \<Rightarrow> VirtualChannel option" where
  "vc_updTopFlit g v = do {
     f \<leftarrow> vc_peekTopFlit v;
     Some (v\<lparr>m_input_buffer := (m_input_buffer v)\<lparr>m_buffer := g f # tl (m_buffer (m_input_buffer v))\<rparr>\<rparr>) }"

definition need_stage :: "VirtualChannel \<Rightarrow> flit_stage \<Rightarrow> Cycles \<Rightarrow> bool option" where
  "need_stage v stage t =
     (if vc_isReady v t then do {
        cassert (fst (m_vc_state v) = ACTIVE \<and> snd (m_vc_state v) \<le> t);
        t_flit \<leftarrow> vc_peekTopFlit v;
        Some (is_stage stage t t_flit) }
      else Some False)"

definition vc_functionalWrite :: "func_write \<Rightarrow> VirtualChannel \<Rightarrow> nat \<times> VirtualChannel" where
  "vc_functionalWrite fw v =
     (case fb_functionalWrite fw (m_input_buffer v) of (n, b) \<Rightarrow> (n, v\<lparr>m_input_buffer := b\<rparr>))"

lemmas vc_updates = set_idle_def set_active_def vc_set_outvc_def vc_set_outport_def
  vc_set_enqueue_time_def vc_set_state_def vc_insertFlit_def vc_insertFlitAtTop_def

section \<open>class OutVcState\<close>

record OutVcState =
  m_id_ovs :: int
  m_time_ovs :: Cycles
  m_vc_state_ovs :: VC_state_type
  m_credit_count :: int
  m_max_credit_count :: int

definition OutVcState_new :: "garnet_cfg \<Rightarrow> int \<Rightarrow> OutVcState option" where
  "OutVcState_new c i = do {
     ty \<leftarrow> get_vnet_type c i;
     let mx = (if ty = DATA_VNET then m_buffers_per_data_vc c else m_buffers_per_ctrl_vc c);
     cassert (mx \<ge> 1);
     Some \<lparr>m_id_ovs = i, m_time_ovs = 0, m_vc_state_ovs = IDLE, m_credit_count = mx,
           m_max_credit_count = mx\<rparr> }"

definition ovs_increment_credit :: "OutVcState \<Rightarrow> OutVcState option" where
  "ovs_increment_credit s = do {
     let s = s\<lparr>m_credit_count := m_credit_count s + 1\<rparr>;
     cassert (m_credit_count s \<le> m_max_credit_count s);
     Some s }"

definition ovs_decrement_credit :: "OutVcState \<Rightarrow> OutVcState option" where
  "ovs_decrement_credit s = do {
     let s = s\<lparr>m_credit_count := m_credit_count s - 1\<rparr>;
     cassert (m_credit_count s \<ge> 0);
     Some s }"

definition ovs_has_credit :: "OutVcState \<Rightarrow> bool" where
  "ovs_has_credit s \<longleftrightarrow> m_credit_count s > 0"

definition isInState :: "OutVcState \<Rightarrow> VC_state_type \<Rightarrow> Cycles \<Rightarrow> bool" where
  "isInState s st request_time \<longleftrightarrow> m_vc_state_ovs s = st \<and> request_time \<ge> m_time_ovs s"

definition ovs_setState :: "VC_state_type \<Rightarrow> Cycles \<Rightarrow> OutVcState \<Rightarrow> OutVcState" where
  "ovs_setState st t s = s\<lparr>m_vc_state_ovs := st, m_time_ovs := t\<rparr>"

section \<open>Lemmas on virtual channels\<close>

definition vc_flits :: "VirtualChannel \<Rightarrow> flit multiset" where
  "vc_flits v = fb_items (m_input_buffer v)"

definition vc_len :: "VirtualChannel \<Rightarrow> nat" where
  "vc_len v = length (m_buffer (m_input_buffer v))"

text \<open>An occupied channel has been active since some time that has passed.\<close>

definition vc_ok :: "Cycles \<Rightarrow> VirtualChannel \<Rightarrow> bool" where
  "vc_ok now v \<longleftrightarrow> fb_ok (m_input_buffer v) \<and>
     (\<not> vc_isEmpty v \<longrightarrow> fst (m_vc_state v) = ACTIVE \<and> snd (m_vc_state v) \<le> now)"

lemma vc_isEmpty_iff: "vc_isEmpty v \<longleftrightarrow> m_buffer (m_input_buffer v) = []"
  by (simp add: vc_isEmpty_def fb_isEmpty_iff)

lemma vc_isEmpty_len: "vc_isEmpty v \<longleftrightarrow> vc_len v = 0"
  by (simp add: vc_isEmpty_iff vc_len_def)

lemma vc_isEmpty_flits: "vc_isEmpty v \<longleftrightarrow> vc_flits v = {#}"
  by (simp add: vc_isEmpty_iff vc_flits_def fb_items_def)

lemma vc_len_flits: "vc_len v = size (vc_flits v)"
  by (simp add: vc_len_def vc_flits_def fb_items_def)

lemma vc_peek_eq:
  "vc_peekTopFlit v =
     (if vc_isEmpty v then None else Some (hd (m_buffer (m_input_buffer v))))"
  by (simp add: vc_peekTopFlit_def fb_peek_eq vc_isEmpty_iff)

lemma vc_getTop_eq_Some:
  "vc_getTopFlit v = Some (f, v') \<longleftrightarrow> \<not> vc_isEmpty v \<and> f = hd (m_buffer (m_input_buffer v)) \<and>
     v' = v\<lparr>m_input_buffer := (m_input_buffer v)\<lparr>m_buffer :=
              pop_heap flit_greater (m_buffer (m_input_buffer v))\<rparr>\<rparr>"
  by (auto simp: vc_getTopFlit_def bind_Some fb_getTopFlit_def vc_isEmpty_iff)

lemma vc_getTop_flits:
  "vc_getTopFlit v = Some (f, v') \<Longrightarrow> vc_flits v = add_mset f (vc_flits v')"
  by (auto simp: vc_getTopFlit_def bind_Some vc_flits_def fb.items_pop)

lemma vc_getTop_peek: "vc_getTopFlit v = Some (f, v') \<Longrightarrow> vc_peekTopFlit v = Some f"
  by (auto simp: vc_getTop_eq_Some vc_peek_eq)

lemma vc_getTop_ok: "vc_getTopFlit v = Some (f, v') \<Longrightarrow> vc_ok now v \<Longrightarrow> vc_ok now v'"
  by (auto simp: vc_getTopFlit_def bind_Some vc_ok_def vc_isEmpty_def fb_isEmpty_iff
      fb_getTopFlit_def dest: fb.invar_pop split: if_splits)

lemma vc_getTop_frame:
  "vc_getTopFlit v = Some (f, v') \<Longrightarrow>
     m_vc_state v' = m_vc_state v \<and> m_output_vc v' = m_output_vc v \<and> m_output_port v' = m_output_port v"
  by (auto simp: vc_getTop_eq_Some)

lemma vc_flits_insert [simp]:
  "vc_flits (vc_insertFlit f v) = add_mset f (vc_flits v)"
  "vc_flits (vc_insertFlitAtTop f v) = add_mset f (vc_flits v)"
  by (simp_all add: vc_flits_def vc_insertFlit_def vc_insertFlitAtTop_def fb.items_insert
      fb_insertAtTop_items)

lemma vc_flits_state [simp]:
  "vc_flits (set_idle t v) = vc_flits v" "vc_flits (set_active t v) = vc_flits v"
  by (simp_all add: vc_flits_def set_idle_def set_active_def)

text \<open>Under the invariant the assertion of \<^verbatim>\<open>need_stage\<close> cannot fire.\<close>

lemma need_stage_total:
  assumes "vc_ok now v" "now \<le> t"
  shows "need_stage v st t = Some (vc_isReady v t \<and> is_stage st t (hd (m_buffer (m_input_buffer v))))"
proof (cases "vc_isReady v t")
  case True
  then have "\<not> vc_isEmpty v" by (simp add: vc_isReady_def fb_isReady_eq vc_isEmpty_iff)
  then show ?thesis using assms True by (auto simp: need_stage_def vc_ok_def vc_peek_eq)
qed (simp add: need_stage_def)

lemma need_stage_True:
  "need_stage v st t = Some True \<Longrightarrow>
     \<not> vc_isEmpty v \<and> vc_isReady v t \<and> is_stage st t (hd (m_buffer (m_input_buffer v)))"
  by (auto simp: need_stage_def bind_Some vc_peek_eq split: if_splits)

lemma vc_ok_mono: "vc_ok now v \<Longrightarrow> now \<le> t \<Longrightarrow> vc_ok t v"
  by (auto simp: vc_ok_def)

lemma vc_ok_new [simp]: "vc_ok now (VirtualChannel_new i)"
  by (simp add: vc_ok_def VirtualChannel_new_def vc_isEmpty_def)

lemma vc_ok_insert: "vc_ok now v \<Longrightarrow> vc_ok now (vc_insertFlit f (set_active now v))"
  by (auto simp: vc_ok_def vc_insertFlit_def set_active_def intro: fb.invar_insert)

lemma vc_new_flits [simp]: "vc_flits (VirtualChannel_new i) = {#}" "vc_isEmpty (VirtualChannel_new i)"
  by (simp_all add: VirtualChannel_new_def vc_flits_def vc_isEmpty_def)

text \<open>Writing through the front pointer keeps the heap when (time, id) stays.\<close>

lemma fb_ok_upd_front:
  assumes "fb_ok b" "m_buffer b \<noteq> []" "m_time f = m_time (hd (m_buffer b))" "m_id f = m_id (hd (m_buffer b))"
  shows "fb_ok (b\<lparr>m_buffer := f # tl (m_buffer b)\<rparr>)"
  using assms by (cases "m_buffer b") (auto simp: fb_ok_def is_heap_def flit_greater_def nth_Cons')

lemma vc_updTop_eq_Some:
  "vc_updTopFlit g v = Some v' \<longleftrightarrow> \<not> vc_isEmpty v \<and>
     v' = v\<lparr>m_input_buffer := (m_input_buffer v)\<lparr>m_buffer :=
            g (hd (m_buffer (m_input_buffer v))) # tl (m_buffer (m_input_buffer v))\<rparr>\<rparr>"
  by (auto simp: vc_updTopFlit_def bind_Some vc_peek_eq)

section \<open>Lemmas on credits\<close>

definition ovs_ok :: "OutVcState \<Rightarrow> bool" where
  "ovs_ok s \<longleftrightarrow> 0 \<le> m_credit_count s \<and> m_credit_count s \<le> m_max_credit_count s"

lemma OutVcState_new_ok: "OutVcState_new c i = Some s \<Longrightarrow> ovs_ok s \<and> ovs_has_credit s"
  by (auto simp: OutVcState_new_def bind_Some Let_def ovs_ok_def ovs_has_credit_def)

lemma ovs_increment_ok:
  "ovs_increment_credit s = Some s' \<Longrightarrow> ovs_ok s \<Longrightarrow> ovs_ok s' \<and> ovs_has_credit s'"
  by (auto simp: ovs_increment_credit_def bind_Some Let_def ovs_ok_def ovs_has_credit_def)

lemma ovs_decrement_ok: "ovs_decrement_credit s = Some s' \<Longrightarrow> ovs_ok s \<Longrightarrow> ovs_ok s'"
  by (auto simp: ovs_decrement_credit_def bind_Some Let_def ovs_ok_def)

lemma ovs_decrement_total: "ovs_ok s \<Longrightarrow> ovs_has_credit s \<Longrightarrow> \<exists>s'. ovs_decrement_credit s = Some s'"
  by (auto simp: ovs_decrement_credit_def Let_def ovs_has_credit_def)

lemma ovs_credit_roundtrip:
  "ovs_ok s \<Longrightarrow> ovs_decrement_credit s = Some s' \<Longrightarrow> ovs_increment_credit s' = Some s"
  by (auto simp: ovs_increment_credit_def ovs_decrement_credit_def bind_Some Let_def ovs_ok_def)

lemma ovs_setState_ok [simp]: "ovs_ok (ovs_setState st t s) = ovs_ok s"
  by (simp add: ovs_ok_def ovs_setState_def)

section \<open>Properties\<close>



end
