(* ===== verification/Input_Unit.thy ===== *)
theory Input_Unit
  imports Network_Link Virtual_Channel
begin

text \<open>
  \<^verbatim>\<open>class InputUnit\<close> (InputUnit.hh, InputUnit.cc) without the two methods that call back into
  the router, \<^verbatim>\<open>wakeup\<close> and \<^verbatim>\<open>makeSwapPtrValid\<close>, which stand with the router. The unit owns
  its virtual channels and the queue of credits for the upstream router.
\<close>

record InputUnit =
  m_id_iu :: int
  m_direction_iu :: PortDirection
  m_num_vcs_iu :: int
  m_vc_per_vnet_iu :: int
  m_in_link :: int
  m_credit_link_iu :: int
  creditQueue :: "credit flitBuffer"
  m_vcs :: "VirtualChannel list"
  m_num_buffer_writes :: "nat list"
  m_num_buffer_reads :: "nat list"

text \<open>The constructor divides by \<^verbatim>\<open>m_vc_per_vnet\<close>; the link pointers are set by the caller.\<close>

definition InputUnit_new :: "int \<Rightarrow> PortDirection \<Rightarrow> int \<Rightarrow> int \<Rightarrow> InputUnit option" where
  "InputUnit_new i direction num_vcs vc_per_vnet = do {
     cassert (vc_per_vnet \<noteq> 0);
     Some \<lparr>m_id_iu = i, m_direction_iu = direction, m_num_vcs_iu = num_vcs,
       m_vc_per_vnet_iu = vc_per_vnet, m_in_link = -1, m_credit_link_iu = -1,
       creditQueue = flitBuffer_new, m_vcs = map VirtualChannel_new [0..num_vcs - 1],
       m_num_buffer_writes = replicate (nat (num_vcs div vc_per_vnet)) 0,
       m_num_buffer_reads = replicate (nat (num_vcs div vc_per_vnet)) 0\<rparr> }"

definition set_in_link :: "int \<Rightarrow> InputUnit \<Rightarrow> InputUnit" where
  "set_in_link link u = u\<lparr>m_in_link := link\<rparr>"

definition iu_set_credit_link :: "int \<Rightarrow> InputUnit \<Rightarrow> InputUnit" where
  "iu_set_credit_link link u = u\<lparr>m_credit_link_iu := link\<rparr>"

text \<open>\<^verbatim>\<open>m_vcs[vc]->...\<close> as a read and as a write.\<close>

definition iu_vc :: "InputUnit \<Rightarrow> int \<Rightarrow> VirtualChannel option" where
  "iu_vc u vc = vec_at (m_vcs u) vc"

definition iu_upd_vc :: "int \<Rightarrow> (VirtualChannel \<Rightarrow> VirtualChannel) \<Rightarrow> InputUnit \<Rightarrow> InputUnit option" where
  "iu_upd_vc vc f u = do {
     v \<leftarrow> vec_at (m_vcs u) vc;
     vs \<leftarrow> vec_set (m_vcs u) vc (f v);
     Some (u\<lparr>m_vcs := vs\<rparr>) }"

definition set_vc_idle :: "int \<Rightarrow> Cycles \<Rightarrow> InputUnit \<Rightarrow> InputUnit option" where
  "set_vc_idle vc curTime u = iu_upd_vc vc (set_idle curTime) u"

definition set_vc_active :: "int \<Rightarrow> Cycles \<Rightarrow> InputUnit \<Rightarrow> InputUnit option" where
  "set_vc_active vc curTime u = iu_upd_vc vc (set_active curTime) u"

definition grant_outport :: "int \<Rightarrow> int \<Rightarrow> InputUnit \<Rightarrow> InputUnit option" where
  "grant_outport vc outport u = iu_upd_vc vc (vc_set_outport outport) u"

definition grant_outvc :: "int \<Rightarrow> int \<Rightarrow> InputUnit \<Rightarrow> InputUnit option" where
  "grant_outvc vc outvc u = iu_upd_vc vc (vc_set_outvc outvc) u"

definition iu_get_outport :: "InputUnit \<Rightarrow> int \<Rightarrow> int option" where
  "iu_get_outport u invc = do { v \<leftarrow> iu_vc u invc; Some (m_output_port v) }"

definition iu_get_outvc :: "InputUnit \<Rightarrow> int \<Rightarrow> int option" where
  "iu_get_outvc u invc = do { v \<leftarrow> iu_vc u invc; Some (m_output_vc v) }"

definition iu_get_enqueue_time :: "InputUnit \<Rightarrow> int \<Rightarrow> Cycles option" where
  "iu_get_enqueue_time u invc = do { v \<leftarrow> iu_vc u invc; Some (m_enqueue_time_vc v) }"

definition iu_peekTopFlit :: "InputUnit \<Rightarrow> int \<Rightarrow> flit option" where
  "iu_peekTopFlit u vc = do { v \<leftarrow> iu_vc u vc; vc_peekTopFlit v }"

definition iu_getTopFlit :: "InputUnit \<Rightarrow> int \<Rightarrow> (flit \<times> InputUnit) option" where
  "iu_getTopFlit u vc = do {
     v \<leftarrow> iu_vc u vc;
     (f, v') \<leftarrow> vc_getTopFlit v;
     vs \<leftarrow> vec_set (m_vcs u) vc v';
     Some (f, u\<lparr>m_vcs := vs\<rparr>) }"

definition iu_updTopFlit :: "int \<Rightarrow> (flit \<Rightarrow> flit) \<Rightarrow> InputUnit \<Rightarrow> InputUnit option" where
  "iu_updTopFlit vc g u = do {
     v \<leftarrow> iu_vc u vc;
     v' \<leftarrow> vc_updTopFlit g v;
     vs \<leftarrow> vec_set (m_vcs u) vc v';
     Some (u\<lparr>m_vcs := vs\<rparr>) }"

definition iu_need_stage :: "InputUnit \<Rightarrow> int \<Rightarrow> flit_stage \<Rightarrow> Cycles \<Rightarrow> bool option" where
  "iu_need_stage u vc stage t = do { v \<leftarrow> iu_vc u vc; need_stage v stage t }"

definition iu_isReady :: "InputUnit \<Rightarrow> int \<Rightarrow> Cycles \<Rightarrow> bool option" where
  "iu_isReady u invc curTime = do { v \<leftarrow> iu_vc u invc; Some (vc_isReady v curTime) }"

definition iu_vc_isEmpty :: "InputUnit \<Rightarrow> int \<Rightarrow> bool option" where
  "iu_vc_isEmpty u invc = do { v \<leftarrow> iu_vc u invc; Some (vc_isEmpty v) }"

text \<open>Only the channels of virtual network 0 are counted.\<close>

definition iu_get_numFreeVC :: "InputUnit \<Rightarrow> PortDirection \<Rightarrow> int option" where
  "iu_get_numFreeVC u dirn = do {
     cassert (dirn = m_direction_iu u);
     for_each (\<lambda>vc freeVC. do {
         b \<leftarrow> iu_vc_isEmpty u vc;
         Some (if b then freeVC + 1 else freeVC) })
       [0..m_vc_per_vnet_iu u - 1] 0 }"

definition enqueue_flit :: "int \<Rightarrow> flit \<Rightarrow> InputUnit \<Rightarrow> InputUnit option" where
  "enqueue_flit vc flit_t u = iu_upd_vc vc (vc_insertFlitAtTop flit_t) u"

definition iu_increment_credit ::
    "int \<Rightarrow> bool \<Rightarrow> Cycles \<Rightarrow> InputUnit \<Rightarrow> env \<Rightarrow> (InputUnit \<times> env) option" where
  "iu_increment_credit in_vc free_signal curTime u e = do {
     let u = u\<lparr>creditQueue := fb_insert (creditQueue u) (Credit_new in_vc free_signal curTime)\<rparr>;
     e \<leftarrow> scheduleEventAbsolute (C_CreditLink (m_credit_link_iu u)) (clockEdge e 1) e;
     Some (u, e) }"

text \<open>\<^verbatim>\<open>functionalWrite\<close> over a vector of components, summing what each reports.\<close>

fun sum_functionalWrite :: "('c \<Rightarrow> nat \<times> 'c) \<Rightarrow> 'c list \<Rightarrow> nat \<times> 'c list" where
  "sum_functionalWrite w [] = (0, [])"
| "sum_functionalWrite w (c # cs) =
     (let (n, c') = w c; (m, cs') = sum_functionalWrite w cs in (n + m, c' # cs'))"

definition iu_functionalWrite :: "func_write \<Rightarrow> InputUnit \<Rightarrow> nat \<times> InputUnit" where
  "iu_functionalWrite fw u =
     (case sum_functionalWrite (vc_functionalWrite fw) (m_vcs u) of (n, vs) \<Rightarrow> (n, u\<lparr>m_vcs := vs\<rparr>))"

definition iu_resetStats :: "InputUnit \<Rightarrow> InputUnit" where
  "iu_resetStats u = u\<lparr>m_num_buffer_reads := map (\<lambda>_. 0) (m_num_buffer_reads u),
     m_num_buffer_writes := map (\<lambda>_. 0) (m_num_buffer_writes u)\<rparr>"

section \<open>Lemmas\<close>

definition iu_flits :: "InputUnit \<Rightarrow> flit multiset" where
  "iu_flits u = (\<Sum>v\<leftarrow>m_vcs u. vc_flits v)"

text \<open>The shape of a constructed unit, and the invariant of its channels.\<close>

definition iu_wf :: "InputUnit \<Rightarrow> bool" where
  "iu_wf u \<longleftrightarrow> 0 < m_vc_per_vnet_iu u \<and> m_vc_per_vnet_iu u \<le> m_num_vcs_iu u \<and>
     int (length (m_vcs u)) = m_num_vcs_iu u"

definition iu_ok :: "Cycles \<Rightarrow> InputUnit \<Rightarrow> bool" where
  "iu_ok now u \<longleftrightarrow> (\<forall>v \<in> set (m_vcs u). vc_ok now v)"

lemma InputUnit_new_wf:
  assumes "InputUnit_new i d n k = Some u" "0 < k" "k \<le> n"
  shows "iu_wf u \<and> iu_ok now u \<and> iu_flits u = {#}"
  using assms
  by (auto simp: InputUnit_new_def iu_wf_def iu_ok_def iu_flits_def comp_def sum_list_replicate)

lemma iu_vc_eq_Some:
  "iu_vc u vc = Some v \<longleftrightarrow> 0 \<le> vc \<and> vc < int (length (m_vcs u)) \<and> v = m_vcs u ! nat vc"
  by (auto simp: iu_vc_def vec_at_eq_Some)

lemma iu_upd_vc_eq_Some:
  "iu_upd_vc vc f u = Some u' \<longleftrightarrow> 0 \<le> vc \<and> vc < int (length (m_vcs u)) \<and>
     u' = u\<lparr>m_vcs := (m_vcs u)[nat vc := f (m_vcs u ! nat vc)]\<rparr>"
  by (auto simp: iu_upd_vc_def run_simps)

lemma iu_getTop_eq_Some:
  "iu_getTopFlit u vc = Some (f, u') \<longleftrightarrow> 0 \<le> vc \<and> vc < int (length (m_vcs u)) \<and>
     (\<exists>v'. vc_getTopFlit (m_vcs u ! nat vc) = Some (f, v') \<and> u' = u\<lparr>m_vcs := (m_vcs u)[nat vc := v']\<rparr>)"
  by (auto simp: iu_getTopFlit_def run_simps iu_vc_eq_Some)

lemma iu_updTop_eq_Some:
  "iu_updTopFlit vc g u = Some u' \<longleftrightarrow> 0 \<le> vc \<and> vc < int (length (m_vcs u)) \<and>
     (\<exists>v'. vc_updTopFlit g (m_vcs u ! nat vc) = Some v' \<and> u' = u\<lparr>m_vcs := (m_vcs u)[nat vc := v']\<rparr>)"
  by (auto simp: iu_updTopFlit_def run_simps iu_vc_eq_Some)

lemma iu_vc_isEmpty_eq_Some:
  "iu_vc_isEmpty u vc = Some b \<longleftrightarrow>
     0 \<le> vc \<and> vc < int (length (m_vcs u)) \<and> b = vc_isEmpty (m_vcs u ! nat vc)"
  by (auto simp: iu_vc_isEmpty_def bind_Some iu_vc_eq_Some)

lemma iu_peek_eq_Some:
  "iu_peekTopFlit u vc = Some f \<longleftrightarrow> 0 \<le> vc \<and> vc < int (length (m_vcs u)) \<and>
     \<not> vc_isEmpty (m_vcs u ! nat vc) \<and> f = hd (m_buffer (m_input_buffer (m_vcs u ! nat vc)))"
  by (auto simp: iu_peekTopFlit_def bind_Some iu_vc_eq_Some vc_peek_eq)

lemmas iu_run_simps = iu_upd_vc_eq_Some iu_getTop_eq_Some iu_updTop_eq_Some iu_vc_isEmpty_eq_Some
  iu_peek_eq_Some iu_vc_eq_Some

text \<open>Reading a channel of an updated unit, and the flits of an updated unit.\<close>

lemma iu_flits_upd:
  assumes "i < length (m_vcs u)"
  shows "iu_flits (u\<lparr>m_vcs := (m_vcs u)[i := v]\<rparr>) + vc_flits (m_vcs u ! i) = iu_flits u + vc_flits v"
  using list_update_sum [OF assms, of vc_flits v] by (simp add: iu_flits_def)

lemma iu_flits_upd_same:
  assumes "i < length (m_vcs u)" "vc_flits v = vc_flits (m_vcs u ! i)"
  shows "iu_flits (u\<lparr>m_vcs := (m_vcs u)[i := v]\<rparr>) = iu_flits u"
  using iu_flits_upd [OF assms(1), of v] assms(2) by simp

lemma iu_getTop_flits:
  "iu_getTopFlit u vc = Some (f, u') \<Longrightarrow> iu_flits u = add_mset f (iu_flits u')"
proof -
  assume "iu_getTopFlit u vc = Some (f, u')"
  then obtain v' where "nat vc < length (m_vcs u)" "vc_getTopFlit (m_vcs u ! nat vc) = Some (f, v')"
    "u' = u\<lparr>m_vcs := (m_vcs u)[nat vc := v']\<rparr>" by (auto simp: iu_getTop_eq_Some)
  then show ?thesis using iu_flits_upd [of "nat vc" u v'] vc_getTop_flits by fastforce
qed

lemma iu_insert_flits:
  assumes "iu_upd_vc vc g u = Some u'" "vc_flits (g (m_vcs u ! nat vc)) = add_mset f (vc_flits (m_vcs u ! nat vc))"
  shows "iu_flits u' = add_mset f (iu_flits u)"
proof -
  have "nat vc < length (m_vcs u)" using assms(1) by (auto simp: iu_upd_vc_eq_Some)
  from iu_flits_upd [OF this, of "g (m_vcs u ! nat vc)"] show ?thesis
    using assms by (auto simp: iu_upd_vc_eq_Some)
qed

text \<open>The number of empty channels of virtual network 0.\<close>

lemma iu_get_numFreeVC_eq:
  assumes "iu_wf u"
  shows "iu_get_numFreeVC u (m_direction_iu u) =
    Some (int (length (filter vc_isEmpty (take (nat (m_vc_per_vnet_iu u)) (m_vcs u)))))"
proof -
  have loop: "for_each (\<lambda>vc freeVC. do {
         b \<leftarrow> iu_vc_isEmpty u vc;
         Some (if b then freeVC + 1 else freeVC) }) [0..int k - 1] 0 =
       Some (int (length (filter vc_isEmpty (take k (m_vcs u)))))"
    if "k \<le> length (m_vcs u)" for k
    using that
  proof (induction k)
    case (Suc k)
    have e: "iu_vc_isEmpty u (int k) = Some (vc_isEmpty (m_vcs u ! k))"
      using Suc.prems by (simp add: iu_vc_isEmpty_eq_Some)
    show ?case unfolding upto_snoc_nat for_each_append
      using Suc by (simp add: e take_Suc_conv_app_nth)
  qed simp
  have "nat (m_vc_per_vnet_iu u) \<le> length (m_vcs u)" using assms by (auto simp: iu_wf_def)
  from loop [OF this] show ?thesis using assms by (simp add: iu_get_numFreeVC_def iu_wf_def)
qed

end
