(* ===== verification/Output_Unit.thy ===== *)
theory Output_Unit
  imports Network_Link Virtual_Channel
begin

text \<open>
  \<^verbatim>\<open>class OutputUnit\<close> (OutputUnit.hh, OutputUnit.cc): the buffer in front of the output link and
  the state of every virtual channel of the downstream input port. The owning router's clock is
  the one of the shared state.

  Shown: \<^verbatim>\<open>has_free_vc\<close> is exactly the condition under which \<^verbatim>\<open>select_free_vc\<close> returns a channel,
  the channel belongs to the requested virtual network and was idle, and credits stay in
  bounds.
\<close>

record OutputUnit =
  m_id_ou :: int
  m_direction_ou :: PortDirection
  m_num_vcs_ou :: int
  m_vc_per_vnet_ou :: int
  m_out_link :: int
  m_credit_link_ou :: int
  m_out_buffer :: "flit flitBuffer"
  m_outvc_state :: "OutVcState list"

definition OutputUnit_new ::
    "garnet_cfg \<Rightarrow> int \<Rightarrow> PortDirection \<Rightarrow> int \<Rightarrow> int \<Rightarrow> OutputUnit option" where
  "OutputUnit_new c i direction num_vcs vc_per_vnet = do {
     states \<leftarrow> for_each (\<lambda>j ss. do { s \<leftarrow> OutVcState_new c j; Some (ss @ [s]) }) [0..num_vcs - 1] [];
     Some \<lparr>m_id_ou = i, m_direction_ou = direction, m_num_vcs_ou = num_vcs,
       m_vc_per_vnet_ou = vc_per_vnet, m_out_link = -1, m_credit_link_ou = -1,
       m_out_buffer = flitBuffer_new, m_outvc_state = states\<rparr> }"

definition ou_set_out_link :: "int \<Rightarrow> OutputUnit \<Rightarrow> OutputUnit" where
  "ou_set_out_link link u = u\<lparr>m_out_link := link\<rparr>"

definition ou_set_credit_link :: "int \<Rightarrow> OutputUnit \<Rightarrow> OutputUnit" where
  "ou_set_credit_link link u = u\<lparr>m_credit_link_ou := link\<rparr>"

definition ou_decrement_credit :: "int \<Rightarrow> OutputUnit \<Rightarrow> OutputUnit option" where
  "ou_decrement_credit out_vc u = do {
     s \<leftarrow> vec_at (m_outvc_state u) out_vc;
     s \<leftarrow> ovs_decrement_credit s;
     ss \<leftarrow> vec_set (m_outvc_state u) out_vc s;
     Some (u\<lparr>m_outvc_state := ss\<rparr>) }"

definition ou_increment_credit :: "int \<Rightarrow> OutputUnit \<Rightarrow> OutputUnit option" where
  "ou_increment_credit out_vc u = do {
     s \<leftarrow> vec_at (m_outvc_state u) out_vc;
     s \<leftarrow> ovs_increment_credit s;
     ss \<leftarrow> vec_set (m_outvc_state u) out_vc s;
     Some (u\<lparr>m_outvc_state := ss\<rparr>) }"

definition ou_has_credit :: "OutputUnit \<Rightarrow> int \<Rightarrow> Cycles \<Rightarrow> bool option" where
  "ou_has_credit u out_vc now = do {
     s \<leftarrow> vec_at (m_outvc_state u) out_vc;
     cassert (isInState s ACTIVE now);
     Some (ovs_has_credit s) }"

definition ou_get_credit_count :: "OutputUnit \<Rightarrow> int \<Rightarrow> int option" where
  "ou_get_credit_count u vc = do { s \<leftarrow> vec_at (m_outvc_state u) vc; Some (m_credit_count s) }"

definition set_vc_state :: "VC_state_type \<Rightarrow> int \<Rightarrow> Cycles \<Rightarrow> OutputUnit \<Rightarrow> OutputUnit option" where
  "set_vc_state st vc curTime u = do {
     s \<leftarrow> vec_at (m_outvc_state u) vc;
     ss \<leftarrow> vec_set (m_outvc_state u) vc (ovs_setState st curTime s);
     Some (u\<lparr>m_outvc_state := ss\<rparr>) }"

definition is_vc_idle :: "OutputUnit \<Rightarrow> int \<Rightarrow> Cycles \<Rightarrow> bool option" where
  "is_vc_idle u vc curTime = do {
     s \<leftarrow> vec_at (m_outvc_state u) vc;
     Some (isInState s IDLE curTime) }"

text \<open>The loop of \<^verbatim>\<open>has_free_vc\<close> and \<^verbatim>\<open>select_free_vc\<close>: stop at the first idle channel.\<close>

fun first_idle_vc :: "OutputUnit \<Rightarrow> Cycles \<Rightarrow> int list \<Rightarrow> int option option" where
  "first_idle_vc u now [] = Some None"
| "first_idle_vc u now (vc # vcs) = do {
     b \<leftarrow> is_vc_idle u vc now;
     if b then Some (Some vc) else first_idle_vc u now vcs }"

definition vnet_vcs :: "OutputUnit \<Rightarrow> int \<Rightarrow> int list" where
  "vnet_vcs u vnet =
     (let vc_base = vnet * m_vc_per_vnet_ou u in [vc_base..vc_base + m_vc_per_vnet_ou u - 1])"

definition has_free_vc :: "OutputUnit \<Rightarrow> int \<Rightarrow> Cycles \<Rightarrow> bool option" where
  "has_free_vc u vnet now = do {
     r \<leftarrow> first_idle_vc u now (vnet_vcs u vnet);
     Some (r \<noteq> None) }"

definition select_free_vc :: "int \<Rightarrow> Cycles \<Rightarrow> OutputUnit \<Rightarrow> (int \<times> OutputUnit) option" where
  "select_free_vc vnet now u = do {
     r \<leftarrow> first_idle_vc u now (vnet_vcs u vnet);
     case r of
       None \<Rightarrow> Some (-1, u)
     | Some vc \<Rightarrow> do { u \<leftarrow> set_vc_state ACTIVE vc now u; Some (vc, u) } }"

text \<open>\<^verbatim>\<open>OutputUnit::wakeup\<close>: take one credit off the credit link and book it.\<close>

definition OutputUnit_wakeup :: "OutputUnit \<Rightarrow> env \<Rightarrow> (OutputUnit \<times> env) option" where
  "OutputUnit_wakeup u e = do {
     link \<leftarrow> vec_at (m_creditlinks e) (m_credit_link_ou u);
     if link_isReady link (curCycle e) then do {
       (t_credit, link) \<leftarrow> consumeLink link;
       links \<leftarrow> vec_set (m_creditlinks e) (m_credit_link_ou u) link;
       u \<leftarrow> ou_increment_credit (m_vc t_credit) u;
       u \<leftarrow> (if m_is_free_signal t_credit then set_vc_state IDLE (m_vc t_credit) (curCycle e) u
            else Some u);
       Some (u, e\<lparr>m_creditlinks := links\<rparr>) }
     else Some (u, e) }"

text \<open>\<^verbatim>\<open>insert_flit\<close>: buffer the flit and wake the output link in the next cycle.\<close>

definition ou_insert_flit :: "flit \<Rightarrow> OutputUnit \<Rightarrow> env \<Rightarrow> (OutputUnit \<times> env) option" where
  "ou_insert_flit t_flit u e = do {
     let u = u\<lparr>m_out_buffer := fb_insert (m_out_buffer u) t_flit\<rparr>;
     e \<leftarrow> scheduleEventAbsolute (C_NetLink (m_out_link u)) (clockEdge e 1) e;
     Some (u, e) }"

definition ou_functionalWrite :: "func_write \<Rightarrow> OutputUnit \<Rightarrow> nat \<times> OutputUnit" where
  "ou_functionalWrite fw u =
     (case fb_functionalWrite fw (m_out_buffer u) of (n, b) \<Rightarrow> (n, u\<lparr>m_out_buffer := b\<rparr>))"

section \<open>Lemmas\<close>

text \<open>
  The shape of a unit with \<open>n\<close> virtual networks, and its credit invariant: counts in bounds
  and at least one credit for every idle channel, which is why a winner of the switch
  needs no separate credit check.
\<close>

definition ou_wf :: "OutputUnit \<Rightarrow> bool" where
  "ou_wf u \<longleftrightarrow> 0 < m_vc_per_vnet_ou u \<and> int (length (m_outvc_state u)) = m_num_vcs_ou u"

definition ovs_inv :: "OutVcState \<Rightarrow> bool" where
  "ovs_inv s \<longleftrightarrow> ovs_ok s \<and> (m_vc_state_ovs s = IDLE \<longrightarrow> ovs_has_credit s)"

definition ou_ok :: "OutputUnit \<Rightarrow> bool" where
  "ou_ok u \<longleftrightarrow> (\<forall>s \<in> set (m_outvc_state u). ovs_inv s)"

lemma is_vc_idle_eq_Some:
  "is_vc_idle u vc now = Some b \<longleftrightarrow> 0 \<le> vc \<and> vc < int (length (m_outvc_state u)) \<and>
     b = isInState (m_outvc_state u ! nat vc) IDLE now"
  by (auto simp: is_vc_idle_def run_simps)

lemma set_vc_state_eq_Some:
  "set_vc_state st vc now u = Some u' \<longleftrightarrow> 0 \<le> vc \<and> vc < int (length (m_outvc_state u)) \<and>
     u' = u\<lparr>m_outvc_state := (m_outvc_state u)[nat vc := ovs_setState st now (m_outvc_state u ! nat vc)]\<rparr>"
  by (auto simp: set_vc_state_def run_simps)

lemma first_idle_vc_Some:
  "first_idle_vc u now vcs = Some (Some vc) \<Longrightarrow>
     vc \<in> set vcs \<and> is_vc_idle u vc now = Some True"
  by (induction vcs) (auto simp: bind_Some split: if_splits)

lemma first_idle_vc_None:
  "first_idle_vc u now vcs = Some None \<Longrightarrow> vc \<in> set vcs \<Longrightarrow> is_vc_idle u vc now = Some False"
  by (induction vcs) (auto simp: bind_Some split: if_splits)

lemma first_idle_vc_total:
  "set vcs \<subseteq> {0..<int (length (m_outvc_state u))} \<Longrightarrow> \<exists>r. first_idle_vc u now vcs = Some r"
  by (induction vcs) (auto simp: is_vc_idle_def)

lemma has_free_vc_iff:
  assumes "has_free_vc u vnet now = Some b"
  shows "b \<longleftrightarrow> (\<exists>vc \<in> set (vnet_vcs u vnet). is_vc_idle u vc now = Some True)"
proof -
  obtain r where r: "first_idle_vc u now (vnet_vcs u vnet) = Some r" "b = (r \<noteq> None)"
    using assms by (auto simp: has_free_vc_def bind_Some)
  then show ?thesis
    by (cases r) (auto dest: first_idle_vc_Some first_idle_vc_None)
qed

lemma select_free_vc_frame:
  assumes "select_free_vc vnet now u = Some (vc, u')"
  shows "\<exists>ss. u' = u\<lparr>m_outvc_state := ss\<rparr> \<and> length ss = length (m_outvc_state u)"
proof -
  obtain r where r: "first_idle_vc u now (vnet_vcs u vnet) = Some r"
    "(case r of None \<Rightarrow> Some (-1, u)
      | Some vc \<Rightarrow> do { u \<leftarrow> set_vc_state ACTIVE vc now u; Some (vc, u) }) = Some (vc, u')"
    using assms by (auto simp: select_free_vc_def bind_Some)
  show ?thesis
  proof (cases r)
    case None
    then have "u' = u\<lparr>m_outvc_state := m_outvc_state u\<rparr>" using r(2) by simp
    then show ?thesis by blast
  next
    case (Some x)
    then show ?thesis using r(2) by (auto simp: bind_Some set_vc_state_eq_Some)
  qed
qed

text \<open>A free channel is found when \<^verbatim>\<open>has_free_vc\<close> promised one.\<close>

lemma select_free_vc_gets:
  assumes "has_free_vc u vnet now = Some True"
  shows "\<exists>vc u'. select_free_vc vnet now u = Some (vc, u') \<and> vc \<in> set (vnet_vcs u vnet) \<and>
    0 \<le> vc \<and> is_vc_idle u vc now = Some True \<and>
    u' = u\<lparr>m_outvc_state := (m_outvc_state u)[nat vc := ovs_setState ACTIVE now (m_outvc_state u ! nat vc)]\<rparr>"
proof -
  obtain vc where vc: "first_idle_vc u now (vnet_vcs u vnet) = Some (Some vc)"
    using assms by (auto simp: has_free_vc_def bind_Some)
  then have i: "vc \<in> set (vnet_vcs u vnet)" "is_vc_idle u vc now = Some True"
    by (auto dest: first_idle_vc_Some)
  then have "0 \<le> vc" "vc < int (length (m_outvc_state u))" by (auto simp: is_vc_idle_eq_Some)
  then show ?thesis using vc i by (auto simp: select_free_vc_def set_vc_state_def)
qed

lemma set_vc_state_ok:
  assumes "set_vc_state st vc now u = Some u'" "ou_ok u"
    and "st = IDLE \<longrightarrow> ovs_has_credit (m_outvc_state u ! nat vc)"
  shows "ou_ok u'"
proof -
  have n: "nat vc < length (m_outvc_state u)"
    and u': "u' = u\<lparr>m_outvc_state := (m_outvc_state u)[nat vc := ovs_setState st now (m_outvc_state u ! nat vc)]\<rparr>"
    using assms(1) by (auto simp: set_vc_state_eq_Some)
  have "ovs_inv (m_outvc_state u ! nat vc)" using assms(2) n by (auto simp: ou_ok_def)
  then have "ovs_inv (ovs_setState st now (m_outvc_state u ! nat vc))"
    using assms(3) by (auto simp: ovs_inv_def ovs_setState_def ovs_has_credit_def ovs_ok_def)
  then show ?thesis
    using assms(2) n u' by (auto simp: ou_ok_def dest!: subsetD [OF set_update_subset_insert])
qed

lemma ou_credit_eq_Some:
  "ou_increment_credit vc u = Some u' \<longleftrightarrow> 0 \<le> vc \<and> vc < int (length (m_outvc_state u)) \<and>
     (\<exists>s. ovs_increment_credit (m_outvc_state u ! nat vc) = Some s \<and>
        u' = u\<lparr>m_outvc_state := (m_outvc_state u)[nat vc := s]\<rparr>)"
  "ou_decrement_credit vc u = Some u' \<longleftrightarrow> 0 \<le> vc \<and> vc < int (length (m_outvc_state u)) \<and>
     (\<exists>s. ovs_decrement_credit (m_outvc_state u ! nat vc) = Some s \<and>
        u' = u\<lparr>m_outvc_state := (m_outvc_state u)[nat vc := s]\<rparr>)"
  by (auto simp: ou_increment_credit_def ou_decrement_credit_def run_simps)

lemma ou_ok_update:
  "ou_ok u \<Longrightarrow> ovs_inv s \<Longrightarrow> ou_ok (u\<lparr>m_outvc_state := (m_outvc_state u)[i := s]\<rparr>)"
  by (auto simp: ou_ok_def dest!: subsetD [OF set_update_subset_insert])

lemma ou_increment_credit_ok:
  assumes "ou_increment_credit vc u = Some u'" "ou_ok u"
  shows "ou_ok u' \<and> ovs_has_credit (m_outvc_state u' ! nat vc)"
proof -
  obtain s where s: "nat vc < length (m_outvc_state u)"
    "ovs_increment_credit (m_outvc_state u ! nat vc) = Some s"
    "u' = u\<lparr>m_outvc_state := (m_outvc_state u)[nat vc := s]\<rparr>"
    using assms(1) by (auto simp: ou_credit_eq_Some)
  have "ovs_ok (m_outvc_state u ! nat vc)" using assms(2) s(1) by (auto simp: ou_ok_def ovs_inv_def)
  then have "ovs_ok s" "ovs_has_credit s" using ovs_increment_ok [OF s(2)] by auto
  then show ?thesis using s assms(2) by (auto intro!: ou_ok_update simp: ovs_inv_def)
qed

text \<open>The winner's channel: allocation followed by the credit decrement keeps the invariant.\<close>

lemma ou_grant:
  assumes free: "has_free_vc u vnet now = Some True" and ok: "ou_ok u"
  shows "\<exists>vc u1 u2. select_free_vc vnet now u = Some (vc, u1) \<and> vc \<in> set (vnet_vcs u vnet) \<and> 0 \<le> vc \<and>
    is_vc_idle u vc now = Some True \<and> ou_decrement_credit vc u1 = Some u2 \<and> ou_ok u2 \<and>
    (\<exists>s. u2 = u\<lparr>m_outvc_state := (m_outvc_state u)[nat vc := s]\<rparr>)"
proof -
  obtain vc u1 where sel: "select_free_vc vnet now u = Some (vc, u1)" "vc \<in> set (vnet_vcs u vnet)"
      "0 \<le> vc" "is_vc_idle u vc now = Some True"
    and u1: "u1 = u\<lparr>m_outvc_state := (m_outvc_state u)[nat vc := ovs_setState ACTIVE now (m_outvc_state u ! nat vc)]\<rparr>"
    using select_free_vc_gets [OF free] by blast
  let ?s = "m_outvc_state u ! nat vc"
  have n: "nat vc < length (m_outvc_state u)" "m_vc_state_ovs ?s = IDLE"
    using sel(4) by (auto simp: is_vc_idle_eq_Some isInState_def)
  then have inv: "ovs_ok ?s" "ovs_has_credit ?s" using ok by (auto simp: ou_ok_def ovs_inv_def)
  let ?t = "ovs_setState ACTIVE now ?s"
  have "ovs_ok ?t" "ovs_has_credit ?t" using inv by (auto simp: ovs_has_credit_def ovs_setState_def ovs_ok_def)
  then obtain s' where s': "ovs_decrement_credit ?t = Some s'" using ovs_decrement_total by blast
  then have "ovs_ok s'" using ovs_decrement_ok \<open>ovs_ok ?t\<close> by blast
  moreover have "m_vc_state_ovs s' = ACTIVE"
    using s' by (auto simp: ovs_decrement_credit_def bind_Some Let_def ovs_setState_def)
  ultimately have "ovs_inv s'" by (simp add: ovs_inv_def)
  have dec: "ou_decrement_credit vc u1 = Some (u\<lparr>m_outvc_state := (m_outvc_state u)[nat vc := s']\<rparr>)"
    using n sel(3) s' by (auto simp: ou_credit_eq_Some u1)
  show ?thesis using sel dec ou_ok_update [OF ok \<open>ovs_inv s'\<close>] by blast
qed

lemma OutputUnit_wakeup_cases:
  assumes "OutputUnit_wakeup u e = Some (u', e')"
  obtains "u' = u" "e' = e"
  | c u1 links where "ou_increment_credit (m_vc (c :: credit)) u = Some u1"
      "(if m_is_free_signal c then set_vc_state IDLE (m_vc c) (curCycle e) u1 else Some u1) = Some u'"
      "e' = e\<lparr>m_creditlinks := links\<rparr>" "drained (m_creditlinks e) links"
proof -
  obtain link where link: "vec_at (m_creditlinks e) (m_credit_link_ou u) = Some link"
    using assms by (auto simp: OutputUnit_wakeup_def bind_Some)
  show thesis
  proof (cases "link_isReady link (curCycle e)")
    case True
    then obtain c l links u1 where c: "ou_increment_credit (m_vc (c :: credit)) u = Some u1"
      "(if m_is_free_signal c then set_vc_state IDLE (m_vc c) (curCycle e) u1 else Some u1) = Some u'"
      "e' = e\<lparr>m_creditlinks := links\<rparr>" "drained (m_creditlinks e) links"
      using assms link by (auto simp: OutputUnit_wakeup_def bind_Some dest!: consumeLink_drained)
    then show thesis by (rule that(2))
  next
    case False
    then show thesis using assms link that(1) by (simp add: OutputUnit_wakeup_def)
  qed
qed

lemma OutputUnit_wakeup_ok:
  assumes "OutputUnit_wakeup u e = Some (u', e')" "ou_ok u"
  shows "ou_ok u'"
  using assms(1)
proof (cases rule: OutputUnit_wakeup_cases)
  case (2 c u1 links)
  have u1: "ou_ok u1" "ovs_has_credit (m_outvc_state u1 ! nat (m_vc c))"
    using ou_increment_credit_ok [OF 2(1) assms(2)] by auto
  show ?thesis
  proof (cases "m_is_free_signal c")
    case True
    then have "set_vc_state IDLE (m_vc c) (curCycle e) u1 = Some u'" using 2(2) by simp
    then show ?thesis by (rule set_vc_state_ok) (use u1 in auto)
  qed (use 2(2) u1 in simp)
qed (use assms in simp)

lemma OutputUnit_wakeup_frame:
  assumes "OutputUnit_wakeup u e = Some (u', e')"
  shows "m_out_buffer u' = m_out_buffer u" "m_direction_ou u' = m_direction_ou u"
    "length (m_outvc_state u') = length (m_outvc_state u)" "m_num_vcs_ou u' = m_num_vcs_ou u"
    "m_vc_per_vnet_ou u' = m_vc_per_vnet_ou u"
    "\<exists>links. e' = e\<lparr>m_creditlinks := links\<rparr> \<and> drained (m_creditlinks e) links"
  using assms
  by (cases rule: OutputUnit_wakeup_cases;
      auto simp: ou_credit_eq_Some set_vc_state_eq_Some split: if_splits
           intro: exI [of _ "m_creditlinks e"])+

lemma ou_insert_flit_items:
  "ou_insert_flit f u e = Some (u', e') \<Longrightarrow>
     fb_items (m_out_buffer u') = add_mset f (fb_items (m_out_buffer u))"
  by (auto simp: ou_insert_flit_def bind_Some Let_def fb.items_insert)

lemma select_free_vc_Some:
  assumes "select_free_vc vnet now u = Some (vc, u')" "vc \<noteq> -1"
  shows "vc \<in> set (vnet_vcs u vnet) \<and> 0 \<le> vc \<and> vc < int (length (m_outvc_state u)) \<and>
    isInState (m_outvc_state u ! nat vc) IDLE now \<and>
    u' = u\<lparr>m_outvc_state := (m_outvc_state u)[nat vc := ovs_setState ACTIVE now (m_outvc_state u ! nat vc)]\<rparr>"
proof -
  have "first_idle_vc u now (vnet_vcs u vnet) = Some (Some vc)" and s: "set_vc_state ACTIVE vc now u = Some u'"
    using assms by (auto simp: select_free_vc_def bind_Some split: option.splits)
  then show ?thesis
    using first_idle_vc_Some by (fastforce simp: is_vc_idle_eq_Some set_vc_state_eq_Some)
qed

section \<open>Properties\<close>

text \<open>C11. Virtual channel allocation. On a unit of the right shape \<^verbatim>\<open>has_free_vc\<close> answers without failing, and tells exactly whether
  one of the channels of the virtual network is idle. If so, \<^verbatim>\<open>select_free_vc\<close> activates one of them, the
  credit for it is there to be taken, and nothing else changes; if not, it returns -1 and changes nothing.\<close>

theorem vc_allocation_correct:
  assumes "ou_wf u" "ou_ok u" "0 \<le> vnet" "(vnet + 1) * m_vc_per_vnet_ou u \<le> m_num_vcs_ou u"
  shows "has_free_vc u vnet now = Some (\<exists>vc \<in> set (vnet_vcs u vnet). is_vc_idle u vc now = Some True) \<and>
    (if \<exists>vc \<in> set (vnet_vcs u vnet). is_vc_idle u vc now = Some True
     then \<exists>vc u1 u2 s. select_free_vc vnet now u = Some (vc, u1) \<and> vc \<in> set (vnet_vcs u vnet) \<and>
       is_vc_idle u vc now = Some True \<and> is_vc_idle u1 vc now = Some False \<and>
       ou_decrement_credit vc u1 = Some u2 \<and> ou_ok u2 \<and> u2 = u\<lparr>m_outvc_state := (m_outvc_state u)[nat vc := s]\<rparr>
     else select_free_vc vnet now u = Some (-1, u))"
proof -
  let ?k = "m_vc_per_vnet_ou u"
  have "0 \<le> vnet * ?k" "vnet * ?k + ?k \<le> int (length (m_outvc_state u))"
    using assms by (simp_all add: ou_wf_def algebra_simps)
  then have "set (vnet_vcs u vnet) \<subseteq> {0..<int (length (m_outvc_state u))}" by (auto simp: vnet_vcs_def Let_def)
  then obtain r where r: "first_idle_vc u now (vnet_vcs u vnet) = Some r" using first_idle_vc_total by blast
  then have free: "has_free_vc u vnet now = Some (r \<noteq> None)" by (simp add: has_free_vc_def)
  note iff = has_free_vc_iff [OF free]
  show ?thesis
  proof (cases r)
    case None
    then show ?thesis using free iff r by (simp add: select_free_vc_def)
  next
    case (Some x)
    then have f: "has_free_vc u vnet now = Some True" using free by simp
    obtain vc u1 u2 s where g: "select_free_vc vnet now u = Some (vc, u1)" "vc \<in> set (vnet_vcs u vnet)" "0 \<le> vc"
      "is_vc_idle u vc now = Some True" "ou_decrement_credit vc u1 = Some u2" "ou_ok u2"
      "u2 = u\<lparr>m_outvc_state := (m_outvc_state u)[nat vc := s]\<rparr>" using ou_grant [OF f assms(2)] by blast
    have "is_vc_idle u1 vc now = Some False"
      using select_free_vc_Some [OF g(1)] g(3) by (auto simp: is_vc_idle_eq_Some isInState_def ovs_setState_def)
    then show ?thesis using f iff g Some free by auto
  qed
qed

definition sample_ou :: OutputUnit where
  "sample_ou = \<lparr>m_id_ou = 0, m_direction_ou = ''East'', m_num_vcs_ou = 2, m_vc_per_vnet_ou = 2, m_out_link = 0, m_credit_link_ou = 0,
     m_out_buffer = flitBuffer_new, m_outvc_state =
       [\<lparr>m_id_ovs = 0, m_time_ovs = 3, m_vc_state_ovs = ACTIVE, m_credit_count = 0, m_max_credit_count = 1\<rparr>,
        \<lparr>m_id_ovs = 1, m_time_ovs = 0, m_vc_state_ovs = IDLE, m_credit_count = 1, m_max_credit_count = 1\<rparr>]\<rparr>"

lemma sample_ou_ok: "ou_wf sample_ou" "ou_ok sample_ou"
  by (simp_all add: ou_wf_def ou_ok_def ovs_inv_def ovs_ok_def ovs_has_credit_def sample_ou_def)

theorem vc_allocation_correct_witness:
  "\<exists>vc u1 u2 s. select_free_vc 0 5 sample_ou = Some (vc, u1) \<and> vc \<in> set (vnet_vcs sample_ou 0) \<and>
       is_vc_idle sample_ou vc 5 = Some True \<and> is_vc_idle u1 vc 5 = Some False \<and> ou_decrement_credit vc u1 = Some u2 \<and> ou_ok u2 \<and>
       u2 = sample_ou\<lparr>m_outvc_state := (m_outvc_state sample_ou)[nat vc := s]\<rparr>"
proof -
  have h: "(0 + 1) * m_vc_per_vnet_ou sample_ou \<le> m_num_vcs_ou sample_ou" by (simp add: sample_ou_def)
  have free: "\<exists>vc \<in> set (vnet_vcs sample_ou 0). is_vc_idle sample_ou vc 5 = Some True"
    by (intro bexI [of _ 1]) (simp_all add: vnet_vcs_def is_vc_idle_eq_Some isInState_def sample_ou_def)
  show ?thesis using vc_allocation_correct [OF sample_ou_ok order_refl h, of 5, simplified free if_True] by blast
qed



end
