(* ===== verification/Router_State.thy ===== *)
theory Router_State
  imports Complex_Main Input_Unit Output_Unit Routing_Unit
begin

text \<open>
  The state of a router (Router.hh, Router.cc) with its switch allocator and crossbar
  (SwitchAllocator.hh/.cc, CrossbarSwitch.hh/.cc): records, constructors, \<^verbatim>\<open>init\<close>, the methods
  that wire ports, and the bookkeeping (\<^verbatim>\<open>resetStats\<close>, \<^verbatim>\<open>collateStats\<close>, \<^verbatim>\<open>functionalWrite\<close>).

  The allocator and the crossbar hold pointers to the router's input and output units; in the
  model the units live in the router record, and the operations of the two take the router.
\<close>

section \<open>State\<close>

record swap_pointer =
  sp_valid :: bool
  sp_inport :: int
  sp_vcid :: int
  sp_vnet_id :: int
  sp_inport_dirn :: PortDirection

record SwitchAllocator =
  m_num_inports :: int
  m_num_outports :: int
  m_num_vcs_sa :: int
  m_vc_per_vnet_sa :: int
  m_input_arbiter_activity :: nat
  m_output_arbiter_activity :: nat
  m_round_robin_invc :: "int list"
  m_round_robin_inport :: "int list"
  m_port_requests :: "bool list list"
  m_vc_winners :: "int list list"

record CrossbarSwitch =
  m_num_vcs_x :: int
  m_num_inports_x :: int
  m_crossbar_activity :: nat
  m_switch_buffer :: "flit flitBuffer list"

record Router =
  m_id_r :: int
  m_latency_r :: Cycles
  m_virtual_networks_r :: int
  m_num_vcs_r :: int
  m_vc_per_vnet_r :: int
  m_routing_unit :: RoutingUnit
  m_sw_alloc :: SwitchAllocator
  m_switch :: CrossbarSwitch
  m_input_unit :: "InputUnit list"
  m_output_unit :: "OutputUnit list"
  curr_inport :: int
  is_swap :: bool
  swap_ptr :: swap_pointer
  send_routedSwap :: bool
  m_buffer_reads :: nat
  m_buffer_writes :: nat
  m_sw_input_arbiter_activity :: nat
  m_sw_output_arbiter_activity :: nat
  m_crossbar_activity_r :: nat

section \<open>Construction\<close>

definition SwitchAllocator_new :: "int \<Rightarrow> int \<Rightarrow> SwitchAllocator" where
  "SwitchAllocator_new num_vcs vc_per_vnet = \<lparr>m_num_inports = 0, m_num_outports = 0,
     m_num_vcs_sa = num_vcs, m_vc_per_vnet_sa = vc_per_vnet, m_input_arbiter_activity = 0,
     m_output_arbiter_activity = 0, m_round_robin_invc = [], m_round_robin_inport = [],
     m_port_requests = [], m_vc_winners = []\<rparr>"

definition CrossbarSwitch_new :: "int \<Rightarrow> CrossbarSwitch" where
  "CrossbarSwitch_new num_vcs = \<lparr>m_num_vcs_x = num_vcs, m_num_inports_x = 0,
     m_crossbar_activity = 0, m_switch_buffer = []\<rparr>"

definition swap_pointer_new :: swap_pointer where
  "swap_pointer_new = \<lparr>sp_valid = False, sp_inport = -1, sp_vcid = -1, sp_vnet_id = -1,
     sp_inport_dirn = ''Unknown''\<rparr>"

text \<open>\<^verbatim>\<open>curr_inport\<close> is an unsigned -1 that nothing reads.\<close>

definition Router_new :: "int \<Rightarrow> Cycles \<Rightarrow> int \<Rightarrow> int \<Rightarrow> Router" where
  "Router_new router_id latency virt_nets vcs_per_vnet =
     \<lparr>m_id_r = router_id, m_latency_r = latency, m_virtual_networks_r = virt_nets,
      m_num_vcs_r = virt_nets * vcs_per_vnet, m_vc_per_vnet_r = vcs_per_vnet,
      m_routing_unit = RoutingUnit_new,
      m_sw_alloc = SwitchAllocator_new (virt_nets * vcs_per_vnet) vcs_per_vnet,
      m_switch = CrossbarSwitch_new (virt_nets * vcs_per_vnet),
      m_input_unit = [], m_output_unit = [], curr_inport = -1, is_swap = False,
      swap_ptr = swap_pointer_new, send_routedSwap = False, m_buffer_reads = 0,
      m_buffer_writes = 0, m_sw_input_arbiter_activity = 0, m_sw_output_arbiter_activity = 0,
      m_crossbar_activity_r = 0\<rparr>"

definition get_num_inports :: "Router \<Rightarrow> int" where
  "get_num_inports r = int (length (m_input_unit r))"

definition get_num_outports :: "Router \<Rightarrow> int" where
  "get_num_outports r = int (length (m_output_unit r))"

definition sa_init :: "Router \<Rightarrow> SwitchAllocator \<Rightarrow> SwitchAllocator" where
  "sa_init r sa =
     (let n = length (m_input_unit r); m = length (m_output_unit r) in
      sa\<lparr>m_num_inports := int n, m_num_outports := int m,
         m_round_robin_invc := replicate n 0, m_round_robin_inport := replicate m 0,
         m_port_requests := replicate m (replicate n False),
         m_vc_winners := replicate m (replicate n 0)\<rparr>)"

definition xbar_init :: "Router \<Rightarrow> CrossbarSwitch \<Rightarrow> CrossbarSwitch" where
  "xbar_init r x = x\<lparr>m_num_inports_x := get_num_inports r,
     m_switch_buffer := replicate (length (m_input_unit r)) flitBuffer_new\<rparr>"

definition Router_init :: "Router \<Rightarrow> Router" where
  "Router_init r = r\<lparr>m_sw_alloc := sa_init r (m_sw_alloc r), m_switch := xbar_init r (m_switch r)\<rparr>"

text \<open>
  \<^verbatim>\<open>addInPort\<close> and \<^verbatim>\<open>addOutPort\<close> also register the router with the two links: it consumes the
  incoming one, and its queue feeds the outgoing one.
\<close>

definition Router_addInPort :: "PortDirection \<Rightarrow> int \<Rightarrow> int \<Rightarrow> Router \<Rightarrow> env \<Rightarrow> (Router \<times> env) option" where
  "Router_addInPort inport_dirn in_link credit_link r e = do {
     let port_num = int (length (m_input_unit r));
     u \<leftarrow> InputUnit_new port_num inport_dirn (m_num_vcs_r r) (m_vc_per_vnet_r r);
     let u = iu_set_credit_link credit_link (set_in_link in_link u);
     l \<leftarrow> vec_at (m_networklinks e) in_link;
     ls \<leftarrow> vec_set (m_networklinks e) in_link (setLinkConsumer (C_Router (m_id_r r)) l);
     cl \<leftarrow> vec_at (m_creditlinks e) credit_link;
     cls \<leftarrow> vec_set (m_creditlinks e) credit_link (setSourceQueue (Q_InputCredit (m_id_r r) port_num) cl);
     Some (r\<lparr>m_input_unit := m_input_unit r @ [u],
             m_routing_unit := addInDirection inport_dirn port_num (m_routing_unit r)\<rparr>,
           e\<lparr>m_networklinks := ls, m_creditlinks := cls\<rparr>) }"

definition Router_addOutPort ::
    "PortDirection \<Rightarrow> int \<Rightarrow> NetDest \<Rightarrow> int \<Rightarrow> int \<Rightarrow> Router \<Rightarrow> env \<Rightarrow> (Router \<times> env) option" where
  "Router_addOutPort outport_dirn out_link routing_table_entry link_weight credit_link r e = do {
     let port_num = int (length (m_output_unit r));
     u \<leftarrow> OutputUnit_new (cfg e) port_num outport_dirn (m_num_vcs_r r) (m_vc_per_vnet_r r);
     let u = ou_set_credit_link credit_link (ou_set_out_link out_link u);
     cl \<leftarrow> vec_at (m_creditlinks e) credit_link;
     cls \<leftarrow> vec_set (m_creditlinks e) credit_link (setLinkConsumer (C_Router (m_id_r r)) cl);
     l \<leftarrow> vec_at (m_networklinks e) out_link;
     ls \<leftarrow> vec_set (m_networklinks e) out_link (setSourceQueue (Q_OutputUnit (m_id_r r) port_num) l);
     Some (r\<lparr>m_output_unit := m_output_unit r @ [u],
             m_routing_unit := addOutDirection outport_dirn port_num
               (addWeight link_weight (addRoute routing_table_entry (m_routing_unit r)))\<rparr>,
           e\<lparr>m_networklinks := ls, m_creditlinks := cls\<rparr>) }"

section \<open>Access to units\<close>

definition upd_iu :: "int \<Rightarrow> InputUnit \<Rightarrow> Router \<Rightarrow> Router option" where
  "upd_iu i u r = do { us \<leftarrow> vec_set (m_input_unit r) i u; Some (r\<lparr>m_input_unit := us\<rparr>) }"

definition upd_ou :: "int \<Rightarrow> OutputUnit \<Rightarrow> Router \<Rightarrow> Router option" where
  "upd_ou i u r = do { us \<leftarrow> vec_set (m_output_unit r) i u; Some (r\<lparr>m_output_unit := us\<rparr>) }"

definition getOutportDirection :: "Router \<Rightarrow> int \<Rightarrow> PortDirection option" where
  "getOutportDirection r outport = do { u \<leftarrow> vec_at (m_output_unit r) outport; Some (m_direction_ou u) }"

definition getInportDirection :: "Router \<Rightarrow> int \<Rightarrow> PortDirection option" where
  "getInportDirection r inport = do { u \<leftarrow> vec_at (m_input_unit r) inport; Some (m_direction_iu u) }"

definition Router_get_numFreeVC :: "Router \<Rightarrow> PortDirection \<Rightarrow> int option" where
  "Router_get_numFreeVC r dirn = do {
     cassert (dirn \<noteq> ''Local'');
     let inport_id = map_at 0 (m_inports_dirn2idx (m_routing_unit r)) dirn;
     u \<leftarrow> vec_at (m_input_unit r) inport_id;
     iu_get_numFreeVC u dirn }"

definition route_compute ::
    "(PortDirection \<Rightarrow> int option) \<Rightarrow> Router \<Rightarrow> RouteInfo \<Rightarrow> env \<Rightarrow> (int \<times> env) option" where
  "route_compute free r route e = outportCompute free (m_routing_unit r) (m_id_r r) route e"

definition schedule_wakeup :: "Router \<Rightarrow> Cycles \<Rightarrow> env \<Rightarrow> env option" where
  "schedule_wakeup r t e = scheduleEvent (C_Router (m_id_r r)) t e"

definition update_sw_winner :: "int \<Rightarrow> flit \<Rightarrow> CrossbarSwitch \<Rightarrow> CrossbarSwitch option" where
  "update_sw_winner inport t_flit x = do {
     b \<leftarrow> vec_at (m_switch_buffer x) inport;
     bs \<leftarrow> vec_set (m_switch_buffer x) inport (fb_insert b t_flit);
     Some (x\<lparr>m_switch_buffer := bs\<rparr>) }"

definition grant_switch :: "int \<Rightarrow> flit \<Rightarrow> Router \<Rightarrow> Router option" where
  "grant_switch inport t_flit r = do {
     x \<leftarrow> update_sw_winner inport t_flit (m_switch r);
     Some (r\<lparr>m_switch := x\<rparr>) }"

section \<open>Statistics and functional writes\<close>

definition sa_resetStats :: "SwitchAllocator \<Rightarrow> SwitchAllocator" where
  "sa_resetStats sa = sa\<lparr>m_input_arbiter_activity := 0, m_output_arbiter_activity := 0\<rparr>"

definition xbar_resetStats :: "CrossbarSwitch \<Rightarrow> CrossbarSwitch" where
  "xbar_resetStats x = x\<lparr>m_crossbar_activity := 0\<rparr>"

text \<open>The units are reset once per virtual network, in a loop that repeats the same reset.\<close>

definition Router_resetStats :: "Router \<Rightarrow> Router" where
  "Router_resetStats r =
     (let us = (map iu_resetStats ^^ nat (m_virtual_networks_r r)) (m_input_unit r) in
      r\<lparr>m_input_unit := us, m_switch := xbar_resetStats (m_switch r),
        m_sw_alloc := sa_resetStats (m_sw_alloc r)\<rparr>)"

definition Router_collateStats :: "Router \<Rightarrow> Router option" where
  "Router_collateStats r = do {
     r \<leftarrow> for_each (\<lambda>j r. for_each (\<lambda>i r. do {
              u \<leftarrow> vec_at (m_input_unit r) i;
              rd \<leftarrow> vec_at (m_num_buffer_reads u) j;
              wr \<leftarrow> vec_at (m_num_buffer_writes u) j;
              Some (r\<lparr>m_buffer_reads := m_buffer_reads r + rd, m_buffer_writes := m_buffer_writes r + wr\<rparr>) })
            [0..get_num_inports r - 1] r) [0..m_virtual_networks_r r - 1] r;
     Some (r\<lparr>m_sw_input_arbiter_activity := m_input_arbiter_activity (m_sw_alloc r),
             m_sw_output_arbiter_activity := m_output_arbiter_activity (m_sw_alloc r),
             m_crossbar_activity_r := m_crossbar_activity (m_switch r)\<rparr>) }"

definition xbar_functionalWrite :: "func_write \<Rightarrow> CrossbarSwitch \<Rightarrow> nat \<times> CrossbarSwitch" where
  "xbar_functionalWrite fw x =
     (case sum_functionalWrite (fb_functionalWrite fw) (m_switch_buffer x) of
        (n, bs) \<Rightarrow> (n, x\<lparr>m_switch_buffer := bs\<rparr>))"

definition Router_functionalWrite :: "func_write \<Rightarrow> Router \<Rightarrow> nat \<times> Router" where
  "Router_functionalWrite fw r =
     (let (n1, x) = xbar_functionalWrite fw (m_switch r);
          (n2, us) = sum_functionalWrite (iu_functionalWrite fw) (m_input_unit r);
          (n3, os) = sum_functionalWrite (ou_functionalWrite fw) (m_output_unit r)
      in (n1 + n2 + n3, r\<lparr>m_switch := x, m_input_unit := us, m_output_unit := os\<rparr>))"

section \<open>Lemmas\<close>

text \<open>The flits a router holds in its input channels, its crossbar and its output buffers.\<close>

definition vc_part :: "Router \<Rightarrow> flit multiset" where
  "vc_part r = (\<Sum>u\<leftarrow>m_input_unit r. iu_flits u)"

definition xbar_part :: "Router \<Rightarrow> flit multiset" where
  "xbar_part r = (\<Sum>b\<leftarrow>m_switch_buffer (m_switch r). fb_items b)"

definition out_part :: "Router \<Rightarrow> flit multiset" where
  "out_part r = (\<Sum>u\<leftarrow>m_output_unit r. fb_items (m_out_buffer u))"

definition router_flits :: "Router \<Rightarrow> flit multiset" where
  "router_flits r = vc_part r + xbar_part r + out_part r"

lemma upd_iu_eq_Some:
  "upd_iu i u r = Some r' \<longleftrightarrow> 0 \<le> i \<and> i < int (length (m_input_unit r)) \<and>
     r' = r\<lparr>m_input_unit := (m_input_unit r)[nat i := u]\<rparr>"
  by (auto simp: upd_iu_def run_simps)

lemma upd_ou_eq_Some:
  "upd_ou i u r = Some r' \<longleftrightarrow> 0 \<le> i \<and> i < int (length (m_output_unit r)) \<and>
     r' = r\<lparr>m_output_unit := (m_output_unit r)[nat i := u]\<rparr>"
  by (auto simp: upd_ou_def run_simps)

lemma grant_switch_eq_Some:
  "grant_switch i f r = Some r' \<longleftrightarrow> 0 \<le> i \<and> i < int (length (m_switch_buffer (m_switch r))) \<and>
     r' = r\<lparr>m_switch := (m_switch r)\<lparr>m_switch_buffer :=
       (m_switch_buffer (m_switch r))[nat i := fb_insert (m_switch_buffer (m_switch r) ! nat i) f]\<rparr>\<rparr>"
  by (auto simp: grant_switch_def update_sw_winner_def run_simps)

lemmas router_run_simps = upd_iu_eq_Some upd_ou_eq_Some grant_switch_eq_Some

lemma vc_part_upd:
  assumes "i < length (m_input_unit r)"
  shows "vc_part (r\<lparr>m_input_unit := (m_input_unit r)[i := u]\<rparr>) + iu_flits (m_input_unit r ! i) =
    vc_part r + iu_flits u"
  using list_update_sum [OF assms, of iu_flits u] by (simp add: vc_part_def)

lemma vc_part_replace:
  assumes "i < length (m_input_unit r)" "m_input_unit r' = (m_input_unit r)[i := u]"
    "iu_flits u + A = iu_flits (m_input_unit r ! i) + B"
  shows "vc_part r' + A = vc_part r + B"
proof -
  have "vc_part r' + iu_flits (m_input_unit r ! i) = vc_part r + iu_flits u"
    using vc_part_upd [OF assms(1), of u] assms(2) by (simp add: vc_part_def)
  then show ?thesis using assms(3) by (rule mset_exchange)
qed

lemma xbar_part_grant:
  assumes "grant_switch i f r = Some r'"
  shows "xbar_part r' = add_mset f (xbar_part r)"
proof -
  let ?bs = "m_switch_buffer (m_switch r)"
  have i: "nat i < length ?bs" using assms by (auto simp: grant_switch_eq_Some)
  have "xbar_part r' = (\<Sum>b\<leftarrow>?bs[nat i := fb_insert (?bs ! nat i) f]. fb_items b)"
    using assms by (auto simp: grant_switch_eq_Some xbar_part_def)
  then show ?thesis
    using list_update_sum [OF i, of fb_items "fb_insert (?bs ! nat i) f"]
    by (simp add: fb.items_insert xbar_part_def)
qed

lemma out_part_upd:
  assumes "i < length (m_output_unit r)"
  shows "out_part (r\<lparr>m_output_unit := (m_output_unit r)[i := u]\<rparr>) +
      fb_items (m_out_buffer (m_output_unit r ! i)) = out_part r + fb_items (m_out_buffer u)"
  using list_update_sum [OF assms, of "\<lambda>u. fb_items (m_out_buffer u)" u] by (simp add: out_part_def)

section \<open>Packets in a router and on the links\<close>

definition packets :: "Router \<Rightarrow> env \<Rightarrow> flit multiset" where
  "packets r e = image_mset packet (router_flits r + link_flits e)"

text \<open>
  The contract of a method that runs on one router: it neither loses nor duplicates a packet between
  the router and the links, leaves configuration, clock, packet counts and the router's identity alone, takes
  flits and credits off links but puts none on them, and drops no pending wake-up.
\<close>

locale router_method =
  fixes m :: "Router \<Rightarrow> env \<Rightarrow> (Router \<times> env) option"
  assumes keeps_packets: "m r e = Some (r', e') \<Longrightarrow> packets r' e' = packets r e"
    and keeps_ctx: "m r e = Some (r', e') \<Longrightarrow> ctx e' = ctx e \<and> m_id_r r' = m_id_r r"
    and keeps_env: "m r e = Some (r', e') \<Longrightarrow> drift e e'"

text \<open>Sequencing and loops keep the contract.\<close>

lemma router_method_seq:
  assumes "router_method m1" "router_method m2"
  shows "router_method (\<lambda>r e. do { (r, e) \<leftarrow> m1 r e; m2 r e })"
proof
  fix r e r' e'
  assume "(do { (r, e) \<leftarrow> m1 r e; m2 r e }) = Some (r', e')"
  then obtain r1 e1 where "m1 r e = Some (r1, e1)" "m2 r1 e1 = Some (r', e')" by (auto simp: bind_Some)
  then show "packets r' e' = packets r e" "ctx e' = ctx e \<and> m_id_r r' = m_id_r r" "drift e e'"
    using router_method.keeps_packets [OF assms(1)] router_method.keeps_packets [OF assms(2)]
      router_method.keeps_ctx [OF assms(1)] router_method.keeps_ctx [OF assms(2)]
      router_method.keeps_env [OF assms(1)] router_method.keeps_env [OF assms(2)] drift_trans by metis+
qed

lemma router_method_loop:
  assumes "\<And>x. router_method (\<lambda>r e. f x (r, e))"
  shows "router_method (\<lambda>r e. for_each f (xs r) (r, e))"
proof -
  have "packets r' e' = packets r e \<and> ctx e' = ctx e \<and> m_id_r r' = m_id_r r \<and> drift e e'"
    if "for_each f (xs r) (r, e) = Some (r', e')" for r e r' e'
  proof -
    have "(\<lambda>s. packets (fst s) (snd s) = packets r e \<and> ctx (snd s) = ctx e \<and> m_id_r (fst s) = m_id_r r \<and>
        drift e (snd s)) (r', e')"
      using that
      by (rule for_each_inv)
        (use router_method.keeps_packets [OF assms] router_method.keeps_ctx [OF assms] router_method.keeps_env [OF assms]
          drift_trans in \<open>fastforce+\<close>)
    then show ?thesis by simp
  qed
  then show ?thesis by (simp add: router_method_def)
qed

text \<open>Places outside the three parts and quiet changes of the shared state do not matter.\<close>

lemma packets_cong:
  assumes "image_mset packet (vc_part r') = image_mset packet (vc_part r)" "xbar_part r' = xbar_part r"
    "out_part r' = out_part r" "m_networklinks e' = m_networklinks e"
  shows "packets r' e' = packets r e"
  using assms by (simp add: packets_def router_flits_def link_flits_def)

end
