(* ===== verification/Swap_Pointer.thy ===== *)
theory Swap_Pointer
  imports Router_State
begin

text \<open>
  The SWAP half of a router: whose turn it is (\<^verbatim>\<open>is_myTurn\<close>, Router.hh), the swap pointer and how
  it becomes valid and moves (\<^verbatim>\<open>makeSwapPtrValid\<close>, \<^verbatim>\<open>movSwapPtr\<close>, the scan at the top of
  \<^verbatim>\<open>Router::wakeup\<close>, Router.cc and InputUnit.cc), whether the pointed flit may be swapped
  (\<^verbatim>\<open>outportNotLocal\<close>), and the two halves of a swap at one router (\<^verbatim>\<open>Router::doSwap\<close>,
  \<^verbatim>\<open>Router::doSwap_enqueue\<close>).
\<close>

section \<open>Turns\<close>

text \<open>
  The statements of \<^verbatim>\<open>is_myTurn\<close> up to its first pair of returns, which are all that runs. The
  modulus is zero only for an empty network or \<^verbatim>\<open>whenToSwap\<close> 0.
\<close>

definition is_myTurn :: "env \<Rightarrow> int \<Rightarrow> Router \<Rightarrow> bool option" where
  "is_myTurn e num_routers r = do {
     cassert (m_interswap (cfg e));
     let tdm = int (m_whenToSwap (cfg e));
     cassert (tdm * num_routers \<noteq> 0);
     Some (int (curCycle e) mod (tdm * num_routers) = m_id_r r) }"

text \<open>
  The policy in the unreachable remainder of the function, with the enumeration of
  CommonTypes.hh: the number of rounds between two turns of a router.
\<close>

definition tdm_rounds :: "nat \<Rightarrow> int option" where
  "tdm_rounds whenToSwap =
     (if whenToSwap = 1 then Some 1 else if whenToSwap = 2 then Some 2
      else if whenToSwap = 3 then Some 4 else if whenToSwap = 4 then Some 8
      else if whenToSwap = 5 then Some 16 else if whenToSwap = 6 then Some 32
      else if whenToSwap = 7 then Some 64 else if whenToSwap = 8 then Some 512
      else if whenToSwap = 9 then Some 1024 else if whenToSwap = 10 then Some 2048
      else None)"

definition is_myTurn_policy :: "env \<Rightarrow> int \<Rightarrow> Router \<Rightarrow> bool option" where
  "is_myTurn_policy e num_routers r = do {
     rounds \<leftarrow> tdm_rounds (m_whenToSwap (cfg e));
     cassert (rounds * num_routers \<noteq> 0);
     Some (int (curCycle e) mod (rounds * num_routers) = m_id_r r) }"

section \<open>The swap pointer\<close>

definition checkSwapPtrValid :: "Router \<Rightarrow> bool" where
  "checkSwapPtrValid r = sp_valid (swap_ptr r)"

definition Router_makeSwapPtrValid :: "PortDirection \<Rightarrow> int \<Rightarrow> Router \<Rightarrow> Router option" where
  "Router_makeSwapPtrValid dirn vc r = do {
     cassert (sp_valid (swap_ptr r) = False);
     cassert (sp_vcid (swap_ptr r) = -1);
     cassert (dirn \<noteq> ''Local'');
     Some (r\<lparr>swap_ptr := (swap_ptr r)\<lparr>sp_valid := True, sp_inport_dirn := dirn, sp_vcid := vc,
             sp_inport := map_at 0 (m_inports_dirn2idx (m_routing_unit r)) dirn\<rparr>\<rparr>) }"

definition is_mesh_dirn :: "PortDirection \<Rightarrow> bool" where
  "is_mesh_dirn d \<longleftrightarrow> d = ''North'' \<or> d = ''East'' \<or> d = ''West'' \<or> d = ''South''"

text \<open>\<^verbatim>\<open>InputUnit::makeSwapPtrValid\<close>, for the unit with direction \<open>m_direction\<close>.\<close>

definition iu_makeSwapPtrValid :: "PortDirection \<Rightarrow> flit \<Rightarrow> Router \<Rightarrow> Router option" where
  "iu_makeSwapPtrValid m_direction t_flit r =
     (if checkSwapPtrValid r then Some r
      else if is_mesh_dirn m_direction \<and> is_mesh_dirn (m_outport_dir t_flit)
      then Router_makeSwapPtrValid m_direction (m_vc t_flit) r
      else Some r)"

text \<open>
  The loops of \<^verbatim>\<open>movSwapPtr\<close>. The inner one post-increments \<^verbatim>\<open>swap_ptr.vcid\<close> once per channel and
  never sets it back; \<^verbatim>\<open>goto jmp\<close> leaves both loops (first component \<open>True\<close>).
\<close>

fun mov_vcs :: "InputUnit \<Rightarrow> int \<Rightarrow> nat \<Rightarrow> int \<Rightarrow> int \<Rightarrow> (bool \<times> int \<times> int) option" where
  "mov_vcs u num_vcs 0 vcid invc = Some (False, vcid, invc)"
| "mov_vcs u num_vcs (Suc k) vcid _ = do {
     let invc = (if vcid \<ge> num_vcs then 0 else vcid);
     b \<leftarrow> iu_vc_isEmpty u invc;
     if \<not> b then Some (True, vcid + 1, invc)
     else mov_vcs u num_vcs k (vcid + 1) invc }"

fun mov_inports :: "nat \<Rightarrow> Router \<Rightarrow> nat \<Rightarrow> int \<Rightarrow> int \<Rightarrow> int \<Rightarrow> (int \<times> int \<times> int) option" where
  "mov_inports whichToSwap r 0 inport vcid invc = Some (inport, vcid, invc)"
| "mov_inports whichToSwap r (Suc k) inport vcid invc = do {
     let inport = (if inport + 1 = get_num_inports r then 0 else inport + 1);
     u \<leftarrow> vec_at (m_input_unit r) inport;
     if whichToSwap = DISABLE_LOCAL_SWAP \<and> m_direction_iu u = ''Local''
     then mov_inports whichToSwap r k inport vcid invc
     else do {
       (found, vcid, invc) \<leftarrow> mov_vcs u (m_num_vcs_r r) (nat (m_num_vcs_r r)) vcid invc;
       if found then Some (inport, vcid, invc)
       else mov_inports whichToSwap r k inport vcid invc } }"

definition movSwapPtr :: "env \<Rightarrow> Router \<Rightarrow> Router option" where
  "movSwapPtr e r = do {
     (inport, vcid, invc) \<leftarrow> mov_inports (m_whichToSwap (cfg e)) r (length (m_input_unit r))
        (sp_inport (swap_ptr r)) (sp_vcid (swap_ptr r)) (-1);
     u \<leftarrow> vec_at (m_input_unit r) inport;
     b \<leftarrow> iu_vc_isEmpty u invc;
     let sp = (if \<not> b
               then (swap_ptr r)\<lparr>sp_inport := inport, sp_inport_dirn := m_direction_iu u,
                      sp_vcid := invc, sp_valid := True\<rparr>
               else (swap_ptr r)\<lparr>sp_vcid := -1, sp_valid := False, sp_inport := -1\<rparr>);
     if sp_valid sp then do {
       cassert (sp_vcid sp \<ge> 0);
       u \<leftarrow> vec_at (m_input_unit r) (sp_inport sp);
       b \<leftarrow> iu_vc_isEmpty u (sp_vcid sp);
       cassert (\<not> b);
       let dirn = map_at [] (m_inports_idx2dirn (m_routing_unit r)) (sp_inport sp);
       cassert (length dirn \<noteq> 0);
       (if m_whichToSwap (cfg e) = DISABLE_LOCAL_SWAP then cassert (dirn \<noteq> ''Local'') else Some ());
       Some (r\<lparr>swap_ptr := sp\<lparr>sp_inport_dirn := dirn\<rparr>\<rparr>) }
     else Some (r\<lparr>swap_ptr := sp\<lparr>sp_vcid := -1, sp_inport := -1\<rparr>\<rparr>) }"

text \<open>
  The scan of \<^verbatim>\<open>Router::wakeup\<close> for a pointer that is not valid: the first non-local input port with
  a flit in the first channel of some virtual network.
\<close>

fun scan_vnets :: "InputUnit \<Rightarrow> int \<Rightarrow> int list \<Rightarrow> int option option" where
  "scan_vnets u vc_per_vnet [] = Some None"
| "scan_vnets u vc_per_vnet (vnet # vnets) = do {
     let invc = vnet * vc_per_vnet;
     b \<leftarrow> iu_vc_isEmpty u invc;
     if \<not> b then Some (Some invc) else scan_vnets u vc_per_vnet vnets }"

fun scan_inports :: "Router \<Rightarrow> int list \<Rightarrow> Router option" where
  "scan_inports r [] = Some r"
| "scan_inports r (inport # inports) = do {
     u \<leftarrow> vec_at (m_input_unit r) inport;
     if m_direction_iu u = ''Local'' then scan_inports r inports
     else do {
       hit \<leftarrow> scan_vnets u (m_vc_per_vnet_r r) [0..m_virtual_networks_r r - 1];
       case hit of
         None \<Rightarrow> scan_inports r inports
       | Some invc \<Rightarrow> do {
           t_flit \<leftarrow> iu_peekTopFlit u invc;
           iu_makeSwapPtrValid (m_direction_iu u) t_flit r } } }"

definition find_swap_ptr :: "Router \<Rightarrow> Router option" where
  "find_swap_ptr r =
     (if sp_valid (swap_ptr r) then Some r else scan_inports r [0..get_num_inports r - 1])"

section \<open>Swapping at one router\<close>

text \<open>\<^verbatim>\<open>double\<close> arithmetic is read as arithmetic on reals.\<close>

definition low_occupancy :: "env \<Rightarrow> Router \<Rightarrow> InputUnit \<Rightarrow> bool option" where
  "low_occupancy e r u =
     (if m_occupancy_swap (cfg e) > 0 then do {
        free_vc \<leftarrow> iu_get_numFreeVC u (m_direction_iu u);
        let occupancy = (1 - real_of_int free_vc / real_of_int (m_vc_per_vnet_r r)) * 100;
        Some (occupancy < real (m_occupancy_swap (cfg e))) }
      else Some False)"

definition outportNotLocal :: "Router \<Rightarrow> env \<Rightarrow> (bool \<times> env) option" where
  "outportNotLocal r e = do {
     let inport = sp_inport (swap_ptr r);
     let vcid = sp_vcid (swap_ptr r);
     u \<leftarrow> vec_at (m_input_unit r) inport;
     low \<leftarrow> low_occupancy e r u;
     if low then Some (False, e)
     else do {
       b \<leftarrow> iu_vc_isEmpty u vcid;
       if b then Some (False, upd_stats (\<lambda>s. s\<lparr>m_total_failed_upstream_empty :=
                                  m_total_failed_upstream_empty s + 1\<rparr>) e)
       else do {
         t_flit \<leftarrow> iu_peekTopFlit u vcid;
         let outport_dir = m_outport_dir t_flit;
         cassert (length outport_dir \<noteq> 0);
         d \<leftarrow> getOutportDirection r (m_outport t_flit);
         cassert (d = outport_dir);
         if outport_dir = ''Local''
         then Some (False, upd_stats (\<lambda>s. s\<lparr>m_total_failed_upstream_localOuport :=
                             m_total_failed_upstream_localOuport s + 1\<rparr>) e)
         else Some (True, e) } } }"

text \<open>
  \<^verbatim>\<open>Router::doSwap\<close>, called on the downstream router: hand out the front flit of the channel,
  unless the channel is empty or the flit is about to leave through a local port. The statement
  on \<^verbatim>\<open>m_total_failed_downstream_localOutport\<close> has no effect. The two branches on
  \<^verbatim>\<open>m_no_is_swap\<close> share the body \<open>offer_flit\<close>.
\<close>

definition offer_flit :: "int \<Rightarrow> int \<Rightarrow> Router \<Rightarrow> env \<Rightarrow> (flit option \<times> Router \<times> env) option" where
  "offer_flit inport vcid r e = do {
     u \<leftarrow> vec_at (m_input_unit r) inport;
     b \<leftarrow> iu_vc_isEmpty u vcid;
     if b then Some (None, r, upd_stats (\<lambda>s. s\<lparr>m_total_failed_downstream_empty :=
                                m_total_failed_downstream_empty s + 1\<rparr>) e)
     else do {
       flit_t \<leftarrow> iu_peekTopFlit u vcid;
       if m_outport_dir flit_t = ''Local'' then Some (None, r, e)
       else do {
         (_, u) \<leftarrow> iu_getTopFlit u vcid;
         r \<leftarrow> upd_iu inport u r;
         Some (Some flit_t, r, e) } } }"

definition Router_doSwap ::
    "PortDirection \<Rightarrow> int \<Rightarrow> Router \<Rightarrow> env \<Rightarrow> (flit option \<times> Router \<times> env) option" where
  "Router_doSwap inport_dirn vcid r e = do {
     cassert (inport_dirn \<noteq> ''Local'');
     let inport = map_at 0 (m_inports_dirn2idx (m_routing_unit r)) inport_dirn;
     if m_no_is_swap (cfg e) = 0 then
       (if is_swap r = False then offer_flit inport vcid r e else Some (None, r, e))
     else if m_no_is_swap (cfg e) = 1 then offer_flit inport vcid r e
     else None }"

text \<open>
  \<^verbatim>\<open>Router::doSwap_enqueue\<close>: recompute the route and put the flit in front of the channel. The
  caller passes \<^verbatim>\<open>inport_id\<close> -1 for the flit that made progress.
\<close>

definition enqueue_inport :: "flit \<Rightarrow> PortDirection \<Rightarrow> int \<Rightarrow> Router \<Rightarrow> env \<Rightarrow> int option" where
  "enqueue_inport flit_t inport_dirn inport_id r e =
     (if inport_id = -1 then do {
        let inport_id = map_at 0 (m_inports_dirn2idx (m_routing_unit r)) inport_dirn;
        cassert (inport_id \<noteq> -1);
        Some inport_id }
      else do {
        (if m_no_is_swap (cfg e) = 0 then cassert (routedSwap flit_t = False) else Some ());
        cassert (map_at [] (m_inports_idx2dirn (m_routing_unit r)) inport_id = inport_dirn);
        Some inport_id })"

definition doSwap_enqueue ::
    "(PortDirection \<Rightarrow> int option) \<Rightarrow> flit \<Rightarrow> PortDirection \<Rightarrow> int \<Rightarrow> int \<Rightarrow> Router \<Rightarrow> env \<Rightarrow>
       (Router \<times> env) option" where
  "doSwap_enqueue free flit_t inport_dirn inport_id vcid r e = do {
     (if m_whichToSwap (cfg e) = ENABLE_LOCAL_SWAP
      then (if inport_id = -1 then cassert (inport_dirn \<noteq> ''Local'') else Some ())
      else cassert (inport_dirn \<noteq> ''Local''));
     (outport, e) \<leftarrow> route_compute free r (m_route flit_t) e;
     let flit_t = set_outport outport flit_t;
     let flit_t = set_outport_dir (map_at [] (m_outports_idx2dirn (m_routing_unit r)) outport) flit_t;
     let flit_t = set_vc vcid flit_t;
     let vc = m_vc flit_t;
     cassert (vc \<noteq> -1);
     inport_id \<leftarrow> enqueue_inport flit_t inport_dirn inport_id r e;
     u \<leftarrow> vec_at (m_input_unit r) inport_id;
     u \<leftarrow> enqueue_flit vc flit_t u;
     r \<leftarrow> upd_iu inport_id u r;
     Some (r, e) }"

section \<open>Turns are exclusive and recurring\<close>

lemma is_myTurn_eq_Some:
  "is_myTurn e n r = Some b \<longleftrightarrow> m_interswap (cfg e) \<and> int (m_whenToSwap (cfg e)) * n \<noteq> 0 \<and>
     b = (int (curCycle e) mod (int (m_whenToSwap (cfg e)) * n) = m_id_r r)"
  by (auto simp: is_myTurn_def bind_Some Let_def)

lemma turn_recurs:
  assumes "0 < (p::int)" "0 \<le> m" "m < p"
  shows "\<exists>k < nat p. int (t + k) mod p = m"
proof -
  define k where "k = nat ((m - int t) mod p)"
  have b: "0 \<le> (m - int t) mod p" "(m - int t) mod p < p" using assms by auto
  then have k: "k < nat p" "int k = (m - int t) mod p" using assms by (auto simp: k_def)
  have "int (t + k) mod p = (int t + (m - int t)) mod p" unfolding of_nat_add k(2) by (simp add: mod_simps)
  then show ?thesis using k(1) assms by auto
qed

section \<open>The invariant of the swap pointer\<close>

text \<open>The shape of a router whose ports were added by \<^verbatim>\<open>addInPort\<close> and \<^verbatim>\<open>addOutPort\<close>.\<close>

definition inputs_wf :: "Router \<Rightarrow> bool" where
  "inputs_wf r \<longleftrightarrow> 0 < m_num_vcs_r r \<and>
     (\<forall>i < length (m_input_unit r).
        int (length (m_vcs (m_input_unit r ! i))) = m_num_vcs_r r \<and>
        m_direction_iu (m_input_unit r ! i) \<noteq> [] \<and>
        m_inports_idx2dirn (m_routing_unit r) (int i) = Some (m_direction_iu (m_input_unit r ! i)))"

definition sp_skips :: "nat \<Rightarrow> Router \<Rightarrow> int \<Rightarrow> bool" where
  "sp_skips which r i \<longleftrightarrow> which = DISABLE_LOCAL_SWAP \<and> m_direction_iu (m_input_unit r ! nat i) = ''Local''"

definition vc_empty_at :: "Router \<Rightarrow> int \<Rightarrow> int \<Rightarrow> bool" where
  "vc_empty_at r i v = vc_isEmpty (m_vcs (m_input_unit r ! nat i) ! nat v)"

text \<open>The pointer names an input port and a channel that exist and may be swapped.\<close>

definition sp_in_range :: "nat \<Rightarrow> Router \<Rightarrow> bool" where
  "sp_in_range which r \<longleftrightarrow>
     0 \<le> sp_inport (swap_ptr r) \<and> sp_inport (swap_ptr r) < get_num_inports r \<and>
     0 \<le> sp_vcid (swap_ptr r) \<and> sp_vcid (swap_ptr r) < m_num_vcs_r r \<and>
     sp_inport_dirn (swap_ptr r) = m_direction_iu (m_input_unit r ! nat (sp_inport (swap_ptr r))) \<and>
     \<not> sp_skips which r (sp_inport (swap_ptr r))"

definition swap_ptr_ok :: "nat \<Rightarrow> Router \<Rightarrow> bool" where
  "swap_ptr_ok which r \<longleftrightarrow>
     (if sp_valid (swap_ptr r)
      then sp_in_range which r \<and> \<not> vc_empty_at r (sp_inport (swap_ptr r)) (sp_vcid (swap_ptr r))
      else sp_vcid (swap_ptr r) = -1 \<and> sp_inport (swap_ptr r) = -1)"

lemma iu_empty_at:
  assumes "inputs_wf r" "0 \<le> i" "i < get_num_inports r" "0 \<le> v" "v < m_num_vcs_r r"
  shows "iu_vc_isEmpty (m_input_unit r ! nat i) v = Some (vc_empty_at r i v)"
  using assms by (auto simp: iu_vc_isEmpty_eq_Some vc_empty_at_def inputs_wf_def get_num_inports_def)

lemma mov_vcs_spec:
  assumes N: "0 < N" "\<And>v. 0 \<le> v \<Longrightarrow> v < N \<Longrightarrow> iu_vc_isEmpty u v = Some (E v)" and "0 \<le> vcid"
  shows "\<exists>found vcid' invc'. mov_vcs u N k vcid invc = Some (found, vcid', invc') \<and> 0 \<le> vcid' \<and>
    (if found then 0 \<le> invc' \<and> invc' < N \<and> \<not> E invc'
     else (0 < k \<longrightarrow> 0 \<le> invc' \<and> invc' < N \<and> E invc') \<and>
       (\<forall>j < k. E (if vcid + int j \<ge> N then 0 else vcid + int j)))"
  using assms(3)
proof (induction k arbitrary: vcid invc)
  case (Suc k)
  let ?i = "if vcid \<ge> N then 0 else vcid"
  have i: "0 \<le> ?i" "?i < N" using N(1) Suc.prems by auto
  show ?case
  proof (cases "E ?i")
    case True
    obtain found vcid' invc' where IH: "mov_vcs u N k (vcid + 1) ?i = Some (found, vcid', invc')" "0 \<le> vcid'"
      "if found then 0 \<le> invc' \<and> invc' < N \<and> \<not> E invc'
       else (0 < k \<longrightarrow> 0 \<le> invc' \<and> invc' < N \<and> E invc') \<and>
         (\<forall>j < k. E (if vcid + 1 + int j \<ge> N then 0 else vcid + 1 + int j))"
      using Suc.IH [of "vcid + 1" ?i] Suc.prems by auto
    have run: "mov_vcs u N (Suc k) vcid invc = Some (found, vcid', invc')"
      using IH(1) N(2) [OF i] True by (simp add: Let_def)
    have last: "invc' = ?i" if "\<not> found" "k = 0" using IH(1) that by simp
    have all: "E (if vcid + int j \<ge> N then 0 else vcid + int j)" if "\<not> found" "j < Suc k" for j
    proof (cases j)
      case (Suc j')
      then have "j' < k" using that(2) by simp
      then have "E (if vcid + 1 + int j' \<ge> N then 0 else vcid + 1 + int j')" using IH(3) that(1) by auto
      moreover have "vcid + 1 + int j' = vcid + int j" using Suc by simp
      ultimately show ?thesis by (simp only:)
    qed (use True in \<open>simp split: if_splits\<close>)
    show ?thesis unfolding run using IH(2,3) last all i True by (cases k) auto
  next
    case False
    then have "mov_vcs u N (Suc k) vcid invc = Some (True, vcid + 1, ?i)"
      using N(2) [OF i] by (simp add: Let_def)
    then show ?thesis using i False Suc.prems by (intro exI [of _ True]) auto
  qed
next
  case 0
  then show ?case by (intro exI [of _ False]) simp
qed

text \<open>A fruitless scan of one port has seen channel 0, wherever it started.\<close>

lemma mov_vcs_sees_0:
  assumes "\<forall>j < nat N. E (if vcid + int j \<ge> N then 0 else vcid + int j)" "0 < N" "0 \<le> vcid"
  shows "E (0::int)"
proof (cases "vcid < N")
  case True
  show ?thesis
  proof (cases "vcid = 0")
    case False
    then have "nat (N - vcid) < nat N" using True assms by linarith
    then show ?thesis using assms(1) True by (auto dest!: spec [of _ "nat (N - vcid)"])
  qed (use assms in \<open>auto dest!: spec [of _ 0]\<close>)
qed (use assms in \<open>auto dest!: spec [of _ 0]\<close>)

text \<open>
  How \<open>k\<close> rounds of the outer loop from port \<open>p\<close> end: at an occupied channel, or back at the
  \<open>k\<close>-th next port with channel 0 of every visited port empty.
\<close>

definition mov_ends :: "nat \<Rightarrow> Router \<Rightarrow> nat \<Rightarrow> int \<Rightarrow> int \<Rightarrow> int \<Rightarrow> bool" where
  "mov_ends w r k p p' q \<longleftrightarrow> 0 \<le> p' \<and> p' < get_num_inports r \<and>
    (\<not> sp_skips w r p' \<and> 0 \<le> q \<and> q < m_num_vcs_r r \<and> \<not> vc_empty_at r p' q \<or>
     p' = (wrap_inc (get_num_inports r) ^^ k) p \<and>
     (0 < k \<and> \<not> sp_skips w r p' \<longrightarrow> 0 \<le> q \<and> q < m_num_vcs_r r \<and> vc_empty_at r p' q) \<and>
     (\<forall>j. 0 < j \<and> j \<le> k \<longrightarrow> \<not> sp_skips w r ((wrap_inc (get_num_inports r) ^^ j) p) \<longrightarrow>
        vc_empty_at r ((wrap_inc (get_num_inports r) ^^ j) p) 0))"

lemma mov_ends_Suc:
  assumes e: "mov_ends w r k (wrap_inc (get_num_inports r) p) p' q'"
    and here: "\<not> sp_skips w r (wrap_inc (get_num_inports r) p) \<Longrightarrow>
      vc_empty_at r (wrap_inc (get_num_inports r) p) 0 \<and>
      (k = 0 \<longrightarrow> 0 \<le> q' \<and> q' < m_num_vcs_r r \<and> vc_empty_at r (wrap_inc (get_num_inports r) p) q')"
  shows "mov_ends w r (Suc k) p p' q'"
proof -
  let ?w = "wrap_inc (get_num_inports r)"
  note later = funpow_range_Suc [of k "\<lambda>x. \<not> sp_skips w r x \<longrightarrow> vc_empty_at r x 0" ?w p]
  have "(?w ^^ Suc k) p = (?w ^^ k) (?w p)" by (simp add: funpow_swap1)
  then show ?thesis using e here unfolding mov_ends_def later by (cases k) auto
qed

lemma mov_inports_spec:
  assumes wf: "inputs_wf r" and "0 \<le> p" "p < get_num_inports r" "0 \<le> v"
  shows "\<exists>p' v' q. mov_inports w r k p v invc = Some (p', v', q) \<and> mov_ends w r k p p' q"
  using assms(2-4)
proof (induction k arbitrary: p v invc)
  case 0
  then show ?case by (simp add: mov_ends_def)
next
  case (Suc k)
  let ?n = "get_num_inports r" and ?N = "m_num_vcs_r r"
  let ?p = "wrap_inc ?n p"
  have N: "0 < ?N" using wf by (simp add: inputs_wf_def)
  have wrap: "(if p + 1 = ?n then 0 else p + 1) = ?p" using Suc.prems by (auto simp: wrap_inc_def)
  have pb: "0 \<le> ?p" "?p < ?n" using wrap_inc_bounds [of p ?n] Suc.prems by auto
  have u: "vec_at (m_input_unit r) ?p = Some (m_input_unit r ! nat ?p)"
    using pb by (simp add: get_num_inports_def)
  show ?case
  proof (cases "sp_skips w r ?p")
    case True
    then have run: "mov_inports w r (Suc k) p v invc = mov_inports w r k ?p v invc"
      using u by (simp add: wrap sp_skips_def Let_def)
    show ?thesis unfolding run using Suc.IH [OF pb Suc.prems(3), of invc] mov_ends_Suc True by blast
  next
    case False
    obtain found v' q where m: "mov_vcs (m_input_unit r ! nat ?p) ?N (nat ?N) v invc = Some (found, v', q)"
      "0 \<le> v'" "if found then 0 \<le> q \<and> q < ?N \<and> \<not> vc_empty_at r ?p q
       else (0 < nat ?N \<longrightarrow> 0 \<le> q \<and> q < ?N \<and> vc_empty_at r ?p q) \<and>
         (\<forall>j < nat ?N. vc_empty_at r ?p (if v + int j \<ge> ?N then 0 else v + int j))"
      using mov_vcs_spec [OF N iu_empty_at [OF wf pb] Suc.prems(3)] by blast
    have step: "mov_inports w r (Suc k) p v invc =
        (if found then Some (?p, v', q) else mov_inports w r k ?p v' q)"
      using u m(1) False by (auto simp: wrap sp_skips_def Let_def)
    show ?thesis
    proof (cases found)
      case True
      then show ?thesis using step m(3) pb False by (auto simp: mov_ends_def)
    next
      case nf: False
      have z: "vc_empty_at r ?p 0"
        using mov_vcs_sees_0 [of ?N "vc_empty_at r ?p" v] m(3) nf N Suc.prems(3) by auto
      have q: "0 \<le> q \<and> q < ?N \<and> vc_empty_at r ?p q" using m(3) nf N by auto
      obtain p' v'' q' where IH: "mov_inports w r k ?p v' q = Some (p', v'', q')" "mov_ends w r k ?p p' q'"
        using Suc.IH [OF pb m(2)] by blast
      have "k = 0 \<longrightarrow> q' = q" using IH(1) by auto
      then have "mov_ends w r (Suc k) p p' q'" using mov_ends_Suc [OF IH(2)] z q by blast
      then show ?thesis using step nf IH(1) by auto
    qed
  qed
qed

text \<open>
  \<^verbatim>\<open>movSwapPtr\<close> from a pointer in range: no assertion fires, only the pointer changes, and it
  ends at an occupied, swappable channel or is switched off.
\<close>

lemma movSwapPtr_cases:
  assumes wf: "inputs_wf r" and sp: "sp_in_range (m_whichToSwap (cfg e)) r"
  obtains (found) p q where "0 \<le> p" "p < get_num_inports r" "\<not> sp_skips (m_whichToSwap (cfg e)) r p"
      "0 \<le> q" "q < m_num_vcs_r r" "\<not> vc_empty_at r p q"
      "movSwapPtr e r = Some (r\<lparr>swap_ptr := (swap_ptr r)\<lparr>sp_valid := True, sp_inport := p, sp_vcid := q,
         sp_inport_dirn := m_direction_iu (m_input_unit r ! nat p)\<rparr>\<rparr>)"
  | (off) "movSwapPtr e r = Some (r\<lparr>swap_ptr := (swap_ptr r)\<lparr>sp_valid := False, sp_inport := -1, sp_vcid := -1\<rparr>\<rparr>)"
      "\<And>i. 0 \<le> i \<Longrightarrow> i < get_num_inports r \<Longrightarrow> \<not> sp_skips (m_whichToSwap (cfg e)) r i \<Longrightarrow> vc_empty_at r i 0"
proof -
  let ?w = "m_whichToSwap (cfg e)" and ?n = "get_num_inports r" and ?p0 = "sp_inport (swap_ptr r)"
  have p0: "0 \<le> ?p0" "?p0 < ?n" "0 \<le> sp_vcid (swap_ptr r)" "\<not> sp_skips ?w r ?p0"
    using sp by (auto simp: sp_in_range_def)
  obtain p v q where run: "mov_inports ?w r (length (m_input_unit r)) ?p0 (sp_vcid (swap_ptr r)) (-1) = Some (p, v, q)"
    and ends: "mov_ends ?w r (length (m_input_unit r)) ?p0 p q"
    using mov_inports_spec [OF wf p0(1-3)] by blast
  have len: "length (m_input_unit r) = nat ?n" "0 < nat ?n" using p0 by (auto simp: get_num_inports_def)
  have full: "(wrap_inc ?n ^^ nat ?n) ?p0 = ?p0" using wrap_inc_iter [OF p0(1,2)] p0 by simp
  have pb: "0 \<le> p" "p < ?n" using ends by (auto simp: mov_ends_def)
  have u: "vec_at (m_input_unit r) p = Some (m_input_unit r ! nat p)" using pb by (simp add: get_num_inports_def)
  have q: "0 \<le> q" "q < m_num_vcs_r r" using ends full p0(4) unfolding mov_ends_def len(1) using len(2) by auto
  note qe = iu_empty_at [OF wf pb q]
  have d: "m_inports_idx2dirn (m_routing_unit r) p = Some (m_direction_iu (m_input_unit r ! nat p))"
    "m_direction_iu (m_input_unit r ! nat p) \<noteq> []"
    using wf pb by (auto simp: inputs_wf_def get_num_inports_def dest!: spec [of _ "nat p"])
  show thesis
  proof (cases "vc_empty_at r p q")
    case False
    have ns: "\<not> sp_skips ?w r p" using ends False full p0(4) unfolding mov_ends_def len(1) by auto
    have "movSwapPtr e r = Some (r\<lparr>swap_ptr := (swap_ptr r)\<lparr>sp_valid := True, sp_inport := p, sp_vcid := q,
         sp_inport_dirn := m_direction_iu (m_input_unit r ! nat p)\<rparr>\<rparr>)"
      unfolding movSwapPtr_def using run u qe False q d ns by (auto simp: Let_def sp_skips_def)
    then show thesis using found pb ns q False by blast
  next
    case True
    have all: "vc_empty_at r i 0" if i: "0 \<le> i" "i < ?n" "\<not> sp_skips ?w r i" for i
    proof -
      obtain k where k: "k < nat ?n" "(wrap_inc ?n ^^ k) ?p0 = i"
        using wrap_inc_covers [OF p0(1,2) i(1,2)] by blast
      define j where "j = (if k = 0 then nat ?n else k)"
      have j: "0 < j" "j \<le> nat ?n" "(wrap_inc ?n ^^ j) ?p0 = i"
        using k full len(2) by (auto simp: j_def)
      have "\<forall>j. 0 < j \<and> j \<le> nat ?n \<longrightarrow> \<not> sp_skips ?w r ((wrap_inc ?n ^^ j) ?p0) \<longrightarrow>
          vc_empty_at r ((wrap_inc ?n ^^ j) ?p0) 0"
        using ends True unfolding mov_ends_def len(1) by auto
      from this [rule_format, of j] show ?thesis unfolding j(3) using j(1,2) i(3) by blast
    qed
    have "movSwapPtr e r = Some (r\<lparr>swap_ptr := (swap_ptr r)\<lparr>sp_valid := False, sp_inport := -1, sp_vcid := -1\<rparr>\<rparr>)"
      unfolding movSwapPtr_def using run u qe True by (simp add: Let_def)
    then show thesis using off all by blast
  qed
qed

lemma movSwapPtr_ok:
  assumes "inputs_wf r" "sp_in_range (m_whichToSwap (cfg e)) r"
  shows "\<exists>sp. movSwapPtr e r = Some (r\<lparr>swap_ptr := sp\<rparr>) \<and> swap_ptr_ok (m_whichToSwap (cfg e)) (r\<lparr>swap_ptr := sp\<rparr>)"
  using assms
proof (cases rule: movSwapPtr_cases)
  case (found p q)
  then show ?thesis
    by (auto simp: swap_ptr_ok_def sp_in_range_def sp_skips_def vc_empty_at_def get_num_inports_def)
next
  case off
  then show ?thesis
    by (intro exI [of _ "(swap_ptr r)\<lparr>sp_valid := False, sp_inport := -1, sp_vcid := -1\<rparr>"])
      (simp add: swap_ptr_ok_def)
qed

lemma movSwapPtr_off:
  assumes "inputs_wf r" "sp_in_range (m_whichToSwap (cfg e)) r" "movSwapPtr e r = Some r'"
    "\<not> sp_valid (swap_ptr r')" "0 \<le> i" "i < get_num_inports r" "\<not> sp_skips (m_whichToSwap (cfg e)) r i"
  shows "vc_empty_at r i 0"
  using assms(1,2)
proof (cases rule: movSwapPtr_cases)
  case (found p q)
  then show ?thesis using assms(3,4) by simp
qed (use assms in blast)

section \<open>A swap loses and invents nothing\<close>

text \<open>
  The part of a flit a swap must not touch; the output port, the channel and the swap mark are
  recomputed.
\<close>

definition payload :: "flit \<Rightarrow> flit" where
  "payload f = f\<lparr>m_vc := 0, m_outport := 0, m_outport_dir := [], routedSwap := False\<rparr>"

lemma m_vc_set_vc [simp]: "m_vc (set_vc v f) = v"
  by (simp add: set_vc_def)

lemma payload_updates [simp]:
  "payload (set_outport p f) = payload f" "payload (set_outport_dir d f) = payload f"
  "payload (set_vc v f) = payload f" "payload (set_RoutedSwap f) = payload f"
  "payload (unset_RoutedSwap f) = payload f"
  by (simp_all add: payload_def flit_updates)

text \<open>How many flits each channel of each input port holds.\<close>

definition occupancy :: "Router \<Rightarrow> nat list list" where
  "occupancy r = map (\<lambda>u. map vc_len (m_vcs u)) (m_input_unit r)"

text \<open>Replace channel \<open>v\<close> of input port \<open>i\<close>.\<close>

definition put_vc :: "int \<Rightarrow> int \<Rightarrow> VirtualChannel \<Rightarrow> Router \<Rightarrow> Router" where
  "put_vc i v x r = r\<lparr>m_input_unit := (m_input_unit r)[nat i :=
     (m_input_unit r ! nat i)\<lparr>m_vcs := (m_vcs (m_input_unit r ! nat i))[nat v := x]\<rparr>]\<rparr>"

definition get_vc :: "int \<Rightarrow> int \<Rightarrow> Router \<Rightarrow> VirtualChannel" where
  "get_vc i v r = m_vcs (m_input_unit r ! nat i) ! nat v"

definition has_vc :: "int \<Rightarrow> int \<Rightarrow> Router \<Rightarrow> bool" where
  "has_vc i v r \<longleftrightarrow> 0 \<le> i \<and> i < int (length (m_input_unit r)) \<and>
     0 \<le> v \<and> v < int (length (m_vcs (m_input_unit r ! nat i)))"

lemma get_put_vc [simp]:
  "has_vc i v r \<Longrightarrow> get_vc i v (put_vc i v x r) = x" "has_vc i v (put_vc j w x r) = has_vc i v r"
  "put_vc i v y (put_vc i v x r) = put_vc i v y r"
proof -
  show "has_vc i v r \<Longrightarrow> get_vc i v (put_vc i v x r) = x"
    by (auto simp: get_vc_def put_vc_def has_vc_def)
  show "has_vc i v (put_vc j w x r) = has_vc i v r"
    by (cases "nat j < length (m_input_unit r)")
      (auto simp: put_vc_def has_vc_def nth_list_update list_update_beyond)
  show "put_vc i v y (put_vc i v x r) = put_vc i v y r"
    by (cases "nat i < length (m_input_unit r)") (auto simp: put_vc_def list_update_beyond)
qed

lemma put_get_vc [simp]: "put_vc i v (get_vc i v r) r = r"
  by (simp add: put_vc_def get_vc_def)

lemma vc_part_put:
  assumes "has_vc i v r"
  shows "vc_part (put_vc i v x r) + vc_flits (get_vc i v r) = vc_part r + vc_flits x"
proof -
  have i: "nat i < length (m_input_unit r)" and v: "nat v < length (m_vcs (m_input_unit r ! nat i))"
    using assms by (auto simp: has_vc_def)
  let ?u = "m_input_unit r ! nat i"
  have a: "vc_part (put_vc i v x r) + iu_flits ?u =
      vc_part r + iu_flits (?u\<lparr>m_vcs := (m_vcs ?u)[nat v := x]\<rparr>)"
    using vc_part_upd [OF i] by (simp add: put_vc_def)
  show ?thesis unfolding get_vc_def by (rule mset_exchange [OF a iu_flits_upd [OF v]])
qed

lemma occupancy_put:
  assumes "has_vc i v r" "vc_len x = vc_len (get_vc i v r)"
  shows "occupancy (put_vc i v x r) = occupancy r"
proof -
  have "map vc_len ((m_vcs (m_input_unit r ! nat i))[nat v := x]) = map vc_len (m_vcs (m_input_unit r ! nat i))"
    using assms by (intro nth_equalityI) (auto simp: get_vc_def has_vc_def nth_list_update)
  then show ?thesis using assms
    by (intro nth_equalityI)
      (auto simp: occupancy_def put_vc_def get_vc_def has_vc_def nth_list_update)
qed

lemma offer_flit_Some:
  assumes "offer_flit i v r e = Some (Some f, r', e')"
  shows "has_vc i v r \<and> e' = e \<and> m_outport_dir f \<noteq> ''Local'' \<and> vc_peekTopFlit (get_vc i v r) = Some f \<and>
    (\<exists>x. vc_getTopFlit (get_vc i v r) = Some (f, x) \<and> r' = put_vc i v x r)"
  using assms
  by (auto simp: offer_flit_def bind_Some vec_at_eq_Some iu_run_simps upd_iu_eq_Some has_vc_def get_vc_def
      put_vc_def vc_getTop_eq_Some vc_peek_eq split: if_splits)

lemma offer_flit_None:
  "offer_flit i v r e = Some (None, r', e') \<Longrightarrow> r' = r \<and> cfg e' = cfg e \<and> curCycle e' = curCycle e"
  by (auto simp: offer_flit_def bind_Some upd_stats_def split: if_splits)

definition enqueue_port :: "PortDirection \<Rightarrow> int \<Rightarrow> Router \<Rightarrow> int" where
  "enqueue_port inport_dirn inport_id r =
     (if inport_id = -1 then map_at 0 (m_inports_dirn2idx (m_routing_unit r)) inport_dirn else inport_id)"

lemma enqueue_inport_Some: "enqueue_inport f d p r e = Some i \<Longrightarrow> i = enqueue_port d p r"
  by (auto simp: enqueue_inport_def enqueue_port_def bind_Some Let_def split: if_splits)

lemma doSwap_enqueue_Some:
  assumes "doSwap_enqueue free f d p v r e = Some (r', e')"
  shows "rng_only e e' \<and> has_vc (enqueue_port d p r) v r \<and>
    (\<exists>f'. payload f' = payload f \<and> m_vc f' = v \<and> routedSwap f' = routedSwap f \<and>
       r' = put_vc (enqueue_port d p r) v (vc_insertFlitAtTop f' (get_vc (enqueue_port d p r) v r)) r)"
proof -
  define i where "i = enqueue_port d p r"
  obtain outport e1 u1 u2 where rc: "route_compute free r (m_route f) e = Some (outport, e1)"
    and u: "vec_at (m_input_unit r) i = Some u1"
      "enqueue_flit v (set_vc v (set_outport_dir (map_at [] (m_outports_idx2dirn (m_routing_unit r)) outport)
          (set_outport outport f))) u1 = Some u2" "upd_iu i u2 r = Some r'" and e': "e' = e1"
    using assms
    by (auto simp: doSwap_enqueue_def bind_Some Let_def i_def dest!: enqueue_inport_Some)
  let ?f = "set_vc v (set_outport_dir (map_at [] (m_outports_idx2dirn (m_routing_unit r)) outport)
          (set_outport outport f))"
  have "has_vc i v r" "r' = put_vc i v (vc_insertFlitAtTop ?f (get_vc i v r)) r"
    using u by (auto simp: enqueue_flit_def vec_at_eq_Some iu_upd_vc_eq_Some upd_iu_eq_Some has_vc_def
        put_vc_def get_vc_def)
  moreover have "payload ?f = payload f" by simp
  moreover have "m_vc ?f = v" "routedSwap ?f = routedSwap f" by (simp_all add: flit_updates)
  moreover have "rng_only e e'" using rc e' by (auto simp: route_compute_def dest: outportCompute_rng)
  ultimately show ?thesis unfolding i_def by blast
qed

section \<open>What the pointer operations and the swap halves change\<close>

lemma movSwapPtr_frame: "movSwapPtr e r = Some r' \<Longrightarrow> \<exists>sp. r' = r\<lparr>swap_ptr := sp\<rparr>"
  by (auto simp: movSwapPtr_def bind_Some Let_def split: if_splits)

lemma iu_makeSwapPtrValid_frame: "iu_makeSwapPtrValid d f r = Some r' \<Longrightarrow> \<exists>sp. r' = r\<lparr>swap_ptr := sp\<rparr>"
  by (auto simp: iu_makeSwapPtrValid_def Router_makeSwapPtrValid_def bind_Some split: if_splits
      intro: exI [of _ "swap_ptr r"])

lemma scan_inports_frame: "scan_inports r is = Some r' \<Longrightarrow> \<exists>sp. r' = r\<lparr>swap_ptr := sp\<rparr>"
proof (induction "is")
  case Nil
  then show ?case by (intro exI [of _ "swap_ptr r"]) simp
next
  case (Cons i "is")
  then show ?case
    by (auto simp: bind_Some split: if_splits option.splits dest: iu_makeSwapPtrValid_frame)
qed

lemma find_swap_ptr_frame: "find_swap_ptr r = Some r' \<Longrightarrow> \<exists>sp. r' = r\<lparr>swap_ptr := sp\<rparr>"
  using scan_inports_frame by (auto simp: find_swap_ptr_def split: if_splits intro: exI [of _ "swap_ptr r"])

text \<open>The swap flags and the pointer are no place for a flit.\<close>

lemma parts_swap_fields [simp]:
  "vc_part (r\<lparr>swap_ptr := sp\<rparr>) = vc_part r" "xbar_part (r\<lparr>swap_ptr := sp\<rparr>) = xbar_part r"
  "out_part (r\<lparr>swap_ptr := sp\<rparr>) = out_part r" "vc_part (r\<lparr>is_swap := b\<rparr>) = vc_part r"
  "xbar_part (r\<lparr>is_swap := b\<rparr>) = xbar_part r" "out_part (r\<lparr>is_swap := b\<rparr>) = out_part r"
  "vc_part (r\<lparr>send_routedSwap := b\<rparr>) = vc_part r" "xbar_part (r\<lparr>send_routedSwap := b\<rparr>) = xbar_part r"
  "out_part (r\<lparr>send_routedSwap := b\<rparr>) = out_part r"
  by (simp_all add: vc_part_def xbar_part_def out_part_def)

lemma parts_put_vc [simp]:
  "xbar_part (put_vc i v x r) = xbar_part r" "out_part (put_vc i v x r) = out_part r"
  "m_id_r (put_vc i v x r) = m_id_r r"
  by (simp_all add: put_vc_def xbar_part_def out_part_def)

lemma packet_payload: "payload f = payload g \<Longrightarrow> packet f = packet g"
proof -
  have *: "packet (payload f) = packet f" for f by (simp add: packet_def payload_def)
  show "payload f = payload g \<Longrightarrow> packet f = packet g" using * [of f] * [of g] by simp
qed

text \<open>Writing through the front pointer keeps the channel's packets when it keeps the front's.\<close>

lemma vc_updTop_packets:
  assumes "vc_updTopFlit g v = Some v'" "\<And>f. packet (g f) = packet f"
  shows "image_mset packet (vc_flits v') = image_mset packet (vc_flits v)"
  using assms by (cases "m_buffer (m_input_buffer v)")
    (auto simp: vc_updTop_eq_Some vc_flits_def fb_items_def vc_isEmpty_iff)

lemma vc_part_put_packets:
  assumes "has_vc i v r" "image_mset packet (vc_flits x) = image_mset packet (vc_flits (get_vc i v r))"
  shows "image_mset packet (vc_part (put_vc i v x r)) = image_mset packet (vc_part r)"
proof -
  have "image_mset packet (vc_part (put_vc i v x r) + vc_flits (get_vc i v r)) =
      image_mset packet (vc_part r + vc_flits x)" using vc_part_put [OF assms(1)] by simp
  then show ?thesis using assms(2) by simp
qed

lemma vc_access_swap_fields [simp]:
  "has_vc i v (r\<lparr>swap_ptr := sp\<rparr>) = has_vc i v r" "get_vc i v (r\<lparr>swap_ptr := sp\<rparr>) = get_vc i v r"
  "put_vc i v x (r\<lparr>swap_ptr := sp\<rparr>) = (put_vc i v x r)\<lparr>swap_ptr := sp\<rparr>"
  "has_vc i v (r\<lparr>is_swap := b\<rparr>) = has_vc i v r" "get_vc i v (r\<lparr>is_swap := b\<rparr>) = get_vc i v r"
  "put_vc i v x (r\<lparr>is_swap := b\<rparr>) = (put_vc i v x r)\<lparr>is_swap := b\<rparr>"
  "has_vc i v (r\<lparr>send_routedSwap := b\<rparr>) = has_vc i v r" "get_vc i v (r\<lparr>send_routedSwap := b\<rparr>) = get_vc i v r"
  "put_vc i v x (r\<lparr>send_routedSwap := b\<rparr>) = (put_vc i v x r)\<lparr>send_routedSwap := b\<rparr>"
  by (simp_all add: has_vc_def get_vc_def put_vc_def)

section \<open>Properties\<close>

text \<open>C8. In every cycle at most one router may start a swap, and every router may start one within \<^verbatim>\<open>whenToSwap\<close> times the
  number of routers cycles.\<close>

theorem swap_turns_exclusive_and_recurring:
  assumes "m_interswap (cfg e)" "0 < m_whenToSwap (cfg e)" "0 \<le> m_id_r r" "m_id_r r < n"
  shows "(\<forall>r'. is_myTurn e n r = Some True \<longrightarrow> is_myTurn e n r' = Some True \<longrightarrow> m_id_r r' = m_id_r r) \<and>
    (\<exists>k < m_whenToSwap (cfg e) * nat n. is_myTurn (e\<lparr>curCycle := curCycle e + k\<rparr>) n r = Some True)"
proof
  show "\<forall>r'. is_myTurn e n r = Some True \<longrightarrow> is_myTurn e n r' = Some True \<longrightarrow> m_id_r r' = m_id_r r"
    by (simp add: is_myTurn_eq_Some)
  let ?p = "int (m_whenToSwap (cfg e)) * n"
  have n: "0 < n" using assms(3,4) by simp
  then have "1 * n \<le> ?p" using assms(2) by (intro mult_right_mono) simp_all
  then have p: "0 < ?p" "m_id_r r < ?p" using n assms(4) by linarith+
  obtain k where "k < nat ?p" "int (curCycle e + k) mod ?p = m_id_r r" using turn_recurs [OF p(1) assms(3) p(2)] by blast
  then show "\<exists>k < m_whenToSwap (cfg e) * nat n. is_myTurn (e\<lparr>curCycle := curCycle e + k\<rparr>) n r = Some True"
    using assms p by (auto simp: is_myTurn_eq_Some nat_mult_distrib)
qed

theorem swap_turns_exclusive_and_recurring_witness:
  "let e = sample_env 5; r = Router_new 2 1 1 1 in
   (\<forall>r'. is_myTurn e 4 r = Some True \<longrightarrow> is_myTurn e 4 r' = Some True \<longrightarrow> m_id_r r' = m_id_r r) \<and>
   (\<exists>k < m_whenToSwap (cfg e) * nat 4. is_myTurn (e\<lparr>curCycle := curCycle e + k\<rparr>) 4 r = Some True)"
proof -
  have h: "m_interswap (cfg (sample_env 5))" "0 < m_whenToSwap (cfg (sample_env 5))" "0 \<le> m_id_r (Router_new 2 1 1 1)"
    "m_id_r (Router_new 2 1 1 1) < 4" by (simp_all add: sample_env_def sample_cfg_def Router_new_def)
  show ?thesis unfolding Let_def using swap_turns_exclusive_and_recurring [OF h] .
qed

text \<open>C9. Moving the swap pointer on from a position in range never fails an assertion; it changes the pointer only, and the new
  pointer is at an existing channel that holds a flit and may be swapped, or it is switched off, and then
  the first channel of every port that may be swapped is empty.\<close>

theorem movSwapPtr_keeps_invariant:
  assumes "inputs_wf r" "sp_in_range (m_whichToSwap (cfg e)) r"
  shows "\<exists>sp. movSwapPtr e r = Some (r\<lparr>swap_ptr := sp\<rparr>) \<and> swap_ptr_ok (m_whichToSwap (cfg e)) (r\<lparr>swap_ptr := sp\<rparr>) \<and>
    (\<not> sp_valid sp \<longrightarrow> (\<forall>i. 0 \<le> i \<and> i < get_num_inports r \<and> \<not> sp_skips (m_whichToSwap (cfg e)) r i \<longrightarrow> vc_empty_at r i 0))"
proof -
  obtain sp where sp: "movSwapPtr e r = Some (r\<lparr>swap_ptr := sp\<rparr>)" "swap_ptr_ok (m_whichToSwap (cfg e)) (r\<lparr>swap_ptr := sp\<rparr>)"
    using movSwapPtr_ok [OF assms] by blast
  then show ?thesis using movSwapPtr_off [OF assms sp(1)] by auto
qed

text \<open>A router with the input ports West and East, two channels each, and flits in the given channels.\<close>

definition two_port_unit :: "int \<Rightarrow> PortDirection \<Rightarrow> VirtualChannel list \<Rightarrow> InputUnit" where
  "two_port_unit i d vs = \<lparr>m_id_iu = i, m_direction_iu = d, m_num_vcs_iu = 2, m_vc_per_vnet_iu = 2, m_in_link = 0,
     m_credit_link_iu = 0, creditQueue = flitBuffer_new, m_vcs = vs, m_num_buffer_writes = [0], m_num_buffer_reads = [0]\<rparr>"

definition two_port_router :: "VirtualChannel list \<Rightarrow> VirtualChannel list \<Rightarrow> Router" where
  "two_port_router ws es = (Router_new 0 1 1 2)\<lparr>
     m_routing_unit := addInDirection ''East'' 1 (addInDirection ''West'' 0 RoutingUnit_new),
     m_input_unit := [two_port_unit 0 ''West'' ws, two_port_unit 1 ''East'' es],
     swap_ptr := \<lparr>sp_valid = True, sp_inport = 0, sp_vcid = 0, sp_vnet_id = 0, sp_inport_dirn = ''West''\<rparr>\<rparr>"

definition empty_vc :: VirtualChannel where
  "empty_vc = VirtualChannel_new 0"

definition full_vc :: VirtualChannel where
  "full_vc = vc_insertFlit (sample_flit 0 1 0) (set_active 1 (VirtualChannel_new 0))"

lemmas two_port_defs = two_port_router_def two_port_unit_def empty_vc_def full_vc_def Router_new_def addInDirection_def
  RoutingUnit_new_def VirtualChannel_new_def set_active_def vc_insertFlit_def sample_env_def sample_cfg_def
  DISABLE_LOCAL_SWAP_def flitBuffer_new_def fb_insert_def push_heap_def sift_up.simps

lemma two_port_ok:
  assumes "length ws = 2" "length es = 2"
  shows "inputs_wf (two_port_router ws es)" "sp_in_range (m_whichToSwap (cfg (sample_env 0))) (two_port_router ws es)"
  using assms by (auto simp: inputs_wf_def sp_in_range_def sp_skips_def get_num_inports_def two_port_defs nth_Cons' less_Suc_eq)

theorem movSwapPtr_keeps_invariant_witness:
  "\<exists>sp. movSwapPtr (sample_env 0) (two_port_router [full_vc, full_vc] [full_vc, full_vc]) =
      Some ((two_port_router [full_vc, full_vc] [full_vc, full_vc])\<lparr>swap_ptr := sp\<rparr>) \<and>
    swap_ptr_ok (m_whichToSwap (cfg (sample_env 0))) ((two_port_router [full_vc, full_vc] [full_vc, full_vc])\<lparr>swap_ptr := sp\<rparr>)"
  using movSwapPtr_keeps_invariant [OF two_port_ok, of "[full_vc, full_vc]" "[full_vc, full_vc]"] by auto


text \<open>C28. The turn test multiplies with the number of the policy, not with the number of rounds the policy stands for: for the ten
  policies of \<^verbatim>\<open>when_to_swap\<close> it agrees with the unreachable policy code below it, at all times and for all routers of a
  network, exactly for the first two.\<close>

theorem turn_agrees_with_policy_iff:
  assumes "w \<in> {1..10}" "0 < n"
  shows "(\<forall>e r. m_interswap (cfg e) \<and> m_whenToSwap (cfg e) = w \<and> 0 \<le> m_id_r r \<and> m_id_r r < n \<longrightarrow>
      is_myTurn e n r = is_myTurn_policy e n r) \<longleftrightarrow> w \<le> 2"
proof
  assume "w \<le> 2"
  then have "tdm_rounds w = Some (int w)" using assms(1) by (auto simp: tdm_rounds_def)
  then show "\<forall>e r. m_interswap (cfg e) \<and> m_whenToSwap (cfg e) = w \<and> 0 \<le> m_id_r r \<and> m_id_r r < n \<longrightarrow>
      is_myTurn e n r = is_myTurn_policy e n r"
    by (simp add: is_myTurn_def is_myTurn_policy_def Let_def)
next
  assume same: "\<forall>e r. m_interswap (cfg e) \<and> m_whenToSwap (cfg e) = w \<and> 0 \<le> m_id_r r \<and> m_id_r r < n \<longrightarrow>
      is_myTurn e n r = is_myTurn_policy e n r"
  show "w \<le> 2"
  proof (rule ccontr)
    assume w: "\<not> w \<le> 2"
    let ?e = "(sample_env (w * nat n))\<lparr>cfg := sample_cfg\<lparr>m_whenToSwap := w\<rparr>\<rparr>" and ?r = "Router_new 0 1 1 1"
    have "w = 3 \<or> w = 4 \<or> w = 5 \<or> w = 6 \<or> w = 7 \<or> w = 8 \<or> w = 9 \<or> w = 10" using w assms(1) by (simp, presburger)
    then have "\<exists>k. tdm_rounds w = Some k \<and> int w < k" by (elim disjE) (simp_all add: tdm_rounds_def)
    then obtain k where k: "tdm_rounds w = Some k" "int w < k" by blast
    have "is_myTurn ?e n ?r = Some True"
      using assms w by (simp add: is_myTurn_def sample_cfg_def sample_env_def Router_new_def Let_def)
    moreover have "(int w * n) mod (k * n) = int w * n" using k(2) assms by (intro mod_pos_pos_trivial) auto
    then have "is_myTurn_policy ?e n ?r \<noteq> Some True"
      using k assms w by (auto simp: is_myTurn_policy_def sample_cfg_def sample_env_def Router_new_def bind_Some Let_def)
    ultimately show False using same [rule_format, of ?e ?r] assms(2) by (simp add: sample_cfg_def sample_env_def Router_new_def)
  qed
qed

theorem turn_agrees_with_policy_iff_witness:
  "\<not> (\<forall>e r. m_interswap (cfg e) \<and> m_whenToSwap (cfg e) = 3 \<and> 0 \<le> m_id_r r \<and> m_id_r r < 64 \<longrightarrow>
      is_myTurn e 64 r = is_myTurn_policy e 64 r)"
  using turn_agrees_with_policy_iff [of 3 64] by auto

end
