(* ===== verification/Input_Wakeup.thy ===== *)
theory Input_Wakeup
  imports Swap_Pointer
begin

text \<open>
  \<^verbatim>\<open>InputUnit::wakeup\<close> (InputUnit.cc): the arrival of a flit at an input port, which computes the
  route, may make the swap pointer valid, buffers the flit and stamps the cycle from which it
  takes part in switch allocation.

  The source buffers the flit first and calls \<^verbatim>\<open>advance_stage\<close> through the pointer afterwards;
  the stage takes no part in the heap order, so the model stamps the flit before inserting it.

  Shown: no flit is lost between link and channel, the channel invariant is kept, and the
  assertions on the output direction hold whenever the routing unit's maps are those of
  \<^verbatim>\<open>addOutPort\<close>.
\<close>

text \<open>When the flit goes for switch allocation, and the wake-up a deeper pipeline needs.\<close>

definition pipeline_delay :: "Router \<Rightarrow> flit \<Rightarrow> env \<Rightarrow> (flit \<times> env) option" where
  "pipeline_delay r t_flit e = do {
     let pipe_stages = m_latency_r r;
     if pipe_stages = 1 then Some (advance_stage Stage_SA (curCycle e) t_flit, e)
     else do {
       cassert (pipe_stages > 1);
       wait_time \<leftarrow> cyc_sub pipe_stages 1;
       e \<leftarrow> schedule_wakeup r wait_time e;
       Some (advance_stage Stage_SA (curCycle e + wait_time) t_flit, e) } }"

text \<open>The body after a flit has been taken off the link.\<close>

definition accept_flit ::
    "(PortDirection \<Rightarrow> int option) \<Rightarrow> int \<Rightarrow> flit \<Rightarrow> Router \<Rightarrow> env \<Rightarrow> (Router \<times> env) option" where
  "accept_flit free inport t_flit r e = do {
     u \<leftarrow> vec_at (m_input_unit r) inport;
     let vc = m_vc t_flit;
     let t_flit = increment_hops t_flit;
     cassert (m_type t_flit = HEAD \<or> m_type t_flit = HEAD_TAIL);
     v \<leftarrow> iu_vc u vc;
     cassert (vc_get_state v = IDLE);
     u \<leftarrow> set_vc_active vc (curCycle e) u;
     (outport, e) \<leftarrow> route_compute free r (m_route t_flit) e;
     let t_flit = set_outport outport t_flit;
     let outdir1 = map_at [] (m_outports_idx2dirn (m_routing_unit r)) outport;
     outdir2 \<leftarrow> getOutportDirection r outport;
     cassert (outdir1 = outdir2);
     let t_flit = set_outport_dir outdir2 t_flit;
     r \<leftarrow> upd_iu inport u r;
     r \<leftarrow> iu_makeSwapPtrValid (m_direction_iu u) t_flit r;
     (t_flit, e) \<leftarrow> pipeline_delay r t_flit e;
     u \<leftarrow> iu_upd_vc vc (vc_insertFlit t_flit) u;
     cassert (m_vc_per_vnet_iu u \<noteq> 0);
     let vnet = vc div m_vc_per_vnet_iu u;
     wr \<leftarrow> vec_add (m_num_buffer_writes u) vnet 1;
     rd \<leftarrow> vec_add (m_num_buffer_reads u) vnet 1;
     r \<leftarrow> upd_iu inport (u\<lparr>m_num_buffer_writes := wr, m_num_buffer_reads := rd\<rparr>) r;
     Some (r, e) }"

definition InputUnit_wakeup ::
    "(PortDirection \<Rightarrow> int option) \<Rightarrow> int \<Rightarrow> Router \<Rightarrow> env \<Rightarrow> (Router \<times> env) option" where
  "InputUnit_wakeup free inport r e = do {
     u \<leftarrow> vec_at (m_input_unit r) inport;
     link \<leftarrow> vec_at (m_networklinks e) (m_in_link u);
     if link_isReady link (curCycle e) then do {
       (t_flit, link) \<leftarrow> consumeLink link;
       links \<leftarrow> vec_set (m_networklinks e) (m_in_link u) link;
       accept_flit free inport t_flit r (e\<lparr>m_networklinks := links\<rparr>) }
     else Some (r, e) }"

section \<open>Arriving flits\<close>

lemma pipeline_delay_Some:
  "pipeline_delay r f e = Some (f', e') \<Longrightarrow> (\<exists>t. f' = advance_stage Stage_SA t f) \<and> calm e e'"
  by (auto simp: pipeline_delay_def schedule_wakeup_def bind_Some Let_def split: if_splits
      dest: scheduleEvent_calm)

text \<open>
  What the acceptance of a flit does: its channel was idle, becomes active and holds the flit with its
  output port; apart from that only the swap pointer, the port's statistics and the event queue change.
\<close>

lemma accept_flit_Some:
  assumes "accept_flit free i f r e = Some (r', e')"
  shows "calm e e' \<and> has_vc i (m_vc f) r \<and> vc_get_state (get_vc i (m_vc f) r) = IDLE \<and>
    (\<exists>f' sp wr rd. packet f' = packet f \<and> m_vc f' = m_vc f \<and> m_type f' = m_type f \<and> m_time f' = m_time f \<and>
       r' = r\<lparr>swap_ptr := sp, m_input_unit := (m_input_unit r)[nat i := (m_input_unit r ! nat i)\<lparr>m_vcs :=
             (m_vcs (m_input_unit r ! nat i))[nat (m_vc f) :=
                vc_insertFlit f' (set_active (curCycle e) (get_vc i (m_vc f) r))],
             m_num_buffer_writes := wr, m_num_buffer_reads := rd\<rparr>]\<rparr>)"
proof -
  let ?u = "m_input_unit r ! nat i" and ?v = "m_vc f"
  let ?f = "increment_hops f"
  obtain u1 outport e1 dir r1 r2 f2 e2 u3 wr rd where run:
      "vec_at (m_input_unit r) i = Some ?u" "iu_vc ?u ?v = Some (get_vc i ?v r)"
      "vc_get_state (get_vc i ?v r) = IDLE" "set_vc_active ?v (curCycle e) ?u = Some u1"
      "route_compute free r (m_route ?f) e = Some (outport, e1)" "upd_iu i u1 r = Some r1"
      "iu_makeSwapPtrValid (m_direction_iu u1) (set_outport_dir dir (set_outport outport ?f)) r1 = Some r2"
      "pipeline_delay r2 (set_outport_dir dir (set_outport outport ?f)) e1 = Some (f2, e2)"
      "iu_upd_vc ?v (vc_insertFlit f2) u1 = Some u3"
      "upd_iu i (u3\<lparr>m_num_buffer_writes := wr, m_num_buffer_reads := rd\<rparr>) r2 = Some r'" "e' = e2"
    using assms
    by (auto simp: accept_flit_def bind_Some Let_def vec_at_eq_Some iu_vc_eq_Some get_vc_def flit_updates)
  have has: "has_vc i ?v r" using run(1,2) by (auto simp: has_vc_def vec_at_eq_Some iu_vc_eq_Some)
  obtain sp where sp: "r2 = r1\<lparr>swap_ptr := sp\<rparr>" using iu_makeSwapPtrValid_frame [OF run(7)] by blast
  obtain t where f2: "f2 = advance_stage Stage_SA t (set_outport_dir dir (set_outport outport ?f))" "calm e1 e2"
    using pipeline_delay_Some [OF run(8)] by blast
  have calm: "calm e e'"
    using f2(2) run(5,11) calm_trans rng_only_calm outportCompute_rng by (metis route_compute_def)
  have "r' = r\<lparr>swap_ptr := sp, m_input_unit := (m_input_unit r)[nat i := ?u\<lparr>m_vcs :=
             (m_vcs ?u)[nat ?v := vc_insertFlit f2 (set_active (curCycle e) (get_vc i ?v r))],
             m_num_buffer_writes := wr, m_num_buffer_reads := rd\<rparr>]\<rparr>"
    using run(4,6,9,10) has
    by (auto simp: set_vc_active_def iu_upd_vc_eq_Some upd_iu_eq_Some sp has_vc_def get_vc_def)
  moreover have "packet f2 = packet f" "m_vc f2 = ?v" "m_type f2 = m_type f" "m_time f2 = m_time f"
    unfolding f2(1) by (simp, simp_all add: flit_updates)
  ultimately show ?thesis using calm has run(3) by blast
qed

lemma InputUnit_wakeup_cases:
  assumes "InputUnit_wakeup free i r e = Some (r', e')"
  obtains "r' = r" "e' = e"
  | l l' f ls where "0 \<le> i" "i < int (length (m_input_unit r))"
      "vec_at (m_networklinks e) (m_in_link (m_input_unit r ! nat i)) = Some l" "link_isReady l (curCycle e)"
      "consumeLink l = Some (f, l')"
      "vec_set (m_networklinks e) (m_in_link (m_input_unit r ! nat i)) l' = Some ls"
      "accept_flit free i f r (e\<lparr>m_networklinks := ls\<rparr>) = Some (r', e')"
proof -
  obtain l where l: "0 \<le> i" "i < int (length (m_input_unit r))"
    "vec_at (m_networklinks e) (m_in_link (m_input_unit r ! nat i)) = Some l"
    using assms by (auto simp: InputUnit_wakeup_def bind_Some vec_at_eq_Some)
  show thesis
  proof (cases "link_isReady l (curCycle e)")
    case True
    then obtain f l' ls where "consumeLink l = Some (f, l')"
      "vec_set (m_networklinks e) (m_in_link (m_input_unit r ! nat i)) l' = Some ls"
      "accept_flit free i f r (e\<lparr>m_networklinks := ls\<rparr>) = Some (r', e')"
      using assms l by (auto simp: InputUnit_wakeup_def bind_Some)
    then show thesis using that(2) l True by blast
  next
    case False
    then show thesis using assms l that(1) by (simp add: InputUnit_wakeup_def)
  qed
qed

lemma accept_flit_parts:
  assumes "accept_flit free i f r e = Some (r', e')"
  shows "image_mset packet (vc_part r') = add_mset (packet f) (image_mset packet (vc_part r))"
    "xbar_part r' = xbar_part r" "out_part r' = out_part r" "m_id_r r' = m_id_r r"
proof -
  let ?u = "m_input_unit r ! nat i" and ?x = "get_vc i (m_vc f) r"
  obtain f' sp wr rd where f': "packet f' = packet f" and
    r': "r' = r\<lparr>swap_ptr := sp, m_input_unit := (m_input_unit r)[nat i := ?u\<lparr>m_vcs :=
             (m_vcs ?u)[nat (m_vc f) := vc_insertFlit f' (set_active (curCycle e) ?x)],
             m_num_buffer_writes := wr, m_num_buffer_reads := rd\<rparr>]\<rparr>" and has: "has_vc i (m_vc f) r"
    using accept_flit_Some [OF assms] by blast
  let ?y = "vc_insertFlit f' (set_active (curCycle e) ?x)"
  have i: "nat i < length (m_input_unit r)" using has by (auto simp: has_vc_def)
  let ?w = "?u\<lparr>m_vcs := (m_vcs ?u)[nat (m_vc f) := ?y], m_num_buffer_writes := wr, m_num_buffer_reads := rd\<rparr>"
  have v: "nat (m_vc f) < length (m_vcs ?u)" using has by (auto simp: has_vc_def)
  have "iu_flits ?w + vc_flits ?x = iu_flits ?u + vc_flits ?y"
    using iu_flits_upd [OF v, of ?y] by (simp add: iu_flits_def get_vc_def)
  then have "vc_part r' + vc_flits ?x = vc_part r + vc_flits ?y"
    by (rule vc_part_replace [OF i, rotated]) (simp add: r')
  then have "vc_part r' = add_mset f' (vc_part r)" by simp
  then show "image_mset packet (vc_part r') = add_mset (packet f) (image_mset packet (vc_part r))"
    using f' by simp
  show "xbar_part r' = xbar_part r" "out_part r' = out_part r" "m_id_r r' = m_id_r r"
    by (simp_all add: r' xbar_part_def out_part_def)
qed

interpretation iu_wakeup: router_method "InputUnit_wakeup free i" for free i
proof
  fix r e r' e'
  assume w: "InputUnit_wakeup free i r e = Some (r', e')"
  then show "packets r' e' = packets r e"
  proof (cases rule: InputUnit_wakeup_cases)
    case (2 l l' f ls)
    have "link_flits e' = link_flits (e\<lparr>m_networklinks := ls\<rparr>)"
      using accept_flit_Some [OF 2(7)] by (auto simp: calm_def link_flits_def)
    then show ?thesis using accept_flit_parts [OF 2(7)] consumeLink_flits [OF 2(3,5,6)]
      by (simp add: packets_def router_flits_def)
  qed simp
  from w show "ctx e' = ctx e \<and> m_id_r r' = m_id_r r"
    by (cases rule: InputUnit_wakeup_cases)
      (auto simp: calm_def accept_flit_parts dest!: accept_flit_Some)
  from w show "drift e e'"
  proof (cases rule: InputUnit_wakeup_cases)
    case (2 l l' f ls)
    have "drift e (e\<lparr>m_networklinks := ls\<rparr>)" using consumeLink_drained [OF 2(3,5,6)] by (simp add: drift_def)
    then show ?thesis using accept_flit_Some [OF 2(7)] calm_drift drift_trans by blast
  qed simp
qed

end
