(* ===== verification/Switch_Allocator.thy ===== *)
theory Switch_Allocator
  imports Input_Wakeup
begin

text \<open>
  \<^verbatim>\<open>class SwitchAllocator\<close> (SwitchAllocator.cc): the separable two-stage allocation of a router.
  SA-I (\<^verbatim>\<open>arbitrate_inports\<close>) picks a virtual channel per input port round robin, SA-II
  (\<^verbatim>\<open>arbitrate_outports\<close>) a requesting input port per output port, allocates a downstream
  channel, moves the flit to the crossbar and returns a credit upstream.

  The allocator's own vectors are \<open>m_sw_alloc\<close> of the router record; the units it holds
  pointers to are the router's.
\<close>

section \<open>Requests\<close>

text \<open>C++ division and \<open>div\<close> agree here: a channel number that indexes a vector is not negative.\<close>

definition get_vnet :: "Router \<Rightarrow> int \<Rightarrow> int option" where
  "get_vnet r invc = do {
     cassert (m_vc_per_vnet_sa (m_sw_alloc r) \<noteq> 0);
     let vnet = invc div m_vc_per_vnet_sa (m_sw_alloc r);
     cassert (vnet < m_virtual_networks_r r);
     Some vnet }"

text \<open>
  The ordering loop of \<^verbatim>\<open>send_allowed\<close>: an earlier flit of the same virtual network waits for the
  same output port. \<^verbatim>\<open>&&\<close> evaluates from left to right.
\<close>

fun overtakes :: "InputUnit \<Rightarrow> Cycles \<Rightarrow> int \<Rightarrow> Cycles \<Rightarrow> int list \<Rightarrow> bool option" where
  "overtakes u now outport t_enqueue_time [] = Some False"
| "overtakes u now outport t_enqueue_time (temp_vc # vcs) = do {
     b \<leftarrow> iu_need_stage u temp_vc Stage_SA now;
     p \<leftarrow> iu_get_outport u temp_vc;
     t \<leftarrow> iu_get_enqueue_time u temp_vc;
     if b \<and> p = outport \<and> t < t_enqueue_time then Some True
     else overtakes u now outport t_enqueue_time vcs }"

definition send_allowed :: "Router \<Rightarrow> env \<Rightarrow> int \<Rightarrow> int \<Rightarrow> int \<Rightarrow> int \<Rightarrow> bool option" where
  "send_allowed r e inport invc outport outvc = do {
     cassert (outvc = -1);
     vnet \<leftarrow> get_vnet r invc;
     ou \<leftarrow> vec_at (m_output_unit r) outport;
     has_outvc \<leftarrow> has_free_vc ou vnet (curCycle e);
     if \<not> has_outvc then Some False
     else do {
       ordered \<leftarrow> isVNetOrdered (cfg e) vnet;
       if ordered then do {
         u \<leftarrow> vec_at (m_input_unit r) inport;
         t_enqueue_time \<leftarrow> iu_get_enqueue_time u invc;
         let vc_base = vnet * m_vc_per_vnet_sa (m_sw_alloc r);
         b \<leftarrow> overtakes u (curCycle e) outport t_enqueue_time
                [vc_base..vc_base + m_vc_per_vnet_sa (m_sw_alloc r) - 1];
         Some (\<not> b) }
       else Some True } }"

text \<open>The output port for which a channel may place a request in this cycle.\<close>

definition request_of :: "Router \<Rightarrow> env \<Rightarrow> int \<Rightarrow> int \<Rightarrow> int option option" where
  "request_of r e inport invc = do {
     u \<leftarrow> vec_at (m_input_unit r) inport;
     b \<leftarrow> iu_need_stage u invc Stage_SA (curCycle e);
     if b then do {
       f \<leftarrow> iu_peekTopFlit u invc;
       make_request \<leftarrow> send_allowed r e inport invc (m_outport f) (-1);
       Some (if make_request then Some (m_outport f) else None) }
     else Some None }"

text \<open>\<^verbatim>\<open>rr[i]++; if (rr[i] >= n) rr[i] = 0;\<close>\<close>

definition rr_advance :: "int \<Rightarrow> int \<Rightarrow> int list \<Rightarrow> int list option" where
  "rr_advance n i rr = do { x \<leftarrow> vec_at rr i; vec_set rr i (wrap_inc n x) }"

definition place_request :: "int \<Rightarrow> int \<Rightarrow> int \<Rightarrow> SwitchAllocator \<Rightarrow> SwitchAllocator option" where
  "place_request outport inport invc sa = do {
     reqs \<leftarrow> mat_set (m_port_requests sa) outport inport True;
     wins \<leftarrow> mat_set (m_vc_winners sa) outport inport invc;
     rr \<leftarrow> rr_advance (m_num_vcs_sa sa) inport (m_round_robin_invc sa);
     Some (sa\<lparr>m_input_arbiter_activity := m_input_arbiter_activity sa + 1,
              m_port_requests := reqs, m_vc_winners := wins, m_round_robin_invc := rr\<rparr>) }"

section \<open>SA-I\<close>

fun scan_invcs :: "env \<Rightarrow> int \<Rightarrow> nat \<Rightarrow> int \<Rightarrow> Router \<Rightarrow> Router option" where
  "scan_invcs e inport 0 invc r = Some r"
| "scan_invcs e inport (Suc k) invc r = do {
     req \<leftarrow> request_of r e inport invc;
     case req of
       Some outport \<Rightarrow> do {
         sa \<leftarrow> place_request outport inport invc (m_sw_alloc r);
         Some (r\<lparr>m_sw_alloc := sa\<rparr>) }
     | None \<Rightarrow> scan_invcs e inport k (wrap_inc (m_num_vcs_sa (m_sw_alloc r)) invc) r }"

definition arbitrate_inport :: "env \<Rightarrow> int \<Rightarrow> Router \<Rightarrow> Router option" where
  "arbitrate_inport e inport r = do {
     invc \<leftarrow> vec_at (m_round_robin_invc (m_sw_alloc r)) inport;
     scan_invcs e inport (nat (m_num_vcs_sa (m_sw_alloc r))) invc r }"

definition arbitrate_inports :: "env \<Rightarrow> Router \<Rightarrow> Router option" where
  "arbitrate_inports e r = for_each (arbitrate_inport e) [0..m_num_inports (m_sw_alloc r) - 1] r"

section \<open>SA-II\<close>

definition vc_allocate :: "env \<Rightarrow> int \<Rightarrow> int \<Rightarrow> int \<Rightarrow> Router \<Rightarrow> (int \<times> Router) option" where
  "vc_allocate e outport inport invc r = do {
     vnet \<leftarrow> get_vnet r invc;
     ou \<leftarrow> vec_at (m_output_unit r) outport;
     (outvc, ou) \<leftarrow> select_free_vc vnet (curCycle e) ou;
     cassert (outvc \<noteq> -1);
     r \<leftarrow> upd_ou outport ou r;
     Some (outvc, r) }"

text \<open>A flit that was swapped in leaves by normal means: clear its mark and the router's.\<close>

definition clear_routedSwap :: "env \<Rightarrow> int \<Rightarrow> int \<Rightarrow> Router \<Rightarrow> Router option" where
  "clear_routedSwap e inport invc r =
     (if m_interswap (cfg e) then do {
        u \<leftarrow> vec_at (m_input_unit r) inport;
        f \<leftarrow> iu_peekTopFlit u invc;
        if routedSwap f then do {
          (if m_no_is_swap (cfg e) = 0 then cassert (is_swap r) else Some ());
          u \<leftarrow> iu_updTopFlit invc unset_RoutedSwap u;
          r \<leftarrow> upd_iu inport u r;
          cassert (send_routedSwap r = False);
          Some (r\<lparr>is_swap := False\<rparr>) }
        else Some r }
      else Some r)"

text \<open>Take the flit out; the swap pointer moves on when it pointed there.\<close>

definition read_flit :: "env \<Rightarrow> int \<Rightarrow> int \<Rightarrow> Router \<Rightarrow> (flit \<times> Router) option" where
  "read_flit e inport invc r = do {
     u \<leftarrow> vec_at (m_input_unit r) inport;
     (t_flit, u) \<leftarrow> iu_getTopFlit u invc;
     r \<leftarrow> upd_iu inport u r;
     r \<leftarrow> (if m_interswap (cfg e) \<and> inport = sp_inport (swap_ptr r) \<and> invc = sp_vcid (swap_ptr r)
          then movSwapPtr e r else Some r);
     Some (t_flit, r) }"

text \<open>Stamp the flit with output port, direction and channel, take a credit, enter the crossbar.\<close>

definition send_flit :: "env \<Rightarrow> int \<Rightarrow> int \<Rightarrow> int \<Rightarrow> flit \<Rightarrow> Router \<Rightarrow> (flit \<times> Router) option" where
  "send_flit e outport inport outvc t_flit r = do {
     ou \<leftarrow> vec_at (m_output_unit r) outport;
     let t_flit = set_vc outvc (set_outport_dir (m_direction_ou ou) (set_outport outport t_flit));
     ou \<leftarrow> ou_decrement_credit outvc ou;
     r \<leftarrow> upd_ou outport ou r;
     let t_flit = advance_stage Stage_ST (curCycle e) t_flit;
     r \<leftarrow> grant_switch inport t_flit r;
     Some (t_flit, r\<lparr>m_sw_alloc := (m_sw_alloc r)\<lparr>m_output_arbiter_activity :=
                        m_output_arbiter_activity (m_sw_alloc r) + 1\<rparr>\<rparr>) }"

text \<open>Return a credit upstream; the last flit of a packet also frees the channel.\<close>

definition return_credit :: "int \<Rightarrow> int \<Rightarrow> flit \<Rightarrow> Router \<Rightarrow> env \<Rightarrow> (Router \<times> env) option" where
  "return_credit inport invc t_flit r e = do {
     u \<leftarrow> vec_at (m_input_unit r) inport;
     (u, e) \<leftarrow>
       (if m_type t_flit = TAIL \<or> m_type t_flit = HEAD_TAIL then do {
          ready \<leftarrow> iu_isReady u invc (curCycle e);
          cassert (\<not> ready);
          u \<leftarrow> set_vc_idle invc (curCycle e) u;
          iu_increment_credit invc True (curCycle e) u e }
        else iu_increment_credit invc False (curCycle e) u e);
     r \<leftarrow> upd_iu inport u r;
     Some (r, e) }"

definition grant_port :: "int \<Rightarrow> int \<Rightarrow> Router \<Rightarrow> env \<Rightarrow> (Router \<times> env) option" where
  "grant_port outport inport r e = do {
     invc \<leftarrow> mat_at (m_vc_winners (m_sw_alloc r)) outport inport;
     u \<leftarrow> vec_at (m_input_unit r) inport;
     outvc \<leftarrow> iu_get_outvc u invc;
     cassert (outvc = -1);
     (outvc, r) \<leftarrow> vc_allocate e outport inport invc r;
     r \<leftarrow> clear_routedSwap e inport invc r;
     (t_flit, r) \<leftarrow> read_flit e inport invc r;
     (t_flit, r) \<leftarrow> send_flit e outport inport outvc t_flit r;
     (r, e) \<leftarrow> return_credit inport invc t_flit r e;
     reqs \<leftarrow> mat_set (m_port_requests (m_sw_alloc r)) outport inport False;
     rr \<leftarrow> rr_advance (m_num_inports (m_sw_alloc r)) outport (m_round_robin_inport (m_sw_alloc r));
     Some (r\<lparr>m_sw_alloc := (m_sw_alloc r)\<lparr>m_port_requests := reqs, m_round_robin_inport := rr\<rparr>\<rparr>, e) }"

fun scan_inports_for :: "int \<Rightarrow> nat \<Rightarrow> int \<Rightarrow> Router \<times> env \<Rightarrow> (Router \<times> env) option" where
  "scan_inports_for outport 0 inport (r, e) = Some (r, e)"
| "scan_inports_for outport (Suc k) inport (r, e) = do {
     b \<leftarrow> mat_at (m_port_requests (m_sw_alloc r)) outport inport;
     if b then grant_port outport inport r e
     else scan_inports_for outport k (wrap_inc (m_num_inports (m_sw_alloc r)) inport) (r, e) }"

definition arbitrate_outport :: "int \<Rightarrow> Router \<times> env \<Rightarrow> (Router \<times> env) option" where
  "arbitrate_outport outport re = do {
     inport \<leftarrow> vec_at (m_round_robin_inport (m_sw_alloc (fst re))) outport;
     scan_inports_for outport (nat (m_num_inports (m_sw_alloc (fst re)))) inport re }"

definition arbitrate_outports :: "Router \<Rightarrow> env \<Rightarrow> (Router \<times> env) option" where
  "arbitrate_outports r e = for_each arbitrate_outport [0..m_num_outports (m_sw_alloc r) - 1] (r, e)"

section \<open>The allocator's cycle\<close>

definition clear_request_vector :: "SwitchAllocator \<Rightarrow> SwitchAllocator option" where
  "clear_request_vector sa = do {
     reqs \<leftarrow> for_each (\<lambda>i. for_each (\<lambda>j m. mat_set m i j False) [0..m_num_inports sa - 1])
       [0..m_num_outports sa - 1] (m_port_requests sa);
     Some (sa\<lparr>m_port_requests := reqs\<rparr>) }"

text \<open>The two loops of \<^verbatim>\<open>check_for_wakeup\<close>, which return at the first channel that needs SA.\<close>

fun any_needs_SA :: "Router \<Rightarrow> Cycles \<Rightarrow> (int \<times> int) list \<Rightarrow> bool option" where
  "any_needs_SA r nextCycle [] = Some False"
| "any_needs_SA r nextCycle ((i, j) # ps) = do {
     u \<leftarrow> vec_at (m_input_unit r) i;
     b \<leftarrow> iu_need_stage u j Stage_SA nextCycle;
     if b then Some True else any_needs_SA r nextCycle ps }"

definition check_for_wakeup :: "Router \<Rightarrow> env \<Rightarrow> env option" where
  "check_for_wakeup r e = do {
     b \<leftarrow> any_needs_SA r (curCycle e + 1)
       (List.product [0..m_num_inports (m_sw_alloc r) - 1] [0..m_num_vcs_sa (m_sw_alloc r) - 1]);
     if b then schedule_wakeup r 1 e else Some e }"

definition SwitchAllocator_wakeup :: "Router \<Rightarrow> env \<Rightarrow> (Router \<times> env) option" where
  "SwitchAllocator_wakeup r e = do {
     r \<leftarrow> arbitrate_inports e r;
     (r, e) \<leftarrow> arbitrate_outports r e;
     sa \<leftarrow> clear_request_vector (m_sw_alloc r);
     let r = r\<lparr>m_sw_alloc := sa\<rparr>;
     e \<leftarrow> check_for_wakeup r e;
     Some (r, e) }"

section \<open>What a grant does\<close>

lemma vc_allocate_Some:
  assumes "vc_allocate e p i v r = Some (ov, r')"
  shows "0 \<le> p \<and> p < int (length (m_output_unit r)) \<and> 0 \<le> ov \<and>
    ov < int (length (m_outvc_state (m_output_unit r ! nat p))) \<and>
    isInState (m_outvc_state (m_output_unit r ! nat p) ! nat ov) IDLE (curCycle e) \<and>
    r' = r\<lparr>m_output_unit := (m_output_unit r)[nat p := (m_output_unit r ! nat p)\<lparr>m_outvc_state :=
      (m_outvc_state (m_output_unit r ! nat p))[nat ov :=
         ovs_setState ACTIVE (curCycle e) (m_outvc_state (m_output_unit r ! nat p) ! nat ov)]\<rparr>]\<rparr>"
  using assms
  by (auto simp: vc_allocate_def bind_Some vec_at_eq_Some upd_ou_eq_Some dest!: select_free_vc_Some)

text \<open>The front flit of a channel leaves; its swap mark may have been cleared before.\<close>

lemma vc_updTop_getTop:
  assumes "vc_updTopFlit g v = Some v'" "vc_getTopFlit v' = Some (f, x)"
  shows "\<exists>h. vc_peekTopFlit v = Some h \<and> f = g h \<and> vc_flits v = add_mset h (vc_flits x) \<and>
    x = v\<lparr>m_input_buffer := m_input_buffer x\<rparr>"
proof -
  let ?b = "m_buffer (m_input_buffer v)"
  have ne: "?b \<noteq> []" and v': "v' = v\<lparr>m_input_buffer := (m_input_buffer v)\<lparr>m_buffer := g (hd ?b) # tl ?b\<rparr>\<rparr>"
    using assms(1) by (auto simp: vc_updTop_eq_Some vc_isEmpty_iff)
  have f: "f = g (hd ?b)" and x: "x = v\<lparr>m_input_buffer := m_input_buffer x\<rparr>"
    using assms(2) by (auto simp: vc_getTop_eq_Some v')
  have "vc_flits v' = add_mset f (vc_flits x)" by (rule vc_getTop_flits [OF assms(2)])
  moreover have "vc_flits v' = add_mset (g (hd ?b)) (mset (tl ?b))" by (simp add: v' vc_flits_def fb_items_def)
  ultimately have "vc_flits x = mset (tl ?b)" using f by simp
  moreover have "vc_flits v = add_mset (hd ?b) (mset (tl ?b))"
    using ne by (cases ?b) (auto simp: vc_flits_def fb_items_def)
  ultimately show ?thesis using ne f x by (auto simp: vc_peek_eq vc_isEmpty_iff)
qed

lemma vc_getTop_plain:
  assumes "vc_getTopFlit v = Some (f, x)"
  shows "vc_peekTopFlit v = Some f \<and> vc_flits v = add_mset f (vc_flits x) \<and> x = v\<lparr>m_input_buffer := m_input_buffer x\<rparr>"
  using assms vc_getTop_peek vc_getTop_flits by (auto simp: vc_getTop_eq_Some)

lemma clear_routedSwap_cases:
  assumes "clear_routedSwap e i v r = Some r1"
  obtains "r1 = r"
  | x where "has_vc i v r" "vc_updTopFlit unset_RoutedSwap (get_vc i v r) = Some x"
      "r1 = (put_vc i v x r)\<lparr>is_swap := False\<rparr>"
proof (cases "r1 = r")
  case False
  then obtain u f u' r2 where "vec_at (m_input_unit r) i = Some u"
    "iu_updTopFlit v unset_RoutedSwap u = Some u'" "upd_iu i u' r = Some r2" "r1 = r2\<lparr>is_swap := False\<rparr>"
    using assms by (auto simp: clear_routedSwap_def bind_Some split: if_splits)
  then show thesis using that(2)
    by (auto simp: vec_at_eq_Some iu_updTop_eq_Some upd_iu_eq_Some has_vc_def get_vc_def put_vc_def)
qed (rule that(1))

lemma read_flit_Some:
  assumes "read_flit e i v r = Some (f, r')"
  shows "has_vc i v r \<and> (\<exists>x sp. vc_getTopFlit (get_vc i v r) = Some (f, x) \<and>
    r' = (put_vc i v x r)\<lparr>swap_ptr := sp\<rparr>)"
proof -
  obtain u u' r1 where r1: "vec_at (m_input_unit r) i = Some u" "iu_getTopFlit u v = Some (f, u')"
    "upd_iu i u' r = Some r1" and r': "r' = r1 \<or> movSwapPtr e r1 = Some r'"
    using assms by (auto simp: read_flit_def bind_Some split: if_splits)
  obtain sp where "r' = r1\<lparr>swap_ptr := sp\<rparr>"
    using r' movSwapPtr_frame by (metis Router.surjective Router.update_convs(13))
  then show ?thesis using r1
    by (auto simp: vec_at_eq_Some iu_getTop_eq_Some upd_iu_eq_Some has_vc_def get_vc_def put_vc_def)
qed

lemma take_flit:
  assumes "clear_routedSwap e i v r = Some r1" "read_flit e i v r1 = Some (g, r2)"
  shows "has_vc i v r \<and> (\<exists>f x sp b. vc_peekTopFlit (get_vc i v r) = Some f \<and> g \<in> {f, unset_RoutedSwap f} \<and>
    vc_flits (get_vc i v r) = add_mset f (vc_flits x) \<and> x = (get_vc i v r)\<lparr>m_input_buffer := m_input_buffer x\<rparr> \<and>
    r2 = (put_vc i v x r)\<lparr>swap_ptr := sp, is_swap := b\<rparr>)"
  using assms(1)
proof (cases rule: clear_routedSwap_cases)
  case 1
  then obtain x sp where x: "has_vc i v r" "vc_getTopFlit (get_vc i v r) = Some (g, x)"
    "r2 = (put_vc i v x r)\<lparr>swap_ptr := sp\<rparr>" using read_flit_Some [OF assms(2)] by auto
  then have "r2 = (put_vc i v x r)\<lparr>swap_ptr := sp, is_swap := is_swap r\<rparr>" by (simp add: put_vc_def)
  then show ?thesis using x(1) vc_getTop_plain [OF x(2)] by blast
next
  case (2 y)
  then obtain x sp where x: "vc_getTopFlit y = Some (g, x)" "r2 = (put_vc i v x r)\<lparr>is_swap := False, swap_ptr := sp\<rparr>"
    using read_flit_Some [OF assms(2)] by auto
  then have "r2 = (put_vc i v x r)\<lparr>swap_ptr := sp, is_swap := False\<rparr>" by simp
  then show ?thesis using 2(1) vc_updTop_getTop [OF 2(2) x(1)] by blast
qed

lemma send_flit_Some:
  assumes "send_flit e p i ov f r = Some (f', r')"
  shows "packet f' = packet f \<and> m_outport f' = p \<and> m_vc f' = ov \<and> m_type f' = m_type f \<and>
    0 \<le> i \<and> i < int (length (m_switch_buffer (m_switch r))) \<and>
    0 \<le> p \<and> p < int (length (m_output_unit r)) \<and>
    0 \<le> ov \<and> ov < int (length (m_outvc_state (m_output_unit r ! nat p))) \<and>
    (\<exists>s. ovs_decrement_credit (m_outvc_state (m_output_unit r ! nat p) ! nat ov) = Some s \<and>
      r' = r\<lparr>m_output_unit := (m_output_unit r)[nat p := (m_output_unit r ! nat p)\<lparr>m_outvc_state :=
               (m_outvc_state (m_output_unit r ! nat p))[nat ov := s]\<rparr>],
             m_switch := (m_switch r)\<lparr>m_switch_buffer := (m_switch_buffer (m_switch r))[nat i :=
               fb_insert (m_switch_buffer (m_switch r) ! nat i) f']\<rparr>,
             m_sw_alloc := (m_sw_alloc r)\<lparr>m_output_arbiter_activity :=
               m_output_arbiter_activity (m_sw_alloc r) + 1\<rparr>\<rparr>)"
  using assms
  by (auto simp: send_flit_def bind_Some Let_def vec_at_eq_Some upd_ou_eq_Some grant_switch_eq_Some
      ou_credit_eq_Some flit_updates packet_def)

definition is_tail :: "flit \<Rightarrow> bool" where
  "is_tail f \<longleftrightarrow> m_type f = TAIL \<or> m_type f = HEAD_TAIL"

lemma return_credit_Some:
  assumes "return_credit i v f r e = Some (r', e')" "has_vc i v r"
  shows "calm e e' \<and> r' = r\<lparr>m_input_unit := (m_input_unit r)[nat i := (m_input_unit r ! nat i)\<lparr>
      m_vcs := (m_vcs (m_input_unit r ! nat i))[nat v :=
        (if is_tail f then set_idle (curCycle e) (get_vc i v r) else get_vc i v r)],
      creditQueue := fb_insert (creditQueue (m_input_unit r ! nat i)) (Credit_new v (is_tail f) (curCycle e))\<rparr>]\<rparr>"
  using assms
  by (auto simp: return_credit_def is_tail_def bind_Some vec_at_eq_Some upd_iu_eq_Some set_vc_idle_def iu_upd_vc_eq_Some
      iu_increment_credit_def Let_def has_vc_def get_vc_def split: if_splits dest!: scheduleEventAbsolute_calm)

text \<open>
  The complete effect of granting output port \<open>p\<close> to input port \<open>i\<close>: the front flit of the winning channel
  leaves it (the channel becomes idle when it was the packet's last flit), a credit for that channel is queued,
  an idle channel \<open>ov\<close> of the output port becomes active and loses a credit, and the flit waits in the crossbar
  with that channel and port.
\<close>

lemma grant_port_Some:
  assumes "grant_port p i r e = Some (r', e')"
  obtains v f f' x ov s sp b sa where
    "mat_at (m_vc_winners (m_sw_alloc r)) p i = Some v" "has_vc i v r"
    "vc_peekTopFlit (get_vc i v r) = Some f" "vc_flits (get_vc i v r) = add_mset f (vc_flits x)"
    "x = (get_vc i v r)\<lparr>m_input_buffer := m_input_buffer x\<rparr>"
    "packet f' = packet f" "m_outport f' = p" "m_vc f' = ov" "m_type f' = m_type f"
    "0 \<le> p" "p < int (length (m_output_unit r))" "0 \<le> ov"
    "ov < int (length (m_outvc_state (m_output_unit r ! nat p)))"
    "isInState (m_outvc_state (m_output_unit r ! nat p) ! nat ov) IDLE (curCycle e)"
    "ovs_decrement_credit (ovs_setState ACTIVE (curCycle e) (m_outvc_state (m_output_unit r ! nat p) ! nat ov)) = Some s"
    "i < int (length (m_switch_buffer (m_switch r)))" "calm e e'"
    "r' = r\<lparr>m_input_unit := (m_input_unit r)[nat i := (m_input_unit r ! nat i)\<lparr>
           m_vcs := (m_vcs (m_input_unit r ! nat i))[nat v := (if is_tail f then set_idle (curCycle e) x else x)],
           creditQueue := fb_insert (creditQueue (m_input_unit r ! nat i)) (Credit_new v (is_tail f) (curCycle e))\<rparr>],
         m_output_unit := (m_output_unit r)[nat p := (m_output_unit r ! nat p)\<lparr>m_outvc_state :=
           (m_outvc_state (m_output_unit r ! nat p))[nat ov := s]\<rparr>],
         m_switch := (m_switch r)\<lparr>m_switch_buffer := (m_switch_buffer (m_switch r))[nat i :=
           fb_insert (m_switch_buffer (m_switch r) ! nat i) f']\<rparr>,
         m_sw_alloc := sa, swap_ptr := sp, is_swap := b\<rparr>"
proof -
  obtain v ov r1 r2 g r3 f' r4 r5 sa where run: "mat_at (m_vc_winners (m_sw_alloc r)) p i = Some v"
      "vc_allocate e p i v r = Some (ov, r1)" "clear_routedSwap e i v r1 = Some r2" "read_flit e i v r2 = Some (g, r3)"
      "send_flit e p i ov g r3 = Some (f', r4)" "return_credit i v f' r4 e = Some (r5, e')" "r' = r5\<lparr>m_sw_alloc := sa\<rparr>"
    using assms by (auto simp: grant_port_def bind_Some)
  note al = vc_allocate_Some [OF run(2)]
  define ou where "ou = m_output_unit r ! nat p"
  define o1 where "o1 = ou\<lparr>m_outvc_state := (m_outvc_state ou)[nat ov := ovs_setState ACTIVE (curCycle e) (m_outvc_state ou ! nat ov)]\<rparr>"
  have r1: "r1 = r\<lparr>m_output_unit := (m_output_unit r)[nat p := o1]\<rparr>" using al by (auto simp: o1_def ou_def)
  have acc: "has_vc i v r1 = has_vc i v r" "get_vc i v r1 = get_vc i v r"
    "\<And>x. put_vc i v x r1 = (put_vc i v x r)\<lparr>m_output_unit := (m_output_unit r)[nat p := o1]\<rparr>"
    by (simp_all add: r1 has_vc_def get_vc_def put_vc_def)
  obtain f x sp b where tk: "has_vc i v r" "vc_peekTopFlit (get_vc i v r) = Some f" "g \<in> {f, unset_RoutedSwap f}"
      "vc_flits (get_vc i v r) = add_mset f (vc_flits x)" "x = (get_vc i v r)\<lparr>m_input_buffer := m_input_buffer x\<rparr>"
      "r3 = (put_vc i v x r)\<lparr>m_output_unit := (m_output_unit r)[nat p := o1], swap_ptr := sp, is_swap := b\<rparr>"
    using take_flit [OF run(3,4)] unfolding acc by blast
  have g: "packet g = packet f" "m_type g = m_type f" using tk(3) by (auto simp: flit_updates packet_def)
  obtain s sa4 where sf: "packet f' = packet g" "m_outport f' = p" "m_vc f' = ov" "m_type f' = m_type g"
      "i < int (length (m_switch_buffer (m_switch r)))" "ovs_decrement_credit (m_outvc_state o1 ! nat ov) = Some s"
      "r4 = r3\<lparr>m_output_unit := (m_output_unit r)[nat p := o1\<lparr>m_outvc_state := (m_outvc_state o1)[nat ov := s]\<rparr>],
             m_switch := (m_switch r)\<lparr>m_switch_buffer := (m_switch_buffer (m_switch r))[nat i :=
               fb_insert (m_switch_buffer (m_switch r) ! nat i) f']\<rparr>, m_sw_alloc := sa4\<rparr>"
    using send_flit_Some [OF run(5)] al by (auto simp: tk(6) put_vc_def)
  have o1: "o1\<lparr>m_outvc_state := (m_outvc_state o1)[nat ov := s]\<rparr> = ou\<lparr>m_outvc_state := (m_outvc_state ou)[nat ov := s]\<rparr>"
    "m_outvc_state o1 ! nat ov = ovs_setState ACTIVE (curCycle e) (m_outvc_state ou ! nat ov)"
    using al by (auto simp: o1_def ou_def)
  have u4: "m_input_unit r4 = (m_input_unit r)[nat i := (m_input_unit r ! nat i)\<lparr>m_vcs := (m_vcs (m_input_unit r ! nat i))[nat v := x]\<rparr>]"
    by (simp add: sf(7) tk(6) put_vc_def)
  have i: "nat i < length (m_input_unit r)" "nat v < length (m_vcs (m_input_unit r ! nat i))"
    using tk(1) by (auto simp: has_vc_def)
  have has4: "has_vc i v r4" "get_vc i v r4 = x" using tk(1) i by (auto simp: has_vc_def get_vc_def u4)
  have tail: "is_tail f' = is_tail f" using sf(4) g(2) by (simp add: is_tail_def)
  show thesis
  proof (rule that [of v f x f' ov s b sp sa])
    show "r' = r\<lparr>m_input_unit := (m_input_unit r)[nat i := (m_input_unit r ! nat i)\<lparr>
           m_vcs := (m_vcs (m_input_unit r ! nat i))[nat v := (if is_tail f then set_idle (curCycle e) x else x)],
           creditQueue := fb_insert (creditQueue (m_input_unit r ! nat i)) (Credit_new v (is_tail f) (curCycle e))\<rparr>],
         m_output_unit := (m_output_unit r)[nat p := (m_output_unit r ! nat p)\<lparr>m_outvc_state :=
           (m_outvc_state (m_output_unit r ! nat p))[nat ov := s]\<rparr>],
         m_switch := (m_switch r)\<lparr>m_switch_buffer := (m_switch_buffer (m_switch r))[nat i :=
           fb_insert (m_switch_buffer (m_switch r) ! nat i) f']\<rparr>,
         m_sw_alloc := sa, swap_ptr := sp, is_swap := b\<rparr>"
      unfolding run(7) using return_credit_Some [OF run(6) has4(1)] i
      by (simp add: u4 has4(2) tail) (simp add: sf(7) tk(6) put_vc_def o1(1) flip: ou_def)
    show "ovs_decrement_credit (ovs_setState ACTIVE (curCycle e) (m_outvc_state (m_output_unit r ! nat p) ! nat ov)) = Some s"
      using sf(6) o1(2) by (simp add: ou_def)
    show "packet f' = packet f" "m_type f' = m_type f" using sf(1,4) g by simp_all
    show "calm e e'" using return_credit_Some [OF run(6) has4(1)] by blast
  qed (use al in \<open>blast intro: run(1) tk(1,2,4,5) sf(2,3,5)\<close>)+
qed

section \<open>Allocation loses no flit\<close>

lemma grant_port_parts:
  assumes "grant_port p i r e = Some (r', e')"
  shows "\<exists>f f'. vc_part r = add_mset f (vc_part r') \<and> xbar_part r' = add_mset f' (xbar_part r) \<and>
    out_part r' = out_part r \<and> packet f' = packet f \<and> calm e e' \<and> m_id_r r' = m_id_r r"
  using assms
proof (cases rule: grant_port_Some)
  case (1 v f f' x ov s b sp sa)
  let ?u = "m_input_unit r ! nat i" and ?bs = "m_switch_buffer (m_switch r)" and ?ou = "m_output_unit r ! nat p"
  let ?y = "if is_tail f then set_idle (curCycle e) x else x"
  have i: "nat i < length (m_input_unit r)" "nat v < length (m_vcs ?u)" "nat i < length ?bs" "nat p < length (m_output_unit r)"
    using 1(2,10,11,16) by (auto simp: has_vc_def)
  have "iu_flits (?u\<lparr>m_vcs := (m_vcs ?u)[nat v := ?y]\<rparr>) + vc_flits (get_vc i v r) = iu_flits ?u + vc_flits ?y"
    unfolding get_vc_def by (rule iu_flits_upd [OF i(2)])
  moreover have "vc_flits ?y = vc_flits x" by simp
  ultimately have "iu_flits (?u\<lparr>m_vcs := (m_vcs ?u)[nat v := ?y], creditQueue := q\<rparr>) + {#f#} = iu_flits ?u + {#}" for q
    using 1(4) by (simp add: iu_flits_def)
  then have "vc_part r' + {#f#} = vc_part r + {#}" by (rule vc_part_replace [OF i(1), rotated]) (simp add: 1(18))
  moreover have "xbar_part r' = add_mset f' (xbar_part r)"
    using list_update_sum [OF i(3), of fb_items "fb_insert (?bs ! nat i) f'"]
    by (simp add: xbar_part_def 1(18) fb.items_insert)
  moreover have "out_part r' = out_part r"
    using list_update_sum_same [OF i(4), of "\<lambda>u. fb_items (m_out_buffer u)" "?ou\<lparr>m_outvc_state := (m_outvc_state ?ou)[nat ov := s]\<rparr>"]
    by (simp add: out_part_def 1(18))
  ultimately show ?thesis using 1(6,17) by (intro exI [of _ f] exI [of _ f']) (simp add: 1(18))
qed

interpretation grant: router_method "grant_port p i" for p i
proof
  fix r e r' e'
  assume "grant_port p i r e = Some (r', e')"
  then have g: "\<exists>f f'. vc_part r = add_mset f (vc_part r') \<and> xbar_part r' = add_mset f' (xbar_part r) \<and>
    out_part r' = out_part r \<and> packet f' = packet f \<and> calm e e' \<and> m_id_r r' = m_id_r r" by (rule grant_port_parts)
  then show "packets r' e' = packets r e" "ctx e' = ctx e \<and> m_id_r r' = m_id_r r"
    by (auto simp: packets_def router_flits_def link_flits_def calm_def)
  from g show "drift e e'" by (auto intro: calm_drift)
qed

lemma scan_inports_for_cases:
  "scan_inports_for p k i (r, e) = Some re \<Longrightarrow>
     re = (r, e) \<or> (\<exists>j. mat_at (m_port_requests (m_sw_alloc r)) p j = Some True \<and> grant_port p j r e = Some re)"
proof (induction k arbitrary: i)
  case (Suc k)
  obtain b where b: "mat_at (m_port_requests (m_sw_alloc r)) p i = Some b"
    "(if b then grant_port p i r e
      else scan_inports_for p k (wrap_inc (m_num_inports (m_sw_alloc r)) i) (r, e)) = Some re"
    using Suc.prems by (auto simp: bind_Some)
  then show ?case using Suc.IH by (cases b) auto
qed simp

interpretation outport: router_method "\<lambda>r e. arbitrate_outport p (r, e)" for p
proof
  fix r e r' e'
  assume "arbitrate_outport p (r, e) = Some (r', e')"
  then obtain k i where "scan_inports_for p k i (r, e) = Some (r', e')"
    by (auto simp: arbitrate_outport_def bind_Some)
  from scan_inports_for_cases [OF this]
  show "packets r' e' = packets r e" "ctx e' = ctx e \<and> m_id_r r' = m_id_r r" "drift e e'"
    using grant.keeps_packets grant.keeps_ctx grant.keeps_env by (blast | auto)+
qed

text \<open>SA-I writes the allocator's own vectors only.\<close>

lemma scan_invcs_frame: "scan_invcs e i k v r = Some r' \<Longrightarrow> \<exists>sa. r' = r\<lparr>m_sw_alloc := sa\<rparr>"
proof (induction k arbitrary: v)
  case 0
  then show ?case by (intro exI [of _ "m_sw_alloc r"]) simp
next
  case (Suc k)
  then show ?case by (auto simp: bind_Some split: option.splits)
qed

lemma arbitrate_inports_frame: "arbitrate_inports e r = Some r' \<Longrightarrow> \<exists>sa. r' = r\<lparr>m_sw_alloc := sa\<rparr>"
proof -
  assume a: "arbitrate_inports e r = Some r'"
  then have "for_each (arbitrate_inport e) [0..m_num_inports (m_sw_alloc r) - 1] r = Some r'"
    by (simp add: arbitrate_inports_def)
  then show ?thesis
  proof (rule for_each_inv)
    show "\<exists>sa. r = r\<lparr>m_sw_alloc := sa\<rparr>" by (intro exI [of _ "m_sw_alloc r"]) simp
  qed (auto simp: arbitrate_inport_def bind_Some dest!: scan_invcs_frame)
qed

lemma parts_sw_alloc [simp]:
  "vc_part (r\<lparr>m_sw_alloc := sa\<rparr>) = vc_part r" "xbar_part (r\<lparr>m_sw_alloc := sa\<rparr>) = xbar_part r"
  "out_part (r\<lparr>m_sw_alloc := sa\<rparr>) = out_part r" "router_flits (r\<lparr>m_sw_alloc := sa\<rparr>) = router_flits r"
  by (simp_all add: vc_part_def xbar_part_def out_part_def router_flits_def)

interpretation outports: router_method arbitrate_outports
  unfolding arbitrate_outports_def by (rule router_method_loop) (rule outport.router_method_axioms)

lemma SwitchAllocator_wakeup_Some:
  assumes "SwitchAllocator_wakeup r e = Some (r', e')"
  shows "\<exists>sa1 r2 e2 sa. arbitrate_inports e r = Some (r\<lparr>m_sw_alloc := sa1\<rparr>) \<and>
    arbitrate_outports (r\<lparr>m_sw_alloc := sa1\<rparr>) e = Some (r2, e2) \<and> clear_request_vector (m_sw_alloc r2) = Some sa \<and>
    r' = r2\<lparr>m_sw_alloc := sa\<rparr> \<and> check_for_wakeup r' e2 = Some e' \<and> calm e2 e'"
proof -
  obtain r1 r2 e2 sa where s: "arbitrate_inports e r = Some r1" "arbitrate_outports r1 e = Some (r2, e2)"
    "clear_request_vector (m_sw_alloc r2) = Some sa" "r' = r2\<lparr>m_sw_alloc := sa\<rparr>" "check_for_wakeup r' e2 = Some e'"
    using assms by (auto simp: SwitchAllocator_wakeup_def bind_Some Let_def)
  moreover have "calm e2 e'"
    using s(5) by (auto simp: check_for_wakeup_def schedule_wakeup_def bind_Some dest: scheduleEvent_calm split: if_splits)
  ultimately show ?thesis using arbitrate_inports_frame [OF s(1)] by blast
qed

interpretation sa_wakeup: router_method SwitchAllocator_wakeup
proof
  fix r e r' e'
  assume "SwitchAllocator_wakeup r e = Some (r', e')"
  then obtain sa1 r2 e2 sa where s: "arbitrate_outports (r\<lparr>m_sw_alloc := sa1\<rparr>) e = Some (r2, e2)"
    "r' = r2\<lparr>m_sw_alloc := sa\<rparr>" "calm e2 e'" using SwitchAllocator_wakeup_Some by blast
  show "packets r' e' = packets r e" "ctx e' = ctx e \<and> m_id_r r' = m_id_r r"
    using outports.keeps_packets [OF s(1)] outports.keeps_ctx [OF s(1)] s(2,3)
    by (simp_all add: packets_def calm_def link_flits_def)
  show "drift e e'" using outports.keeps_env [OF s(1)] calm_drift [OF s(3)] drift_trans by blast
qed

end
