(* ===== verification/Crossbar_Switch.thy ===== *)
theory Crossbar_Switch
  imports Router_State
begin

text \<open>
  \<^verbatim>\<open>CrossbarSwitch::wakeup\<close> (CrossbarSwitch.cc): every input's switch buffer passes its due flit
  to the output unit the flit names, for the link traversal in the next cycle.

  The source stamps the flit through the pointer that \<^verbatim>\<open>peekTopFlit\<close> returned and removes it
  afterwards. Removal of the front does not look at the front's time, so taking it out first and
  stamping it then gives the same buffers.
\<close>

definition traverse_inport :: "int \<Rightarrow> Router \<times> env \<Rightarrow> (Router \<times> env) option" where
  "traverse_inport inport = (\<lambda>(r, e). do {
     b \<leftarrow> vec_at (m_switch_buffer (m_switch r)) inport;
     if \<not> fb_isReady b (curCycle e) then Some (r, e)
     else do {
       t_flit \<leftarrow> fb_peekTopFlit b;
       if is_stage Stage_ST (curCycle e) t_flit then do {
         let outport = m_outport t_flit;
         let t_flit = set_time (curCycle e + 1) (advance_stage Stage_LT (curCycle e + 1) t_flit);
         u \<leftarrow> vec_at (m_output_unit r) outport;
         (u, e) \<leftarrow> ou_insert_flit t_flit u e;
         r \<leftarrow> upd_ou outport u r;
         (_, b) \<leftarrow> fb_getTopFlit b;
         bs \<leftarrow> vec_set (m_switch_buffer (m_switch r)) inport b;
         Some (r\<lparr>m_switch := (m_switch r)\<lparr>m_switch_buffer := bs,
                  m_crossbar_activity := m_crossbar_activity (m_switch r) + 1\<rparr>\<rparr>, e) }
       else Some (r, e) } })"

definition CrossbarSwitch_wakeup :: "Router \<Rightarrow> env \<Rightarrow> (Router \<times> env) option" where
  "CrossbarSwitch_wakeup r e = for_each traverse_inport [0..m_num_inports_x (m_switch r) - 1] (r, e)"

section \<open>Traversal loses no flit\<close>

text \<open>
  The effect of one input's traversal: nothing, or the front flit of the switch buffer moves to the
  output buffer of its port, stamped for the next cycle.
\<close>

lemma traverse_inport_cases:
  assumes "traverse_inport i (r, e) = Some (r', e')"
  obtains "r' = r" "e' = e"
  | f b where "0 \<le> i" "i < int (length (m_switch_buffer (m_switch r)))"
      "fb_getTopFlit (m_switch_buffer (m_switch r) ! nat i) = Some (f, b)" "is_stage Stage_ST (curCycle e) f"
      "0 \<le> m_outport f" "m_outport f < int (length (m_output_unit r))" "calm e e'"
      "r' = r\<lparr>m_output_unit := (m_output_unit r)[nat (m_outport f) := (m_output_unit r ! nat (m_outport f))\<lparr>m_out_buffer :=
               fb_insert (m_out_buffer (m_output_unit r ! nat (m_outport f)))
                 (set_time (curCycle e + 1) (advance_stage Stage_LT (curCycle e + 1) f))\<rparr>],
             m_switch := (m_switch r)\<lparr>m_switch_buffer := (m_switch_buffer (m_switch r))[nat i := b],
               m_crossbar_activity := m_crossbar_activity (m_switch r) + 1\<rparr>\<rparr>"
proof (cases "r' = r \<and> e' = e")
  case False
  let ?b = "m_switch_buffer (m_switch r) ! nat i"
  obtain f u e1 r1 b bs g where run: "0 \<le> i" "i < int (length (m_switch_buffer (m_switch r)))"
      "fb_peekTopFlit ?b = Some f" "is_stage Stage_ST (curCycle e) f"
      "vec_at (m_output_unit r) (m_outport f) = Some u"
      "ou_insert_flit (set_time (curCycle e + 1) (advance_stage Stage_LT (curCycle e + 1) f)) u e = Some (g, e')"
      "upd_ou (m_outport f) g r = Some r1" "fb_getTopFlit ?b = Some (e1, b)"
      "vec_set (m_switch_buffer (m_switch r1)) i b = Some bs"
      "r' = r1\<lparr>m_switch := (m_switch r1)\<lparr>m_switch_buffer := bs, m_crossbar_activity := m_crossbar_activity (m_switch r1) + 1\<rparr>\<rparr>"
    using assms False by (auto simp: traverse_inport_def bind_Some Let_def vec_at_eq_Some split: if_splits)
  have f: "e1 = f" using run(3,8) by (auto simp: fb_peek_eq fb_getTopFlit_def split: if_splits)
  have "calm e e'" using run(6) by (auto simp: ou_insert_flit_def bind_Some Let_def dest: scheduleEventAbsolute_calm)
  then show thesis using that(2) [of f b] run
    by (auto simp: f ou_insert_flit_def bind_Some Let_def upd_ou_eq_Some vec_at_eq_Some vec_set_eq_Some)
qed (use that(1) in blast)

interpretation traverse: router_method "\<lambda>r e. traverse_inport i (r, e)" for i
proof
  fix r e r' e'
  assume w: "traverse_inport i (r, e) = Some (r', e')"
  then show "packets r' e' = packets r e"
  proof (cases rule: traverse_inport_cases)
    case (2 f b)
    let ?g = "set_time (curCycle e + 1) (advance_stage Stage_LT (curCycle e + 1) f)" and ?p = "nat (m_outport f)"
    have i: "nat i < length (m_switch_buffer (m_switch r))" "?p < length (m_output_unit r)" using 2(1,2,5,6) by auto
    have "add_mset f (xbar_part r') = xbar_part r"
      using list_update_sum [OF i(1), of fb_items b] fb.items_pop [OF 2(3)] by (simp add: xbar_part_def 2(8))
    moreover have "out_part r' = add_mset ?g (out_part r)"
      using list_update_sum [OF i(2), of "\<lambda>u. fb_items (m_out_buffer u)"
          "(m_output_unit r ! ?p)\<lparr>m_out_buffer := fb_insert (m_out_buffer (m_output_unit r ! ?p)) ?g\<rparr>"]
      by (simp add: out_part_def 2(8) fb.items_insert)
    moreover have "vc_part r' = vc_part r" by (simp add: vc_part_def 2(8))
    ultimately have "image_mset packet (router_flits r') = image_mset packet (router_flits r)"
      by (simp add: router_flits_def flip: \<open>add_mset f (xbar_part r') = xbar_part r\<close>)
    then show ?thesis using 2(7) by (simp add: packets_def link_flits_def calm_def)
  qed simp
  from w show "ctx e' = ctx e \<and> m_id_r r' = m_id_r r"
    by (cases rule: traverse_inport_cases) (auto simp: calm_def)
  from w show "drift e e'" by (cases rule: traverse_inport_cases) (auto simp: calm_drift)
qed

interpretation xbar_wakeup: router_method CrossbarSwitch_wakeup
  unfolding CrossbarSwitch_wakeup_def by (rule router_method_loop) (rule traverse.router_method_axioms)

end
