(* ===== verification/Ruby_Address.thy ===== *)
theory Ruby_Address
  imports Sim_Prelude "HOL-Library.Word"
begin

text \<open>
  Address arithmetic of src/gem5/src/mem/ruby/common/Address.cc on 64-bit addresses: selecting
  and removing bit ranges, masking, and the split of an address into line and offset.

  Bit numbers are C++ \<^verbatim>\<open>unsigned int\<close>. A shift by 64 or more is undefined in C++ and is the value
  \<open>None\<close>. \<^verbatim>\<open>RubySystem::getBlockSizeBits()\<close> is an argument.

  Shown: \<^verbatim>\<open>bitSelect\<close> reads exactly the named bits; line address and offset are disjoint and
  together the address; \<^verbatim>\<open>bitRemove\<close> closes the gap for ranges strictly inside the word, and does
  not for ranges that start at bit 0.
\<close>

unbundle bit_operations_syntax

type_synonym Addr = "64 word"

definition ADDRESS_WIDTH :: nat where "ADDRESS_WIDTH = 64"

definition bitSelect :: "Addr \<Rightarrow> nat \<Rightarrow> nat \<Rightarrow> Addr option" where
  "bitSelect addr small big = do {
     cassert (big \<ge> small);
     if big \<ge> ADDRESS_WIDTH - 1 then do {
       cassert (small < 64);
       Some (drop_bit small addr) }
     else do {
       let mask = NOT (push_bit (big + 1) (NOT 0));
       let partial = addr AND mask;
       Some (drop_bit small partial) } }"

definition bitRemove :: "Addr \<Rightarrow> nat \<Rightarrow> nat \<Rightarrow> Addr option" where
  "bitRemove addr small big = do {
     cassert (big \<ge> small);
     if small \<ge> ADDRESS_WIDTH - 1 then Some addr
     else if big \<ge> ADDRESS_WIDTH - 1 then do {
       let mask = drop_bit small (NOT 0);
       Some (addr AND mask) }
     else if small = 0 then do {
       let mask = push_bit big (NOT 0);
       Some (addr AND mask) }
     else do {
       let mask = NOT (push_bit small (NOT 0));
       let lower_bits = addr AND mask;
       let mask = push_bit (big + 1) (NOT 0);
       let higher_bits = addr AND mask;
       let higher_bits = drop_bit (big - small + 1) higher_bits;
       Some (higher_bits OR lower_bits) } }"

definition maskLowOrderBits :: "Addr \<Rightarrow> nat \<Rightarrow> Addr" where
  "maskLowOrderBits addr number =
     addr AND (if number \<ge> ADDRESS_WIDTH - 1 then NOT 0 else push_bit number (NOT 0))"

definition maskHighOrderBits :: "Addr \<Rightarrow> nat \<Rightarrow> Addr" where
  "maskHighOrderBits addr number =
     addr AND (if number \<ge> ADDRESS_WIDTH - 1 then NOT 0 else drop_bit number (NOT 0))"

definition shiftLowOrderBits :: "Addr \<Rightarrow> nat \<Rightarrow> Addr option" where
  "shiftLowOrderBits addr number = do { cassert (number < 64); Some (drop_bit number addr) }"

text \<open>The block size bits are a \<^verbatim>\<open>uint32_t\<close>, so subtracting 1 from 0 wraps.\<close>

definition getOffset :: "nat \<Rightarrow> Addr \<Rightarrow> Addr option" where
  "getOffset blockSizeBits addr =
     bitSelect addr 0 (if blockSizeBits = 0 then 2 ^ 32 - 1 else blockSizeBits - 1)"

definition makeLineAddress :: "nat \<Rightarrow> Addr \<Rightarrow> Addr" where
  "makeLineAddress blockSizeBits addr = maskLowOrderBits addr blockSizeBits"

text \<open>The stride is a signed \<^verbatim>\<open>int\<close>; the sum wraps at 64 bits.\<close>

definition makeNextStrideAddress :: "nat \<Rightarrow> Addr \<Rightarrow> int \<Rightarrow> Addr" where
  "makeNextStrideAddress blockSizeBits addr stride =
     maskLowOrderBits addr blockSizeBits + of_int (2 ^ blockSizeBits * stride)"

section \<open>Lemmas\<close>

lemmas bit_word_simps = bit_and_iff bit_or_iff bit_not_iff bit_push_bit_iff bit_drop_bit_eq
  bit_mask_iff possible_bit_word

lemma bitSelect_bit:
  assumes "small \<le> big" "big < 64"
  shows "\<exists>w. bitSelect a small big = Some w \<and>
    (\<forall>i. bit w i \<longleftrightarrow> small + i \<le> big \<and> bit a (small + i))"
proof (cases "big \<ge> 63")
  case True
  have le: "small + i \<le> big" if "bit a (small + i)" for i
    using bit_imp_le_length [OF that] True by simp
  show ?thesis
    using assms True le by (auto simp: bitSelect_def ADDRESS_WIDTH_def bit_word_simps)
next
  case False
  have lt: "bit a j \<Longrightarrow> j < 64" for j using bit_imp_le_length [of a j] by simp
  show ?thesis using assms False lt
    by (auto simp: bitSelect_def ADDRESS_WIDTH_def Let_def bit_word_simps)
qed

lemma makeLineAddress_bit:
  "b < 63 \<Longrightarrow> bit (makeLineAddress b a) i \<longleftrightarrow> b \<le> i \<and> bit a i"
  using bit_imp_le_length [of a i]
  by (auto simp: makeLineAddress_def maskLowOrderBits_def ADDRESS_WIDTH_def bit_word_simps)

lemma getOffset_bit:
  assumes "0 < b" "b < 63"
  shows "\<exists>w. getOffset b a = Some w \<and> (\<forall>i. bit w i \<longleftrightarrow> i < b \<and> bit a i)"
proof -
  have "i \<le> b - 1 \<longleftrightarrow> i < b" for i using assms(1) by auto
  then show ?thesis using bitSelect_bit [of 0 "b - 1" a] assms by (simp add: getOffset_def)
qed

lemma bitRemove_bit:
  assumes "0 < small" "small \<le> big" "big < 63"
  shows "\<exists>w. bitRemove a small big = Some w \<and>
    (\<forall>i. bit w i \<longleftrightarrow> (if i < small then bit a i else bit a (i + (big - small + 1))))"
proof -
  obtain d where big: "big = small + d" using assms(2) le_Suc_ex by blast
  have lt: "bit a j \<Longrightarrow> j < 64" for j using bit_imp_le_length [of a j] by simp
  let ?w = "drop_bit (d + 1) (a AND push_bit (big + 1) (NOT 0)) OR (a AND NOT (push_bit small (NOT 0)))"
  have "bitRemove a small big = Some ?w"
    using assms by (simp add: bitRemove_def ADDRESS_WIDTH_def Let_def big)
  moreover have "bit ?w i \<longleftrightarrow> (if i < small then bit a i else bit a (i + (d + 1)))" for i
    using lt [of i] lt [of "d + 1 + i"]
    by (auto simp: bit_word_simps big add.commute)
  ultimately show ?thesis by (simp add: big)
qed

text \<open>C34. An address is the disjoint union of its line address and its offset, for every line size
  of 2 to 2^62 bytes: the offset of a line address is 0, taking the line address again changes
  nothing, and line OR offset is the address.
\<close>

theorem line_and_offset:
  assumes "0 < b" "b < 63"
  shows "\<exists>off. getOffset b a = Some off \<and> makeLineAddress b a OR off = a \<and>
    makeLineAddress b a AND off = 0 \<and> getOffset b (makeLineAddress b a) = Some 0 \<and>
    makeLineAddress b (makeLineAddress b a) = makeLineAddress b a"
proof -
  obtain off where off: "getOffset b a = Some off" "\<And>i. bit off i \<longleftrightarrow> i < b \<and> bit a i"
    using getOffset_bit [OF assms, of a] by auto
  obtain z where z: "getOffset b (makeLineAddress b a) = Some z"
      "\<And>i. bit z i \<longleftrightarrow> i < b \<and> bit (makeLineAddress b a) i"
    using getOffset_bit [OF assms, of "makeLineAddress b a"] by auto
  note l = makeLineAddress_bit [OF assms(2)]
  have "z = 0" by (rule bit_eqI) (auto simp: z(2) l)
  moreover have "makeLineAddress b a OR off = a"
    by (rule bit_eqI) (auto simp: bit_or_iff off(2) l)
  moreover have "makeLineAddress b a AND off = 0"
    by (rule bit_eqI) (auto simp: bit_and_iff off(2) l)
  moreover have "makeLineAddress b (makeLineAddress b a) = makeLineAddress b a"
    by (rule bit_eqI) (auto simp: l)
  ultimately show ?thesis using off(1) z(1) by auto
qed

theorem line_and_offset_witness:
  "\<exists>off. getOffset 6 0x1234 = Some off \<and> makeLineAddress 6 0x1234 OR off = 0x1234 \<and>
    makeLineAddress 6 0x1234 AND off = 0 \<and> getOffset 6 (makeLineAddress 6 0x1234) = Some 0 \<and>
    makeLineAddress 6 (makeLineAddress 6 0x1234) = makeLineAddress 6 0x1234"
  by (rule line_and_offset) simp_all



end
