(* ===== verification/Message_Buffer.thy ===== *)
theory Message_Buffer
  imports Garnet_Env Ruby_Address "HOL-Library.Product_Lexorder"
begin

text \<open>
  \<^verbatim>\<open>class MessageBuffer\<close> (network/MessageBuffer.hh, MessageBuffer.cc): the queue between a protocol
  controller and the network, a heap on (arrival time, message counter) with a map of stalled
  messages, a capacity and a dequeue callback.

  A consumer pointer is a \<open>consumer\<close>; the only callback ever registered wakes a network interface
  in the next cycle, so the callback is the \<open>consumer\<close> to wake. Statistics of type
  \<^verbatim>\<open>Stats::Average\<close> hold the value last assigned. The static flags of \<^verbatim>\<open>RubySystem\<close> are the
  argument \<open>sys\<close>. \<^verbatim>\<open>storeEventInfo\<close> has an empty body for the consumers of this network.

  Shown: a buffer with strict FIFO order is a queue (\<open>mb_queue\<close>: enqueue appends, dequeue takes the
  first), a sender that asks \<^verbatim>\<open>areNSlotsAvailable\<close> first never overfills the buffer, stalling and
  reanalysing keep every message, and the consumer is always pending for the arrival.
\<close>

record ruby_system =
  rs_randomization :: bool
  rs_warmup_enabled :: bool
  rs_block_size_bits :: nat

record MessageBuffer =
  m_prio_heap :: "Message list"
  m_consumer :: "consumer option"
  m_dequeue_callback :: "consumer option"
  m_stall_msg_map :: "(Addr \<times> Message list) list"
  m_stall_map_size :: int
  m_max_size :: nat
  m_time_last_time_size_checked :: Tick
  m_size_last_time_size_checked :: nat
  m_time_last_time_enqueue :: Tick
  m_time_last_time_pop :: Tick
  m_last_arrival_time :: Tick
  m_size_at_cycle_start :: nat
  m_msgs_this_cycle :: nat
  m_not_avail_count :: nat
  m_msg_counter_mb :: nat
  m_priority_rank :: int
  m_strict_fifo :: bool
  m_randomization :: bool
  m_input_link_id :: int
  m_vnet_id :: int
  m_buf_msgs :: int
  m_stall_time :: int
  m_stall_count_mb :: nat

definition MessageBuffer_new :: "nat \<Rightarrow> bool \<Rightarrow> bool \<Rightarrow> MessageBuffer" where
  "MessageBuffer_new buffer_size ordered randomization =
     \<lparr>m_prio_heap = [], m_consumer = None, m_dequeue_callback = None, m_stall_msg_map = [],
      m_stall_map_size = 0, m_max_size = buffer_size, m_time_last_time_size_checked = 0,
      m_size_last_time_size_checked = 0, m_time_last_time_enqueue = 0, m_time_last_time_pop = 0,
      m_last_arrival_time = 0, m_size_at_cycle_start = 0, m_msgs_this_cycle = 0,
      m_not_avail_count = 0, m_msg_counter_mb = 0, m_priority_rank = 0, m_strict_fifo = ordered,
      m_randomization = randomization, m_input_link_id = 0, m_vnet_id = 0, m_buf_msgs = 0,
      m_stall_time = 0, m_stall_count_mb = 0\<rparr>"

definition mb_getSize :: "Tick \<Rightarrow> MessageBuffer \<Rightarrow> nat \<times> MessageBuffer" where
  "mb_getSize curTime b =
     (let b = (if m_time_last_time_size_checked b \<noteq> curTime
               then b\<lparr>m_time_last_time_size_checked := curTime,
                      m_size_last_time_size_checked := length (m_prio_heap b)\<rparr>
               else b)
      in (m_size_last_time_size_checked b, b))"

text \<open>The size that counts in this cycle: pops take effect in the next one, enqueues at once.\<close>

definition visible_size :: "Tick \<Rightarrow> MessageBuffer \<Rightarrow> nat" where
  "visible_size current_time b =
     (if m_time_last_time_pop b < current_time then length (m_prio_heap b)
      else if m_time_last_time_enqueue b < current_time then m_size_at_cycle_start b
      else m_size_at_cycle_start b + m_msgs_this_cycle b)"

definition areNSlotsAvailable :: "nat \<Rightarrow> Tick \<Rightarrow> MessageBuffer \<Rightarrow> bool \<times> MessageBuffer" where
  "areNSlotsAvailable n current_time b =
     (if m_max_size b = 0 then (True, b)
      else if int (visible_size current_time b) + m_stall_map_size b + int n \<le> int (m_max_size b)
      then (True, b)
      else (False, b\<lparr>m_not_avail_count := m_not_avail_count b + 1\<rparr>))"

definition mb_isReady :: "Tick \<Rightarrow> MessageBuffer \<Rightarrow> bool" where
  "mb_isReady current_time b \<longleftrightarrow>
     length (m_prio_heap b) > 0 \<and> m_LastEnqueueTime (hd (m_prio_heap b)) \<le> current_time"

definition mb_isEmpty :: "MessageBuffer \<Rightarrow> bool" where
  "mb_isEmpty b \<longleftrightarrow> length (m_prio_heap b) = 0"

definition peekMsgPtr :: "MessageBuffer \<Rightarrow> Message option" where
  "peekMsgPtr b = (if m_prio_heap b = [] then None else Some (hd (m_prio_heap b)))"

definition setConsumer :: "consumer \<Rightarrow> MessageBuffer \<Rightarrow> MessageBuffer option" where
  "setConsumer c b = do {
     cassert (m_consumer b = None);
     Some (b\<lparr>m_consumer := Some c\<rparr>) }"

definition mb_setPriority :: "int \<Rightarrow> MessageBuffer \<Rightarrow> MessageBuffer" where
  "mb_setPriority rank b = b\<lparr>m_priority_rank := rank\<rparr>"

definition mb_setIncomingLink :: "int \<Rightarrow> MessageBuffer \<Rightarrow> MessageBuffer" where
  "mb_setIncomingLink link_id b = b\<lparr>m_input_link_id := link_id\<rparr>"

definition mb_setVnet :: "int \<Rightarrow> MessageBuffer \<Rightarrow> MessageBuffer" where
  "mb_setVnet net b = b\<lparr>m_vnet_id := net\<rparr>"

definition mb_clearStats :: "MessageBuffer \<Rightarrow> MessageBuffer" where
  "mb_clearStats b = b\<lparr>m_not_avail_count := 0, m_msg_counter_mb := 0\<rparr>"

section \<open>Enqueue\<close>

text \<open>\<^verbatim>\<open>random_mt.random(lo, hi)\<close> is a value between the bounds, taken from the stream of draws.\<close>

definition random_range :: "nat \<Rightarrow> nat \<Rightarrow> env \<Rightarrow> nat \<times> env" where
  "random_range lo hi e = (case random_draw e of (v, e) \<Rightarrow> (lo + v mod (hi - lo + 1), e))"

definition random_time :: "env \<Rightarrow> Tick \<times> env" where
  "random_time e =
     (let (a, e) = random_range 0 3 e; time = 1 + a; (b, e) = random_range 0 7 e
      in if b = 0 then let (c, e) = random_range 1 15 e in (time + (100 + c), e) else (time, e))"

text \<open>The arrival time; the strict FIFO branch may move \<^verbatim>\<open>m_last_arrival_time\<close> up first.\<close>

definition arrival_of ::
    "ruby_system \<Rightarrow> Tick \<Rightarrow> Tick \<Rightarrow> MessageBuffer \<Rightarrow> env \<Rightarrow> Tick \<times> MessageBuffer \<times> env" where
  "arrival_of sys current_time delta b e =
     (if \<not> rs_randomization sys \<and> \<not> m_randomization b then (current_time + delta, b, e)
      else if m_strict_fifo b then
        let b = (if m_last_arrival_time b < current_time
                 then b\<lparr>m_last_arrival_time := current_time\<rparr> else b);
            (t, e) = random_time e
        in (m_last_arrival_time b + t, b, e)
      else let (t, e) = random_time e in (current_time + t, b, e))"

text \<open>The bookkeeping at the start of \<^verbatim>\<open>enqueue\<close>.\<close>

definition count_enqueue :: "Tick \<Rightarrow> MessageBuffer \<Rightarrow> MessageBuffer" where
  "count_enqueue current_time b =
     (let b = (if m_time_last_time_enqueue b < current_time
               then b\<lparr>m_msgs_this_cycle := 0, m_time_last_time_enqueue := current_time\<rparr> else b)
      in b\<lparr>m_msg_counter_mb := m_msg_counter_mb b + 1, m_msgs_this_cycle := m_msgs_this_cycle b + 1\<rparr>)"

definition mb_enqueue ::
    "ruby_system \<Rightarrow> Message \<Rightarrow> Tick \<Rightarrow> Tick \<Rightarrow> MessageBuffer \<Rightarrow> env \<Rightarrow> (MessageBuffer \<times> env) option" where
  "mb_enqueue sys message current_time delta b e = do {
     let b = count_enqueue current_time b;
     cassert (delta > 0);
     let (arrival_time, b, e) = arrival_of sys current_time delta b e;
     cassert (arrival_time > current_time);
     (if m_strict_fifo b then cassert (\<not> arrival_time < m_last_arrival_time b) else Some ());
     let b = (if \<not> rs_warmup_enabled sys then b\<lparr>m_last_arrival_time := arrival_time\<rparr> else b);
     cassert (current_time \<ge> m_LastEnqueueTime message);
     message \<leftarrow> updateDelayedTicks current_time message;
     let message = message\<lparr>m_LastEnqueueTime := arrival_time, m_msg_counter := m_msg_counter_mb b\<rparr>;
     let b = b\<lparr>m_prio_heap := push_heap msg_greater (m_prio_heap b) message,
               m_buf_msgs := m_buf_msgs b + 1\<rparr>;
     c \<leftarrow> m_consumer b;
     e \<leftarrow> scheduleEventAbsolute c arrival_time e;
     Some (b, e) }"

section \<open>Dequeue, recycle, stall\<close>

text \<open>
  \<^verbatim>\<open>dequeue\<close> with the message it removed, which \<^verbatim>\<open>stallMessage\<close> keeps. The dequeued message's
  delay is not part of the heap order.
\<close>

definition mb_dequeue ::
    "Tick \<Rightarrow> bool \<Rightarrow> MessageBuffer \<Rightarrow> env \<Rightarrow> (Tick \<times> Message \<times> MessageBuffer \<times> env) option" where
  "mb_dequeue current_time decrement_messages b e = do {
     cassert (mb_isReady current_time b);
     message \<leftarrow> updateDelayedTicks current_time (hd (m_prio_heap b));
     let delay = m_DelayedTicks message;
     let b = b\<lparr>m_stall_time := int (clockEdge e 0) - int (m_msg_time message)\<rparr>;
     let b = (if m_time_last_time_pop b < current_time
              then b\<lparr>m_size_at_cycle_start := length (m_prio_heap b), m_time_last_time_pop := current_time\<rparr>
              else b);
     let b = b\<lparr>m_prio_heap := pop_heap msg_greater (m_prio_heap b)\<rparr>;
     let b = (if decrement_messages then b\<lparr>m_buf_msgs := m_buf_msgs b - 1\<rparr> else b);
     e \<leftarrow> (case m_dequeue_callback b of
            None \<Rightarrow> Some e
          | Some c \<Rightarrow> scheduleEventAbsolute c (clockEdge e 1) e);
     Some (delay, message, b, e) }"

definition registerDequeueCallback :: "consumer \<Rightarrow> MessageBuffer \<Rightarrow> MessageBuffer" where
  "registerDequeueCallback c b = b\<lparr>m_dequeue_callback := Some c\<rparr>"

definition unregisterDequeueCallback :: "MessageBuffer \<Rightarrow> MessageBuffer" where
  "unregisterDequeueCallback b = b\<lparr>m_dequeue_callback := None\<rparr>"

definition mb_clear :: "MessageBuffer \<Rightarrow> MessageBuffer" where
  "mb_clear b = b\<lparr>m_prio_heap := [], m_msg_counter_mb := 0, m_time_last_time_enqueue := 0,
     m_time_last_time_pop := 0, m_size_at_cycle_start := 0, m_msgs_this_cycle := 0\<rparr>"

definition delayHead ::
    "ruby_system \<Rightarrow> Tick \<Rightarrow> Tick \<Rightarrow> MessageBuffer \<Rightarrow> env \<Rightarrow> (MessageBuffer \<times> env) option" where
  "delayHead sys current_time delta b e = do {
     m \<leftarrow> peekMsgPtr b;
     let b = b\<lparr>m_prio_heap := pop_heap msg_greater (m_prio_heap b)\<rparr>;
     mb_enqueue sys m current_time delta b e }"

definition recycle :: "Tick \<Rightarrow> Tick \<Rightarrow> MessageBuffer \<Rightarrow> env \<Rightarrow> (MessageBuffer \<times> env) option" where
  "recycle current_time recycle_latency b e = do {
     cassert (mb_isReady current_time b);
     let node = hd (m_prio_heap b);
     let rest = pop_heap msg_greater (m_prio_heap b);
     let future_time = current_time + recycle_latency;
     let node = node\<lparr>m_LastEnqueueTime := future_time\<rparr>;
     let b = b\<lparr>m_prio_heap := push_heap msg_greater rest node\<rparr>;
     c \<leftarrow> m_consumer b;
     e \<leftarrow> scheduleEventAbsolute c future_time e;
     Some (b, e) }"

fun reanalyzeList :: "Message list \<Rightarrow> Tick \<Rightarrow> MessageBuffer \<Rightarrow> env \<Rightarrow> (MessageBuffer \<times> env) option" where
  "reanalyzeList [] schdTick b e = Some (b, e)"
| "reanalyzeList (m # lt) schdTick b e = do {
     let b = b\<lparr>m_msg_counter_mb := m_msg_counter_mb b + 1\<rparr>;
     let m = m\<lparr>m_LastEnqueueTime := schdTick, m_msg_counter := m_msg_counter_mb b\<rparr>;
     let b = b\<lparr>m_prio_heap := push_heap msg_greater (m_prio_heap b) m\<rparr>;
     c \<leftarrow> m_consumer b;
     e \<leftarrow> scheduleEventAbsolute c schdTick e;
     reanalyzeList lt schdTick b e }"

definition reanalyzeMessages :: "Addr \<Rightarrow> Tick \<Rightarrow> MessageBuffer \<Rightarrow> env \<Rightarrow> (MessageBuffer \<times> env) option" where
  "reanalyzeMessages addr current_time b e = do {
     lt \<leftarrow> map_of (m_stall_msg_map b) addr;
     let b = b\<lparr>m_stall_map_size := m_stall_map_size b - int (length lt)\<rparr>;
     cassert (m_stall_map_size b \<ge> 0);
     (b, e) \<leftarrow> reanalyzeList lt current_time b e;
     Some (b\<lparr>m_stall_msg_map := filter (\<lambda>(a, _). a \<noteq> addr) (m_stall_msg_map b)\<rparr>, e) }"

definition reanalyzeAllMessages :: "Tick \<Rightarrow> MessageBuffer \<Rightarrow> env \<Rightarrow> (MessageBuffer \<times> env) option" where
  "reanalyzeAllMessages current_time b e = do {
     (b, e) \<leftarrow> for_each (\<lambda>(a, lt) (b, e). do {
         let b = b\<lparr>m_stall_map_size := m_stall_map_size b - int (length lt)\<rparr>;
         cassert (m_stall_map_size b \<ge> 0);
         reanalyzeList lt current_time b e }) (m_stall_msg_map b) (b, e);
     Some (b\<lparr>m_stall_msg_map := []\<rparr>, e) }"

text \<open>\<^verbatim>\<open>m_stall_msg_map[addr].push_back(message)\<close>; the map iterates in the order of addresses.\<close>

fun stall_push :: "Addr \<Rightarrow> Message \<Rightarrow> (Addr \<times> Message list) list \<Rightarrow> (Addr \<times> Message list) list" where
  "stall_push addr m [] = [(addr, [m])]"
| "stall_push addr m ((a, lt) # rest) =
     (if a = addr then (a, lt @ [m]) # rest
      else if addr < a then (addr, [m]) # (a, lt) # rest
      else (a, lt) # stall_push addr m rest)"

definition stallMessage ::
    "ruby_system \<Rightarrow> Addr \<Rightarrow> Tick \<Rightarrow> MessageBuffer \<Rightarrow> env \<Rightarrow> (MessageBuffer \<times> env) option" where
  "stallMessage sys addr current_time b e = do {
     cassert (mb_isReady current_time b);
     off \<leftarrow> getOffset (rs_block_size_bits sys) addr;
     cassert (off = 0);
     (_, message, b, e) \<leftarrow> mb_dequeue current_time False b e;
     Some (b\<lparr>m_stall_msg_map := stall_push addr message (m_stall_msg_map b),
             m_stall_map_size := m_stall_map_size b + 1,
             m_stall_count_mb := m_stall_count_mb b + 1\<rparr>, e) }"

text \<open>\<^verbatim>\<open>functionalWrite\<close> offers the packet to every queued and every stalled message.\<close>

fun msgs_functionalWrite :: "func_write \<Rightarrow> Message list \<Rightarrow> nat \<times> Message list" where
  "msgs_functionalWrite fw [] = (0, [])"
| "msgs_functionalWrite fw (m # ms) =
     (let (b, m') = fw m; (n, ms') = msgs_functionalWrite fw ms
      in (if b then n + 1 else n, m' # ms'))"

fun stalled_functionalWrite ::
    "func_write \<Rightarrow> (Addr \<times> Message list) list \<Rightarrow> nat \<times> (Addr \<times> Message list) list" where
  "stalled_functionalWrite fw [] = (0, [])"
| "stalled_functionalWrite fw ((a, lt) # rest) =
     (let (n, lt') = msgs_functionalWrite fw lt; (k, rest') = stalled_functionalWrite fw rest
      in (n + k, (a, lt') # rest'))"

definition mb_functionalWrite :: "func_write \<Rightarrow> MessageBuffer \<Rightarrow> nat \<times> MessageBuffer" where
  "mb_functionalWrite fw b =
     (let (n, h) = msgs_functionalWrite fw (m_prio_heap b);
          (k, s) = stalled_functionalWrite fw (m_stall_msg_map b)
      in (n + k, b\<lparr>m_prio_heap := h, m_stall_msg_map := s\<rparr>))"

section \<open>The queue\<close>

definition mb_key :: "Message \<Rightarrow> Tick \<times> nat" where
  "mb_key m = (m_LastEnqueueTime m, m_msg_counter m)"

definition mb_queue :: "MessageBuffer \<Rightarrow> Message list" where
  "mb_queue b = sort_key mb_key (m_prio_heap b)"

text \<open>The heap invariant with pairwise different counters below the buffer's own.\<close>

definition mb_ok :: "MessageBuffer \<Rightarrow> bool" where
  "mb_ok b \<longleftrightarrow> is_heap msg_greater (m_prio_heap b) \<and> distinct (map m_msg_counter (m_prio_heap b)) \<and>
     (\<forall>m \<in> set (m_prio_heap b). m_msg_counter m \<le> m_msg_counter_mb b)"

definition mb_fifo_ok :: "MessageBuffer \<Rightarrow> bool" where
  "mb_fifo_ok b \<longleftrightarrow> mb_ok b \<and> m_strict_fifo b \<and>
     (\<forall>m \<in> set (m_prio_heap b). m_LastEnqueueTime m \<le> m_last_arrival_time b)"

lemma msg_greater_key: "msg_greater l r \<longleftrightarrow> mb_key r < mb_key l"
  by (auto simp: msg_greater_def mb_key_def less_prod_def' split: if_splits)

lemma mb_ok_inj: "mb_ok b \<Longrightarrow> inj_on mb_key (set (m_prio_heap b))"
  by (auto simp: mb_ok_def mb_key_def distinct_map inj_on_def)

lemma mb_queue_mset: "mset (mb_queue b) = mset (m_prio_heap b)"
  by (simp add: mb_queue_def)

lemma mb_queue_set [simp]: "set (mb_queue b) = set (m_prio_heap b)"
  by (simp add: mb_queue_def)

text \<open>The front of the heap is the first of the queue.\<close>

lemma mb_queue_front:
  assumes "mb_ok b" "m_prio_heap b \<noteq> []"
  shows "mb_queue b = hd (m_prio_heap b) # sort_key mb_key (pop_heap msg_greater (m_prio_heap b))"
  unfolding mb_queue_def
proof (rule sort_key_inj_key_eq)
  let ?h = "m_prio_heap b" and ?r = "pop_heap msg_greater (m_prio_heap b)"
  show ms: "mset ?h = mset (hd ?h # sort_key mb_key ?r)" using assms(2) by (simp add: mset_pop_heap)
  have "mb_key (hd ?h) \<le> mb_key x" if "x \<in> set ?r" for x
  proof -
    have "x \<in> set ?h" using mset_eq_setD [OF ms] that by simp
    then have "\<not> msg_greater (hd ?h) x" using assms(1) msg.heap_hd_least by (auto simp: mb_ok_def)
    then show ?thesis by (simp add: msg_greater_key)
  qed
  then show "sorted (map mb_key (hd ?h # sort_key mb_key ?r))" by simp
qed (rule mb_ok_inj [OF assms(1)])

text \<open>A message that is later than everything in the heap goes to the end of the queue.\<close>

lemma mb_queue_snoc:
  assumes "inj_on mb_key (insert m (set h))" "\<And>x. x \<in> set h \<Longrightarrow> mb_key x \<le> mb_key m"
  shows "sort_key mb_key (push_heap msg_greater h m) = sort_key mb_key h @ [m]"
proof (rule sort_key_inj_key_eq)
  show ms: "mset (push_heap msg_greater h m) = mset (sort_key mb_key h @ [m])" by simp
  show "inj_on mb_key (set (push_heap msg_greater h m))"
    using assms(1) mset_eq_setD [OF ms] by simp
  show "sorted (map mb_key (sort_key mb_key h @ [m]))"
    using assms(2) by (auto simp: sorted_append)
qed

text \<open>What a successful \<^verbatim>\<open>enqueue\<close> does.\<close>

lemma arrival_of_frame:
  assumes "arrival_of sys t d b e = (a, b', e')"
  shows "(\<exists>l \<ge> m_last_arrival_time b. b' = b\<lparr>m_last_arrival_time := l\<rparr>) \<and>
    cfg e' = cfg e \<and> curCycle e' = curCycle e \<and> event_queue e' = event_queue e \<and>
    m_scheduled_wakeups e' = m_scheduled_wakeups e"
proof -
  let ?l = "if (rs_randomization sys \<or> m_randomization b) \<and> m_strict_fifo b
            then max t (m_last_arrival_time b) else m_last_arrival_time b"
  have "b' = b\<lparr>m_last_arrival_time := ?l\<rparr>" "cfg e' = cfg e" "curCycle e' = curCycle e"
    "event_queue e' = event_queue e" "m_scheduled_wakeups e' = m_scheduled_wakeups e"
    using assms
    by (auto simp: arrival_of_def random_time_def random_range_def random_draw_def Let_def
        split: if_splits prod.splits)
  moreover have "m_last_arrival_time b \<le> ?l" by simp
  ultimately show ?thesis by blast
qed

definition arrived :: "Tick \<Rightarrow> Tick \<Rightarrow> nat \<Rightarrow> Message \<Rightarrow> Message" where
  "arrived t a n m = m\<lparr>m_DelayedTicks := m_DelayedTicks m + (t - m_LastEnqueueTime m),
     m_LastEnqueueTime := a, m_msg_counter := n\<rparr>"

lemma count_enqueue_simps [simp]:
  "m_consumer (count_enqueue t b) = m_consumer b" "m_strict_fifo (count_enqueue t b) = m_strict_fifo b"
  "m_prio_heap (count_enqueue t b) = m_prio_heap b" "m_buf_msgs (count_enqueue t b) = m_buf_msgs b"
  "m_msg_counter_mb (count_enqueue t b) = m_msg_counter_mb b + 1"
  "m_last_arrival_time (count_enqueue t b) = m_last_arrival_time b"
  "m_randomization (count_enqueue t b) = m_randomization b"
  "m_max_size (count_enqueue t b) = m_max_size b" "m_stall_map_size (count_enqueue t b) = m_stall_map_size b"
  "m_stall_msg_map (count_enqueue t b) = m_stall_msg_map b" "m_vnet_id (count_enqueue t b) = m_vnet_id b"
  "m_time_last_time_pop (count_enqueue t b) = m_time_last_time_pop b"
  "m_size_at_cycle_start (count_enqueue t b) = m_size_at_cycle_start b"
  "m_time_last_time_enqueue (count_enqueue t b) = max t (m_time_last_time_enqueue b)"
  "m_msgs_this_cycle (count_enqueue t b) =
     (if m_time_last_time_enqueue b < t then 1 else m_msgs_this_cycle b + 1)"
  by (simp_all add: count_enqueue_def Let_def)

lemma mb_enqueue_run:
  assumes "mb_enqueue sys m t d b e = Some (b', e')" and "arrival_of sys t d (count_enqueue t b) e = (a, b3, e1)"
  shows "t < a \<and> m_LastEnqueueTime m \<le> t \<and> (m_strict_fifo b3 \<longrightarrow> m_last_arrival_time b3 \<le> a) \<and>
    (\<exists>c. m_consumer b3 = Some c \<and> scheduleEventAbsolute c a e1 = Some e') \<and>
    b' = (if rs_warmup_enabled sys then b3 else b3\<lparr>m_last_arrival_time := a\<rparr>)
       \<lparr>m_prio_heap := push_heap msg_greater (m_prio_heap b3) (arrived t a (m_msg_counter_mb b3) m),
        m_buf_msgs := m_buf_msgs b3 + 1\<rparr>"
  using assms
  by (auto simp: mb_enqueue_def bind_Some updateDelayedTicks_def arrived_def Let_def split: if_splits)

lemma mb_enqueue_Some:
  assumes "mb_enqueue sys m t d b e = Some (b', e')"
  obtains a c e1 where "t < a" "m_LastEnqueueTime m \<le> t" "m_consumer b = Some c"
    "m_strict_fifo b \<Longrightarrow> m_last_arrival_time b \<le> a"
    "scheduleEventAbsolute c a e1 = Some e'" "cfg e1 = cfg e" "curCycle e1 = curCycle e"
    "event_queue e1 = event_queue e" "m_scheduled_wakeups e1 = m_scheduled_wakeups e"
    "\<not> rs_warmup_enabled sys \<Longrightarrow> m_last_arrival_time b' = a"
    "b' = (count_enqueue t b)\<lparr>m_last_arrival_time := m_last_arrival_time b',
       m_prio_heap := push_heap msg_greater (m_prio_heap b) (arrived t a (m_msg_counter_mb b + 1) m),
       m_buf_msgs := m_buf_msgs b + 1\<rparr>"
proof -
  obtain a b3 e1 where ar: "arrival_of sys t d (count_enqueue t b) e = (a, b3, e1)" by (metis prod_cases3)
  obtain l where l: "b3 = (count_enqueue t b)\<lparr>m_last_arrival_time := l\<rparr>"
      "m_last_arrival_time (count_enqueue t b) \<le> l"
    and e1: "cfg e1 = cfg e" "curCycle e1 = curCycle e" "event_queue e1 = event_queue e"
      "m_scheduled_wakeups e1 = m_scheduled_wakeups e"
    using arrival_of_frame [OF ar] by blast
  have c: "m_consumer b3 = m_consumer b" "m_strict_fifo b3 = m_strict_fifo b" "m_prio_heap b3 = m_prio_heap b"
    "m_msg_counter_mb b3 = m_msg_counter_mb b + 1" "m_buf_msgs b3 = m_buf_msgs b"
    "m_last_arrival_time b \<le> m_last_arrival_time b3"
    using l by simp_all
  obtain k where run: "t < a" "m_LastEnqueueTime m \<le> t" "m_strict_fifo b \<Longrightarrow> m_last_arrival_time b3 \<le> a"
    "m_consumer b = Some k" "scheduleEventAbsolute k a e1 = Some e'"
    and b': "b' = (if rs_warmup_enabled sys then b3 else b3\<lparr>m_last_arrival_time := a\<rparr>)
       \<lparr>m_prio_heap := push_heap msg_greater (m_prio_heap b) (arrived t a (m_msg_counter_mb b + 1) m),
        m_buf_msgs := m_buf_msgs b + 1\<rparr>"
    using mb_enqueue_run [OF assms ar] unfolding c by (elim conjE exE) (rule that, auto)
  have "b' = (count_enqueue t b)\<lparr>m_last_arrival_time := m_last_arrival_time b',
       m_prio_heap := push_heap msg_greater (m_prio_heap b) (arrived t a (m_msg_counter_mb b + 1) m),
       m_buf_msgs := m_buf_msgs b + 1\<rparr>"
    unfolding b' l(1) by simp
  moreover have "\<not> rs_warmup_enabled sys \<Longrightarrow> m_last_arrival_time b' = a" unfolding b' by simp
  moreover have "m_strict_fifo b \<Longrightarrow> m_last_arrival_time b \<le> a" using run(3) c(6) by linarith
  ultimately show thesis using that run(1,2,4,5) e1 by blast
qed

lemma mb_enqueue_fifo:
  assumes ok: "mb_fifo_ok b" and w: "\<not> rs_warmup_enabled sys"
    and run: "mb_enqueue sys m t d b e = Some (b', e')"
  shows "mb_fifo_ok b' \<and> (\<exists>a. mb_queue b' = mb_queue b @ [arrived t a (m_msg_counter_mb b + 1) m])"
proof -
  obtain a where a: "m_last_arrival_time b \<le> a" "m_last_arrival_time b' = a"
    and b': "b' = (count_enqueue t b)\<lparr>m_last_arrival_time := m_last_arrival_time b',
       m_prio_heap := push_heap msg_greater (m_prio_heap b) (arrived t a (m_msg_counter_mb b + 1) m),
       m_buf_msgs := m_buf_msgs b + 1\<rparr>"
    using run ok w by (elim mb_enqueue_Some) (auto simp: mb_fifo_ok_def)
  let ?m = "arrived t a (m_msg_counter_mb b + 1) m"
  have h: "m_prio_heap b' = push_heap msg_greater (m_prio_heap b) ?m" and k: "m_msg_counter_mb b' = m_msg_counter_mb b + 1"
    "m_strict_fifo b' = m_strict_fifo b" by (subst b', simp)+
  have old: "m_msg_counter x \<le> m_msg_counter_mb b" "m_LastEnqueueTime x \<le> a" if "x \<in> set (m_prio_heap b)" for x
    using that ok a(1) by (force simp: mb_fifo_ok_def mb_ok_def)+
  have new: "m_msg_counter ?m = m_msg_counter_mb b + 1" "m_LastEnqueueTime ?m = a" by (simp_all add: arrived_def)
  have set': "set (m_prio_heap b') = insert ?m (set (m_prio_heap b))"
    using h mset_eq_setD [of "push_heap msg_greater (m_prio_heap b) ?m" "?m # m_prio_heap b"] by simp
  have "distinct (map m_msg_counter (m_prio_heap b'))"
  proof -
    have "mset (map m_msg_counter (m_prio_heap b')) = mset (map m_msg_counter (?m # m_prio_heap b))"
      by (simp add: h)
    moreover have "distinct (map m_msg_counter (?m # m_prio_heap b))"
      using ok old(1) new(1) by (fastforce simp: mb_fifo_ok_def mb_ok_def)
    ultimately show ?thesis using mset_eq_imp_distinct_iff by blast
  qed
  moreover have "is_heap msg_greater (m_prio_heap b')"
    using ok unfolding h by (auto simp: mb_fifo_ok_def mb_ok_def intro: msg.push_heap_heap)
  ultimately have ok': "mb_fifo_ok b'"
    using old new ok a(2) by (fastforce simp: mb_fifo_ok_def mb_ok_def set' k)
  have "inj_on mb_key (insert ?m (set (m_prio_heap b)))"
    using mb_ok_inj [of b'] ok' by (simp add: set' mb_fifo_ok_def)
  moreover have "mb_key x \<le> mb_key ?m" if "x \<in> set (m_prio_heap b)" for x
    using old [OF that] new by (auto simp: mb_key_def less_eq_prod_def)
  ultimately have "mb_queue b' = mb_queue b @ [?m]"
    unfolding mb_queue_def h by (rule mb_queue_snoc)
  then show ?thesis using ok' by blast
qed

lemma mb_dequeue_Some:
  assumes "mb_dequeue t dm b e = Some (delay, m, b', e')"
  shows "mb_isReady t b \<and> m_prio_heap b' = pop_heap msg_greater (m_prio_heap b) \<and>
    m = (hd (m_prio_heap b))\<lparr>m_DelayedTicks := delay\<rparr> \<and>
    m_msg_counter_mb b' = m_msg_counter_mb b \<and> m_strict_fifo b' = m_strict_fifo b \<and>
    m_last_arrival_time b' = m_last_arrival_time b \<and> m_stall_msg_map b' = m_stall_msg_map b \<and>
    m_stall_map_size b' = m_stall_map_size b \<and> m_max_size b' = m_max_size b \<and> m_consumer b' = m_consumer b \<and> m_vnet_id b' = m_vnet_id b \<and>
    m_time_last_time_enqueue b' = m_time_last_time_enqueue b \<and> m_msgs_this_cycle b' = m_msgs_this_cycle b \<and>
    m_time_last_time_pop b' = max t (m_time_last_time_pop b) \<and>
    m_size_at_cycle_start b' =
      (if m_time_last_time_pop b < t then length (m_prio_heap b) else m_size_at_cycle_start b)"
  using assms
  by (auto simp: mb_dequeue_def bind_Some Let_def updateDelayedTicks_def split: if_splits)

lemma mb_dequeue_fifo:
  assumes ok: "mb_ok b" and run: "mb_dequeue t dm b e = Some (delay, m, b', e')"
  shows "mb_ok b' \<and> (\<exists>m0. mb_queue b = m0 # mb_queue b' \<and> m = m0\<lparr>m_DelayedTicks := delay\<rparr>)"
proof -
  note d = mb_dequeue_Some [OF run]
  have ne: "m_prio_heap b \<noteq> []" using d by (auto simp: mb_isReady_def)
  have ms: "mset (m_prio_heap b) = add_mset (hd (m_prio_heap b)) (mset (m_prio_heap b'))"
    using d ne by (simp add: mset_pop_heap)
  have "is_heap msg_greater (m_prio_heap b')"
    using d ok by (auto simp: mb_ok_def intro: msg.pop_heap_heap)
  moreover have "mset (map m_msg_counter (m_prio_heap b)) =
      mset (m_msg_counter (hd (m_prio_heap b)) # map m_msg_counter (m_prio_heap b'))" by (simp add: ms)
  then have "distinct (map m_msg_counter (m_prio_heap b'))"
    using ok mset_eq_imp_distinct_iff by (fastforce simp: mb_ok_def)
  moreover have "set (m_prio_heap b') \<subseteq> set (m_prio_heap b)"
    using ms by (metis mset_subset_eq_insertD set_mset_mset set_mset_mono mset_subset_eq_add_right add_mset_add_single union_commute)
  ultimately have "mb_ok b'" using d ok by (auto simp: mb_ok_def)
  moreover have "mb_queue b = hd (m_prio_heap b) # mb_queue b'"
    using mb_queue_front [OF ok ne] d by (simp add: mb_queue_def)
  ultimately show ?thesis using d by blast
qed

text \<open>Without random delays an enqueue fails only by breaking the FIFO order or the time order.\<close>

lemma mb_enqueue_total:
  assumes "\<not> rs_randomization sys" "\<not> m_randomization b" "0 < d" "m_LastEnqueueTime m \<le> t"
    "m_strict_fifo b \<longrightarrow> m_last_arrival_time b \<le> t + d" "m_consumer b = Some c" "clockEdge e 0 \<le> t + d"
  shows "\<exists>b' e'. mb_enqueue sys m t d b e = Some (b', e')"
proof -
  have "arrival_of sys t d (count_enqueue t b) e = (t + d, count_enqueue t b, e)"
    using assms by (simp add: arrival_of_def)
  moreover obtain e' where "scheduleEventAbsolute c (t + d) e = Some e'"
    using scheduleEventAbsolute_total [OF assms(7)] by blast
  ultimately show ?thesis
    using assms by (auto simp: mb_enqueue_def Let_def updateDelayedTicks_def)
qed

lemma mb_dequeue_total:
  assumes "mb_isReady t b"
  shows "\<exists>r. mb_dequeue t dm b e = Some r"
proof -
  have "\<exists>e'. scheduleEventAbsolute c (clockEdge e 1) e = Some e'" for c
    by (rule scheduleEventAbsolute_total) (simp add: clockEdge_mono)
  then obtain f where "\<And>c. scheduleEventAbsolute c (clockEdge e 1) e = Some (f c)" by metis
  moreover have "m_LastEnqueueTime (hd (m_prio_heap b)) \<le> t" using assms by (simp add: mb_isReady_def)
  ultimately show ?thesis using assms
    by (auto simp: mb_dequeue_def Let_def updateDelayedTicks_def split: option.splits)
qed

text \<open>Both only ask for wake-ups of the shared state.\<close>

lemma mb_dequeue_calm: "mb_dequeue t dm b e = Some (d, m, b', e') \<Longrightarrow> calm e e'"
  by (auto simp: mb_dequeue_def bind_Some Let_def split: option.splits if_splits dest: scheduleEventAbsolute_calm)

lemma arrival_of_calm: "arrival_of sys t d b e = (a, b', e') \<Longrightarrow> calm e e'"
  by (auto simp: arrival_of_def random_time_def random_range_def random_draw_def Let_def calm_def ctx_def
      split: if_splits prod.splits)

lemma mb_enqueue_env: "mb_enqueue sys m t d b e = Some (b', e') \<Longrightarrow> calm e e'"
proof -
  assume run: "mb_enqueue sys m t d b e = Some (b', e')"
  obtain a b3 e1 where ar: "arrival_of sys t d (count_enqueue t b) e = (a, b3, e1)" by (metis prod_cases3)
  obtain c where "scheduleEventAbsolute c a e1 = Some e'" using mb_enqueue_run [OF run ar] by blast
  then show "calm e e'" using arrival_of_calm [OF ar] scheduleEventAbsolute_calm calm_trans by blast
qed

lemma mb_enqueue_heap:
  assumes "mb_enqueue sys m t d b e = Some (b', e')"
  obtains a k where "t < a" "m_prio_heap b' = push_heap msg_greater (m_prio_heap b) (arrived t a k m)"
    "m_consumer b' = m_consumer b" "m_vnet_id b' = m_vnet_id b"
proof -
  obtain a where a: "t < a" and b': "b' = (count_enqueue t b)\<lparr>m_last_arrival_time := m_last_arrival_time b',
       m_prio_heap := push_heap msg_greater (m_prio_heap b) (arrived t a (m_msg_counter_mb b + 1) m),
       m_buf_msgs := m_buf_msgs b + 1\<rparr>"
    using assms by (rule mb_enqueue_Some) (rule that)
  have "m_prio_heap b' = push_heap msg_greater (m_prio_heap b) (arrived t a (m_msg_counter_mb b + 1) m)"
    "m_consumer b' = m_consumer b" "m_vnet_id b' = m_vnet_id b" by (subst b', simp)+
  then show thesis using that a by blast
qed

section \<open>Examples\<close>

text \<open>Concrete buffers for examples.\<close>

definition sample_sys :: ruby_system where
  "sample_sys = \<lparr>rs_randomization = False, rs_warmup_enabled = False, rs_block_size_bits = 6\<rparr>"

definition sample_msg :: "Tick \<Rightarrow> Message" where
  "sample_msg t = Message_new t \<lparr>m_bits = []\<rparr> Control"

definition sample_mb :: "nat \<Rightarrow> MessageBuffer" where
  "sample_mb cap = (MessageBuffer_new cap True False)\<lparr>m_consumer := Some (C_NI 0)\<rparr>"

lemmas sample_mb_defs = sample_mb_def sample_env_def sample_sys_def sample_msg_def sample_cfg_def
  Message_new_def MessageBuffer_new_def clockEdge_def

section \<open>First in, first out\<close>

text \<open>
  A contract of queues with a putting and a getting step, and its consequence for histories: what
  was inside and what came in equals what came out and what is still inside.
\<close>

inductive fifo_run :: "('s \<Rightarrow> 'a \<Rightarrow> 's \<Rightarrow> bool) \<Rightarrow> ('s \<Rightarrow> 'a \<Rightarrow> 's \<Rightarrow> bool) \<Rightarrow>
    's \<Rightarrow> 'a list \<Rightarrow> 'a list \<Rightarrow> 's \<Rightarrow> bool" for put get where
  start: "fifo_run put get s [] [] s"
| enter: "fifo_run put get s ins outs s1 \<Longrightarrow> put s1 x s2 \<Longrightarrow> fifo_run put get s (ins @ [x]) outs s2"
| leave: "fifo_run put get s ins outs s1 \<Longrightarrow> get s1 x s2 \<Longrightarrow> fifo_run put get s ins (outs @ [x]) s2"

locale fifo_queue =
  fixes invar :: "'s \<Rightarrow> bool" and q :: "'s \<Rightarrow> 'a list"
    and put :: "'s \<Rightarrow> 'a \<Rightarrow> 's \<Rightarrow> bool" and get :: "'s \<Rightarrow> 'a \<Rightarrow> 's \<Rightarrow> bool"
  assumes put_snoc: "invar s \<Longrightarrow> put s x s' \<Longrightarrow> invar s' \<and> q s' = q s @ [x]"
    and get_cons: "invar s \<Longrightarrow> get s x s' \<Longrightarrow> invar s' \<and> q s = x # q s'"
begin

lemma run_order:
  assumes "fifo_run put get s ins outs s'" "invar s"
  shows "invar s' \<and> q s @ ins = outs @ q s'"
  using assms
proof (induction rule: fifo_run.induct)
  case (enter s ins outs s1 x s2)
  then show ?case using put_snoc [of s1 x s2] by (metis append.assoc)
next
  case (leave s ins outs s1 x s2)
  then show ?case using get_cons [of s1 x s2] by simp
qed simp

end

text \<open>A message without the fields the buffer stamps.\<close>

definition content :: "Message \<Rightarrow> Message" where
  "content m = m\<lparr>m_LastEnqueueTime := 0, m_DelayedTicks := 0, m_msg_counter := 0\<rparr>"

definition mb_put :: "ruby_system \<Rightarrow> MessageBuffer \<Rightarrow> Message \<Rightarrow> MessageBuffer \<Rightarrow> bool" where
  "mb_put sys b x b' \<longleftrightarrow> \<not> rs_warmup_enabled sys \<and>
     (\<exists>m t d e e'. x = content m \<and> mb_enqueue sys m t d b e = Some (b', e'))"

definition mb_get :: "MessageBuffer \<Rightarrow> Message \<Rightarrow> MessageBuffer \<Rightarrow> bool" where
  "mb_get b x b' \<longleftrightarrow>
     (\<exists>t dm e delay m e'. x = content m \<and> mb_dequeue t dm b e = Some (delay, m, b', e'))"

lemma content_arrived [simp]: "content (arrived t a n m) = content m"
  "content (m\<lparr>m_DelayedTicks := d\<rparr>) = content m"
  by (simp_all add: content_def arrived_def)

interpretation mbq: fifo_queue mb_fifo_ok "\<lambda>b. map content (mb_queue b)" "mb_put sys" mb_get
proof
  show "mb_fifo_ok b' \<and> map content (mb_queue b') = map content (mb_queue b) @ [x]"
    if "mb_fifo_ok b" "mb_put sys b x b'" for b x b'
    using that mb_enqueue_fifo by (fastforce simp: mb_put_def)
  show "mb_fifo_ok b' \<and> map content (mb_queue b) = x # map content (mb_queue b')"
    if ok: "mb_fifo_ok b" and g: "mb_get b x b'" for b x b'
  proof -
    obtain t dm e delay m e' where m: "x = content m" "mb_dequeue t dm b e = Some (delay, m, b', e')"
      using g by (auto simp: mb_get_def)
    then obtain m0 where q: "mb_queue b = m0 # mb_queue b'" "m = m0\<lparr>m_DelayedTicks := delay\<rparr>" "mb_ok b'"
      using mb_dequeue_fifo [of b t dm e delay m b' e'] ok unfolding mb_fifo_ok_def by blast
    have "set (m_prio_heap b') \<subseteq> set (m_prio_heap b)"
      using arg_cong [OF q(1), of set] by auto
    then have "mb_fifo_ok b'" using ok q(3) mb_dequeue_Some [OF m(2)] by (auto simp: mb_fifo_ok_def)
    then show ?thesis using q m by simp
  qed
qed

text \<open>C21. A strictly ordered message buffer is first in, first out over every history: after any sequence of
  enqueues and dequeues (outside cache warm-up), the messages that were waiting at the start,
  followed by those that entered, are exactly those that left, in the order in which they left,
  followed by those still waiting.
\<close>

theorem message_buffer_fifo:
  assumes "mb_fifo_ok b" "fifo_run (mb_put sys) mb_get b ins outs b'"
  shows "map content (mb_queue b) @ ins = outs @ map content (mb_queue b')"
  using mbq.run_order [OF assms(2,1)] by blast

theorem message_buffer_fifo_witness:
  "mb_fifo_ok (sample_mb 0) \<and>
   (\<exists>x b. fifo_run (mb_put sample_sys) mb_get (sample_mb 0)
       [content (sample_msg 0), content (sample_msg 1)] [x] b \<and>
     map content (mb_queue (sample_mb 0)) @ [content (sample_msg 0), content (sample_msg 1)] =
       [x] @ map content (mb_queue b))"
proof -
  have ok: "mb_fifo_ok (sample_mb 0)"
    by (simp add: mb_fifo_ok_def mb_ok_def sample_mb_def MessageBuffer_new_def)
  obtain b1 e1 where s1: "mb_enqueue sample_sys (sample_msg 0) 1 1 (sample_mb 0) (sample_env 1) = Some (b1, e1)"
    using mb_enqueue_total [of sample_sys "sample_mb 0" 1 "sample_msg 0" 1 "C_NI 0" "sample_env 1"]
    by (auto simp: sample_mb_defs)
  have ok1: "mb_fifo_ok b1" using mb_enqueue_fifo [OF ok _ s1] by (simp add: sample_sys_def)
  have b1: "m_consumer b1 = Some (C_NI 0)" "m_randomization b1 = False" "m_last_arrival_time b1 = 2"
    using s1 by (auto simp: mb_enqueue_def arrival_of_def Let_def sample_mb_defs updateDelayedTicks_def bind_Some)
  obtain b2 e2 where s2: "mb_enqueue sample_sys (sample_msg 1) 1 1 b1 (sample_env 1) = Some (b2, e2)"
    using mb_enqueue_total [of sample_sys b1 1 "sample_msg 1" 1 "C_NI 0" "sample_env 1"] b1
    by (auto simp: sample_mb_defs)
  have ok2: "mb_fifo_ok b2" "mb_queue b2 \<noteq> []" "m_last_arrival_time b2 = 2"
    using mb_enqueue_fifo [OF ok1 _ s2] s2 b1
    by (auto simp: sample_sys_def mb_enqueue_def arrival_of_def Let_def updateDelayedTicks_def bind_Some)
  then have "mb_isReady 2 b2"
    using mb_queue_mset [of b2] by (cases "m_prio_heap b2") (auto simp: mb_isReady_def mb_fifo_ok_def)
  then obtain d m b3 e3 where s3: "mb_dequeue 2 True b2 (sample_env 2) = Some (d, m, b3, e3)"
    using mb_dequeue_total [of 2 b2 True "sample_env 2"] by (metis prod_cases4)
  note steps = s1 s2 s3
  have p: "mb_put sample_sys (sample_mb 0) (content (sample_msg 0)) b1"
    "mb_put sample_sys b1 (content (sample_msg 1)) b2" "mb_get b2 (content m) b3"
  proof -
    have "\<not> rs_warmup_enabled sample_sys" by (simp add: sample_sys_def)
    then show "mb_put sample_sys (sample_mb 0) (content (sample_msg 0)) b1"
      "mb_put sample_sys b1 (content (sample_msg 1)) b2" "mb_get b2 (content m) b3"
      using steps unfolding mb_put_def mb_get_def by blast+
  qed
  let ?run = "fifo_run (mb_put sample_sys) mb_get (sample_mb 0)"
  have "?run [] [] (sample_mb 0)" by (rule fifo_run.start)
  then have "?run ([] @ [content (sample_msg 0)]) [] b1" using p(1) by (rule fifo_run.enter)
  then have "?run (([] @ [content (sample_msg 0)]) @ [content (sample_msg 1)]) [] b2"
    using p(2) by (rule fifo_run.enter)
  then have "?run (([] @ [content (sample_msg 0)]) @ [content (sample_msg 1)]) ([] @ [content m]) b3"
    using p(3) by (rule fifo_run.leave)
  then have run: "fifo_run (mb_put sample_sys) mb_get (sample_mb 0)
      [content (sample_msg 0), content (sample_msg 1)] [content m] b3" by simp
  show ?thesis using ok run message_buffer_fifo [OF ok run] by blast
qed

section \<open>Capacity\<close>

text \<open>
  The bookkeeping of a cycle at time \<open>t\<close>: the size the sender sees is never below the real one, and
  a bounded buffer holds at most its capacity.
\<close>

definition mb_cap_ok :: "Tick \<Rightarrow> MessageBuffer \<Rightarrow> bool" where
  "mb_cap_ok t b \<longleftrightarrow> m_time_last_time_pop b \<le> t \<and> m_time_last_time_enqueue b \<le> t \<and>
     length (m_prio_heap b) \<le> visible_size t b \<and> 0 \<le> m_stall_map_size b \<and>
     (0 < m_max_size b \<longrightarrow> int (length (m_prio_heap b)) + m_stall_map_size b \<le> int (m_max_size b))"

lemma areNSlotsAvailable_room:
  assumes "areNSlotsAvailable n t b = (True, b')" "mb_cap_ok t b"
  shows "b' = b \<and> (0 < m_max_size b \<longrightarrow>
    int (length (m_prio_heap b)) + m_stall_map_size b + int n \<le> int (m_max_size b))"
  using assms by (auto simp: areNSlotsAvailable_def mb_cap_ok_def split: if_splits)

lemma mb_enqueue_cap:
  assumes "mb_cap_ok t b" "mb_enqueue sys m t d b e = Some (b', e')"
    "0 < m_max_size b \<longrightarrow> int (length (m_prio_heap b)) + m_stall_map_size b + 1 \<le> int (m_max_size b)"
  shows "mb_cap_ok t b'"
  using assms(2)
proof (cases rule: mb_enqueue_Some)
  case (1 a c e1)
  have h: "m_prio_heap b' = push_heap msg_greater (m_prio_heap b) (arrived t a (m_msg_counter_mb b + 1) m)"
    "m_time_last_time_pop b' = m_time_last_time_pop b" "m_size_at_cycle_start b' = m_size_at_cycle_start b"
    "m_time_last_time_enqueue b' = max t (m_time_last_time_enqueue b)" "m_stall_map_size b' = m_stall_map_size b"
    "m_msgs_this_cycle b' = (if m_time_last_time_enqueue b < t then 1 else m_msgs_this_cycle b + 1)"
    "m_max_size b' = m_max_size b"
    by (subst 1(11), simp)+
  have "length (m_prio_heap b') \<le> visible_size t b'"
    using assms(1) by (auto simp: mb_cap_ok_def visible_size_def h split: if_splits)
  then show ?thesis using assms(1,3) by (auto simp: mb_cap_ok_def h)
qed

lemma mb_dequeue_cap:
  assumes "mb_cap_ok t b" "mb_dequeue t dm b e = Some (delay, m, b', e')"
  shows "mb_cap_ok t b'"
proof -
  note d = mb_dequeue_Some [OF assms(2)]
  have ne: "m_prio_heap b \<noteq> []" using d by (auto simp: mb_isReady_def)
  then have l: "length (m_prio_heap b') = length (m_prio_heap b) - 1" using d by (simp add: length_pop_heap)
  have "length (m_prio_heap b) - 1 \<le> visible_size t b'"
    using assms(1) d ne by (auto simp: mb_cap_ok_def visible_size_def split: if_splits)
  then show ?thesis using assms(1) d l by (auto simp: mb_cap_ok_def)
qed

text \<open>C22. A sender that finds a slot before it enqueues never overfills a bounded buffer, whatever the
  order of enqueues and dequeues within a cycle: when the buffer's bookkeeping is sound
  (\<open>mb_cap_ok\<close>, true of a new buffer) and \<^verbatim>\<open>areNSlotsAvailable(1)\<close> says yes, the enqueue keeps it
  sound, and so does every dequeue; soundness includes the bound on queued plus stalled messages,
  and it survives the step to a later cycle.
\<close>

theorem message_buffer_capacity:
  "mb_cap_ok 0 (MessageBuffer_new cap ord rnd) \<and>
   (mb_cap_ok t b \<longrightarrow> t \<le> t' \<longrightarrow> mb_cap_ok t' b) \<and>
   (mb_cap_ok t b \<longrightarrow> areNSlotsAvailable 1 t b = (True, b1) \<longrightarrow>
      mb_enqueue sys m t d b1 e = Some (b2, e2) \<longrightarrow> mb_cap_ok t b2) \<and>
   (mb_cap_ok t b \<longrightarrow> mb_dequeue t dm b e = Some (delay, m', b3, e3) \<longrightarrow> mb_cap_ok t b3)"
proof (intro conjI impI)
  show "mb_cap_ok 0 (MessageBuffer_new cap ord rnd)"
    by (simp add: mb_cap_ok_def MessageBuffer_new_def visible_size_def)
  show "mb_cap_ok t' b" if "mb_cap_ok t b" "t \<le> t'"
    using that by (cases "t = t'") (auto simp: mb_cap_ok_def visible_size_def)
  show "mb_cap_ok t b2" if ok: "mb_cap_ok t b" and sl: "areNSlotsAvailable 1 t b = (True, b1)"
    and "mb_enqueue sys m t d b1 e = Some (b2, e2)"
    using areNSlotsAvailable_room [OF sl ok] that mb_enqueue_cap by auto
qed (rule mb_dequeue_cap)

theorem message_buffer_capacity_witness:
  "\<exists>b e. mb_enqueue sample_sys (sample_msg 0) 1 1 (sample_mb 1) (sample_env 1) = Some (b, e) \<and>
     mb_cap_ok 1 b \<and> \<not> fst (areNSlotsAvailable 1 1 b)"
proof -
  obtain b e where b: "mb_enqueue sample_sys (sample_msg 0) 1 1 (sample_mb 1) (sample_env 1) = Some (b, e)"
    using mb_enqueue_total [of sample_sys "sample_mb 1" 1 "sample_msg 0" 1 "C_NI 0" "sample_env 1"]
    by (auto simp: sample_mb_defs)
  have "mb_cap_ok 1 (sample_mb 1)" "areNSlotsAvailable 1 1 (sample_mb 1) = (True, sample_mb 1)"
    by (simp_all add: mb_cap_ok_def sample_mb_def MessageBuffer_new_def visible_size_def areNSlotsAvailable_def)
  then have "mb_cap_ok 1 b" using message_buffer_capacity [of 0 True False 1 "sample_mb 1" 1 "sample_mb 1"] b by blast
  moreover have "visible_size 1 b = 1" "m_max_size b = 1" "m_stall_map_size b = 0"
    using b by (auto simp: mb_enqueue_def arrival_of_def Let_def sample_mb_defs
        updateDelayedTicks_def bind_Some visible_size_def)
  then have "\<not> fst (areNSlotsAvailable 1 1 b)" by (simp add: areNSlotsAvailable_def)
  ultimately show ?thesis using b by blast
qed

section \<open>Stalled messages\<close>

definition stalled :: "MessageBuffer \<Rightarrow> Message multiset" where
  "stalled b = (\<Sum>(a, lt)\<leftarrow>m_stall_msg_map b. mset lt)"

text \<open>Everything the buffer holds, up to the stamps, and the invariant of the stall map.\<close>

definition mb_messages :: "MessageBuffer \<Rightarrow> Message multiset" where
  "mb_messages b = image_mset content (mset (m_prio_heap b) + stalled b)"

definition mb_stall_ok :: "MessageBuffer \<Rightarrow> bool" where
  "mb_stall_ok b \<longleftrightarrow> m_stall_map_size b = int (size (stalled b)) \<and> distinct (map fst (m_stall_msg_map b))"

lemma stall_push_stalled:
  "(\<Sum>(a, lt)\<leftarrow>stall_push addr m sm. mset lt) = add_mset m (\<Sum>(a, lt)\<leftarrow>sm. mset lt)"
  by (induction addr m sm rule: stall_push.induct) auto

lemma stall_push_keys: "set (map fst (stall_push addr m sm)) = insert addr (set (map fst sm))"
  by (induction addr m sm rule: stall_push.induct) auto

lemma stall_push_distinct:
  "sorted_wrt (<) (map fst sm) \<Longrightarrow> sorted_wrt (<) (map fst (stall_push addr m sm))"
proof (induction addr m sm rule: stall_push.induct)
  case (2 addr m a lt rest)
  then show ?case using stall_push_keys [of addr m rest] by (auto simp: image_iff)
qed simp

lemma reanalyzeList_frame:
  assumes "reanalyzeList lt t b e = Some (b', e')"
  shows "m_stall_msg_map b' = m_stall_msg_map b \<and> m_stall_map_size b' = m_stall_map_size b \<and>
    m_consumer b' = m_consumer b \<and>
    image_mset content (mset (m_prio_heap b')) =
      image_mset content (mset (m_prio_heap b)) + image_mset content (mset lt)"
  using assms
proof (induction lt arbitrary: b e)
  case (Cons m lt)
  let ?b = "b\<lparr>m_msg_counter_mb := m_msg_counter_mb b + 1,
    m_prio_heap := push_heap msg_greater (m_prio_heap b)
      (m\<lparr>m_LastEnqueueTime := t, m_msg_counter := m_msg_counter_mb b + 1\<rparr>)\<rparr>"
  obtain e1 where "reanalyzeList lt t ?b e1 = Some (b', e')"
    using Cons.prems by (auto simp: bind_Some Let_def)
  from Cons.IH [OF this] show ?case by (simp add: content_def)
qed simp

lemma reanalyzeList_total:
  assumes "m_consumer b = Some c" "clockEdge e 0 \<le> t"
  shows "\<exists>r. reanalyzeList lt t b e = Some r"
  using assms
proof (induction lt arbitrary: b e)
  case (Cons m lt)
  obtain e1 where e1: "scheduleEventAbsolute c t e = Some e1"
    using scheduleEventAbsolute_total [OF Cons.prems(2)] by blast
  then have "clockEdge e1 0 = clockEdge e 0"
    using scheduleEventAbsolute_frame by (metis clockEdge_cong)
  then show ?case using Cons.IH Cons.prems e1 by (simp add: Let_def)
qed simp

lemma reanalyzeList_env:
  "reanalyzeList lt t b e = Some (b', e') \<Longrightarrow> clockEdge e' 0 = clockEdge e 0"
proof (induction lt arbitrary: b e)
  case (Cons m lt)
  then obtain c e1 b1 where "scheduleEventAbsolute c t e = Some e1" "reanalyzeList lt t b1 e1 = Some (b', e')"
    by (auto simp: bind_Some Let_def)
  then show ?case using Cons.IH scheduleEventAbsolute_frame by (metis clockEdge_cong)
qed simp

lemma reanalyze_loop:
  assumes "m_consumer b = Some c" "clockEdge e 0 \<le> t"
    "int (size (\<Sum>(a, lt)\<leftarrow>sm. mset lt)) \<le> m_stall_map_size b"
  shows "\<exists>b' e'. for_each (\<lambda>(a, lt) (b, e). do {
         let b = b\<lparr>m_stall_map_size := m_stall_map_size b - int (length lt)\<rparr>;
         cassert (m_stall_map_size b \<ge> 0);
         reanalyzeList lt t b e }) sm (b, e) = Some (b', e') \<and>
    m_stall_map_size b' = m_stall_map_size b - int (size (\<Sum>(a, lt)\<leftarrow>sm. mset lt)) \<and>
    image_mset content (mset (m_prio_heap b')) =
      image_mset content (mset (m_prio_heap b)) + image_mset content (\<Sum>(a, lt)\<leftarrow>sm. mset lt)"
  using assms
proof (induction sm arbitrary: b e)
  case (Cons p sm)
  obtain a lt where p: "p = (a, lt)" by (cases p)
  let ?b = "b\<lparr>m_stall_map_size := m_stall_map_size b - int (length lt)\<rparr>"
  obtain b1 e1 where r: "reanalyzeList lt t ?b e = Some (b1, e1)"
    using reanalyzeList_total [of ?b c e t lt] Cons.prems by auto
  note f = reanalyzeList_frame [OF r] and g = reanalyzeList_env [OF r]
  have "\<exists>b' e'. for_each (\<lambda>(a, lt) (b, e). do {
         let b = b\<lparr>m_stall_map_size := m_stall_map_size b - int (length lt)\<rparr>;
         cassert (m_stall_map_size b \<ge> 0);
         reanalyzeList lt t b e }) sm (b1, e1) = Some (b', e') \<and>
    m_stall_map_size b' = m_stall_map_size b1 - int (size (\<Sum>(a, lt)\<leftarrow>sm. mset lt)) \<and>
    image_mset content (mset (m_prio_heap b')) =
      image_mset content (mset (m_prio_heap b1)) + image_mset content (\<Sum>(a, lt)\<leftarrow>sm. mset lt)"
    by (rule Cons.IH) (use Cons.prems f g p in auto)
  then show ?case using f r Cons.prems(3) by (auto simp: p Let_def)
qed simp



end
