(* ===== verification/Network_Interface.thy ===== *)
theory Network_Interface
  imports Message_Buffer Input_Unit
begin

text \<open>
  \<^verbatim>\<open>class NetworkInterface\<close> (garnet2.0/NetworkInterface.hh, NetworkInterface.cc): turns protocol
  messages into flits and injects them, receives flits, returns credits and hands messages to the
  protocol, with a stall queue for messages the protocol has no room for.

  The message buffers to and from the protocol are the interface's own in the model; a null pointer
  in the two vectors is \<open>None\<close>. Links are positions in the shared vectors. The network's
  \<^verbatim>\<open>get_router_id\<close> and the generated \<^verbatim>\<open>MachineType_*\<close> functions are the arguments \<open>router_of\<close> and
  \<open>mc\<close>. The double arithmetic of the flit count is exact division rounded up.
\<close>

record NetworkInterface =
  m_id_ni :: int
  m_virtual_networks_ni :: int
  m_vc_per_vnet_ni :: int
  m_num_vcs_ni :: int
  m_router_id :: int
  m_out_vc_state :: "OutVcState list"
  m_vc_allocator :: "int list"
  m_vc_round_robin :: int
  outFlitQueue :: "flit flitBuffer"
  outCreditQueue :: "credit flitBuffer"
  m_deadlock_threshold :: int
  inNetLink :: int
  outNetLink :: int
  inCreditLink :: int
  outCreditLink :: int
  m_stall_queue :: "flit list"
  m_stall_count :: "int list"
  m_ni_out_vcs :: "flit flitBuffer list"
  m_ni_out_vcs_enqueue_time :: "Cycles list"
  inNode_ptr :: "MessageBuffer option list"
  outNode_ptr :: "MessageBuffer option list"
  vc_busy_counter :: "int list"

section \<open>Construction and wiring\<close>

text \<open>The link pointers and \<^verbatim>\<open>outFlitQueue\<close> get their values in \<^verbatim>\<open>addInPort\<close> and \<^verbatim>\<open>addOutPort\<close>.\<close>

definition NetworkInterface_new :: "int \<Rightarrow> int \<Rightarrow> int \<Rightarrow> int \<Rightarrow> NetworkInterface" where
  "NetworkInterface_new i virt_nets vcs_per_vnet deadlock_threshold =
     (let n = nat (vcs_per_vnet * virt_nets); k = nat virt_nets in
      \<lparr>m_id_ni = i, m_virtual_networks_ni = virt_nets, m_vc_per_vnet_ni = vcs_per_vnet,
       m_num_vcs_ni = vcs_per_vnet * virt_nets, m_router_id = -1, m_out_vc_state = [],
       m_vc_allocator = replicate k 0, m_vc_round_robin = 0, outFlitQueue = flitBuffer_new,
       outCreditQueue = flitBuffer_new, m_deadlock_threshold = deadlock_threshold,
       inNetLink = -1, outNetLink = -1, inCreditLink = -1, outCreditLink = -1,
       m_stall_queue = [], m_stall_count = replicate k 0,
       m_ni_out_vcs = replicate n flitBuffer_new,
       m_ni_out_vcs_enqueue_time = replicate n INFINITE_TIME, inNode_ptr = [], outNode_ptr = [],
       vc_busy_counter = replicate k 0\<rparr>)"

definition ni_init :: "garnet_cfg \<Rightarrow> NetworkInterface \<Rightarrow> NetworkInterface option" where
  "ni_init c n = do {
     ss \<leftarrow> for_each (\<lambda>i ss. do { s \<leftarrow> OutVcState_new c i; Some (ss @ [s]) })
       [0..m_num_vcs_ni n - 1] (m_out_vc_state n);
     Some (n\<lparr>m_out_vc_state := ss\<rparr>) }"

definition ni_addInPort :: "int \<Rightarrow> int \<Rightarrow> NetworkInterface \<Rightarrow> env \<Rightarrow> (NetworkInterface \<times> env) option" where
  "ni_addInPort in_link credit_link n e = do {
     l \<leftarrow> vec_at (m_networklinks e) in_link;
     ls \<leftarrow> vec_set (m_networklinks e) in_link (setLinkConsumer (C_NI (m_id_ni n)) l);
     cl \<leftarrow> vec_at (m_creditlinks e) credit_link;
     cls \<leftarrow> vec_set (m_creditlinks e) credit_link (setSourceQueue (Q_NICredit (m_id_ni n)) cl);
     Some (n\<lparr>inNetLink := in_link, outCreditLink := credit_link\<rparr>,
           e\<lparr>m_networklinks := ls, m_creditlinks := cls\<rparr>) }"

definition ni_addOutPort :: "int \<Rightarrow> int \<Rightarrow> int \<Rightarrow> NetworkInterface \<Rightarrow> env \<Rightarrow> (NetworkInterface \<times> env) option" where
  "ni_addOutPort out_link credit_link router_id n e = do {
     cl \<leftarrow> vec_at (m_creditlinks e) credit_link;
     cls \<leftarrow> vec_set (m_creditlinks e) credit_link (setLinkConsumer (C_NI (m_id_ni n)) cl);
     l \<leftarrow> vec_at (m_networklinks e) out_link;
     ls \<leftarrow> vec_set (m_networklinks e) out_link (setSourceQueue (Q_NIFlit (m_id_ni n)) l);
     Some (n\<lparr>inCreditLink := credit_link, outNetLink := out_link, outFlitQueue := flitBuffer_new,
             m_router_id := router_id\<rparr>,
           e\<lparr>m_networklinks := ls, m_creditlinks := cls\<rparr>) }"

fun set_consumers :: "consumer \<Rightarrow> MessageBuffer option list \<Rightarrow> MessageBuffer option list option" where
  "set_consumers c [] = Some []"
| "set_consumers c (None # bs) = do { bs \<leftarrow> set_consumers c bs; Some (None # bs) }"
| "set_consumers c (Some b # bs) = do {
     b \<leftarrow> setConsumer c b;
     bs \<leftarrow> set_consumers c bs;
     Some (Some b # bs) }"

definition addNode ::
    "MessageBuffer option list \<Rightarrow> MessageBuffer option list \<Rightarrow> NetworkInterface \<Rightarrow> NetworkInterface option" where
  "addNode inb outb n = do {
     inb \<leftarrow> set_consumers (C_NI (m_id_ni n)) inb;
     Some (n\<lparr>inNode_ptr := inb, outNode_ptr := outb\<rparr>) }"

definition dequeueCallback :: "NetworkInterface \<Rightarrow> env \<Rightarrow> env option" where
  "dequeueCallback n e = scheduleEventAbsolute (C_NI (m_id_ni n)) (clockEdge e 1) e"

text \<open>\<^verbatim>\<open>outNode_ptr[vnet]\<close>, which must not be null.\<close>

definition out_node :: "NetworkInterface \<Rightarrow> int \<Rightarrow> MessageBuffer option" where
  "out_node n vnet = do { mb \<leftarrow> vec_at (outNode_ptr n) vnet; mb }"

definition set_out_node :: "int \<Rightarrow> MessageBuffer \<Rightarrow> NetworkInterface \<Rightarrow> NetworkInterface option" where
  "set_out_node vnet mb n = do {
     bs \<leftarrow> vec_set (outNode_ptr n) vnet (Some mb);
     Some (n\<lparr>outNode_ptr := bs\<rparr>) }"

section \<open>Statistics of a received flit\<close>

definition incrementStats :: "flit \<Rightarrow> env \<Rightarrow> env option" where
  "incrementStats t_flit e = do {
     let vnet = m_vnet t_flit;
     s \<leftarrow> increment_received_flits vnet (stats e);
     d \<leftarrow> cyc_sub (m_dequeue_time t_flit) (m_enqueue_time t_flit);
     network_delay \<leftarrow> cyc_sub d 1;
     let src_queueing_delay = src_delay t_flit;
     dest_queueing_delay \<leftarrow> cyc_sub (curCycle e) (m_dequeue_time t_flit);
     let queueing_delay = src_queueing_delay + dest_queueing_delay;
     let total_delay = queueing_delay + network_delay;
     s \<leftarrow> increment_flit_network_latency network_delay vnet s;
     s \<leftarrow> increment_flit_queueing_latency queueing_delay vnet s;
     let s = update_flit_latency_histogram total_delay s;
     let s = update_flit_network_latency_histogram network_delay s;
     let s = update_flit_queueing_latency_histogram queueing_delay s;
     s \<leftarrow> update_network_latency_histogram network_delay s;
     s \<leftarrow> (if m_type t_flit = TAIL \<or> m_type t_flit = HEAD_TAIL then do {
            s \<leftarrow> increment_received_packets vnet s;
            s \<leftarrow> increment_packet_network_latency network_delay vnet s;
            increment_packet_queueing_latency queueing_delay vnet s }
          else Some s);
     Some (e\<lparr>stats := increment_total_hops (hops_traversed (m_route t_flit)) s\<rparr>) }"

definition sendCredit :: "flit \<Rightarrow> bool \<Rightarrow> NetworkInterface \<Rightarrow> env \<Rightarrow> NetworkInterface" where
  "sendCredit t_flit is_free n e =
     n\<lparr>outCreditQueue := fb_insert (outCreditQueue n) (Credit_new (m_vc t_flit) is_free (curCycle e))\<rparr>"

section \<open>Injection\<close>

text \<open>The loop of \<^verbatim>\<open>calculateVC\<close>: the next idle channel of the virtual network, round robin.\<close>

fun calc_vc :: "nat \<Rightarrow> int \<Rightarrow> Cycles \<Rightarrow> NetworkInterface \<Rightarrow> (int \<times> NetworkInterface) option" where
  "calc_vc 0 vnet now n = do {
     busy \<leftarrow> vec_add (vc_busy_counter n) vnet 1;
     b \<leftarrow> vec_at busy vnet;
     cassert (\<not> b > m_deadlock_threshold n);
     Some (-1, n\<lparr>vc_busy_counter := busy\<rparr>) }"
| "calc_vc (Suc k) vnet now n = do {
     delta \<leftarrow> vec_at (m_vc_allocator n) vnet;
     al \<leftarrow> vec_set (m_vc_allocator n) vnet (if delta + 1 = m_vc_per_vnet_ni n then 0 else delta + 1);
     let n = n\<lparr>m_vc_allocator := al\<rparr>;
     s \<leftarrow> vec_at (m_out_vc_state n) (vnet * m_vc_per_vnet_ni n + delta);
     if isInState s IDLE now then do {
       busy \<leftarrow> vec_set (vc_busy_counter n) vnet 0;
       Some (vnet * m_vc_per_vnet_ni n + delta, n\<lparr>vc_busy_counter := busy\<rparr>) }
     else calc_vc k vnet now n }"

definition calculateVC :: "int \<Rightarrow> Cycles \<Rightarrow> NetworkInterface \<Rightarrow> (int \<times> NetworkInterface) option" where
  "calculateVC vnet now n = calc_vc (nat (m_vc_per_vnet_ni n)) vnet now n"

text \<open>The machine type whose node range contains \<^verbatim>\<open>destID\<close>, and the set with that node alone.\<close>

fun personal_dest :: "machine_cfg \<Rightarrow> int \<Rightarrow> int list \<Rightarrow> NetDest \<Rightarrow> (NetDest \<times> bool) option" where
  "personal_dest mc destID [] d = Some (d, False)"
| "personal_dest mc destID (m # ms) d =
     (if destID \<ge> MachineType_base_number mc m \<and> destID < MachineType_base_number mc (m + 1) then do {
        d \<leftarrow> NetDest_add mc (NetDest_clear d)
               \<lparr>mid_type = m, mid_num = destID - MachineType_base_number mc m\<rparr>;
        Some (d, True) }
      else personal_dest mc destID ms d)"

text \<open>A multicast message is split: the clone keeps one destination, the original loses it.\<close>

definition split_dest :: "machine_cfg \<Rightarrow> int \<Rightarrow> nat \<Rightarrow> Message \<Rightarrow> (Message \<times> Message) option" where
  "split_dest mc destID num_dests msg =
     (if num_dests > 1 then do {
        d \<leftarrow> NetDest_resize mc;
        (personal, found) \<leftarrow> personal_dest mc destID [0..MachineType_NUM mc - 1] d;
        let new_msg = (if found then msg\<lparr>Destination := personal\<rparr> else msg);
        rest \<leftarrow> NetDest_removeNetDest (Destination msg) personal;
        Some (new_msg, msg\<lparr>Destination := rest\<rparr>) }
      else Some (msg, msg))"

definition num_flits_of :: "garnet_cfg \<Rightarrow> Message \<Rightarrow> nat option" where
  "num_flits_of c msg = do {
     sz \<leftarrow> MessageSizeType_to_int c (MessageSize msg);
     cassert (m_ni_flit_size c \<noteq> 0);
     Some ((sz + m_ni_flit_size c - 1) div m_ni_flit_size c) }"

text \<open>One single-flit packet for one destination into channel \<^verbatim>\<open>vc\<close>.\<close>

definition inject_packet ::
    "(int \<Rightarrow> int option) \<Rightarrow> int \<Rightarrow> int \<Rightarrow> int \<Rightarrow> Message \<Rightarrow> Message \<Rightarrow> NetworkInterface \<Rightarrow> env \<Rightarrow>
       (NetworkInterface \<times> env) option" where
  "inject_packet router_of vnet vc destID msg new_msg n e = do {
     dest_router \<leftarrow> router_of destID;
     let route = \<lparr>route_vnet = vnet, net_dest = Destination new_msg, src_ni = m_id_ni n,
       src_router = m_router_id n, dest_ni = destID, dest_router = dest_router, hops_traversed = -1\<rparr>;
     s \<leftarrow> increment_injected_packets vnet (stats e);
     delay \<leftarrow> cyc_sub (curCycle e) (ticksToCycles e (m_msg_time msg));
     let fl = set_src_delay delay (flit_new 0 vc vnet route 1 new_msg (curCycle e));
     b \<leftarrow> vec_at (m_ni_out_vcs n) vc;
     bs \<leftarrow> vec_set (m_ni_out_vcs n) vc (fb_insert b fl);
     packet_size \<leftarrow> num_flits_of (cfg e) msg;
     s \<leftarrow> for_each (\<lambda>_ s. increment_injected_flits vnet s) [0..int packet_size - 1] s;
     ts \<leftarrow> vec_set (m_ni_out_vcs_enqueue_time n) vc (curCycle e);
     st \<leftarrow> vec_at (m_out_vc_state n) vc;
     sts \<leftarrow> vec_set (m_out_vc_state n) vc (ovs_setState ACTIVE (curCycle e) st);
     Some (n\<lparr>m_ni_out_vcs := bs, m_ni_out_vcs_enqueue_time := ts, m_out_vc_state := sts\<rparr>,
           e\<lparr>stats := s\<rparr>) }"

definition injection_vc :: "int \<Rightarrow> NetworkInterface \<Rightarrow> env \<Rightarrow> (int \<times> NetworkInterface) option" where
  "injection_vc vnet n e =
     (if m_inj_single_vnet (cfg e) = 0 then calculateVC vnet (curCycle e) n
      else do {
        (vc, n) \<leftarrow> calculateVC 0 (curCycle e) n;
        cassert (m_inj_single_vnet (cfg e) = 1);
        Some (vc, n) })"

fun flitisize_dests ::
    "machine_cfg \<Rightarrow> (int \<Rightarrow> int option) \<Rightarrow> int \<Rightarrow> nat \<Rightarrow> int list \<Rightarrow> Message \<Rightarrow> NetworkInterface \<Rightarrow> env \<Rightarrow>
       (bool \<times> Message \<times> NetworkInterface \<times> env) option" where
  "flitisize_dests mc router_of vnet num_dests [] msg n e = Some (True, msg, n, e)"
| "flitisize_dests mc router_of vnet num_dests (destID # ds) msg n e = do {
     (vc, n) \<leftarrow> injection_vc vnet n e;
     if vc = -1 then Some (False, msg, n, e)
     else do {
       (new_msg, msg) \<leftarrow> split_dest mc destID num_dests msg;
       (n, e) \<leftarrow> inject_packet router_of vnet vc destID msg new_msg n e;
       flitisize_dests mc router_of vnet num_dests ds msg n e } }"

text \<open>
  The result carries the message, whose destination set loses the served destinations when the
  message is a multicast and the channels run out.
\<close>

definition flitisizeMessage ::
    "machine_cfg \<Rightarrow> (int \<Rightarrow> int option) \<Rightarrow> Message \<Rightarrow> int \<Rightarrow> NetworkInterface \<Rightarrow> env \<Rightarrow>
       (bool \<times> Message \<times> NetworkInterface \<times> env) option" where
  "flitisizeMessage mc router_of msg vnet n e = do {
     dest_nodes \<leftarrow> NetDest_getAllDest mc (Destination msg);
     _ \<leftarrow> num_flits_of (cfg e) msg;
     flitisize_dests mc router_of vnet (length dest_nodes) dest_nodes msg n e }"

text \<open>One virtual network's turn in \<^verbatim>\<open>wakeup\<close>.\<close>

definition accept_message ::
    "machine_cfg \<Rightarrow> (int \<Rightarrow> int option) \<Rightarrow> int \<Rightarrow> NetworkInterface \<times> env \<Rightarrow> (NetworkInterface \<times> env) option" where
  "accept_message mc router_of vnet = (\<lambda>(n, e). do {
     mb \<leftarrow> vec_at (inNode_ptr n) vnet;
     case mb of
       None \<Rightarrow> Some (n, e)
     | Some b \<Rightarrow>
         if mb_isReady (clockEdge e 0) b then do {
           msg \<leftarrow> peekMsgPtr b;
           (ok, msg, n, e) \<leftarrow> flitisizeMessage mc router_of msg vnet n e;
           let b = b\<lparr>m_prio_heap := msg # tl (m_prio_heap b)\<rparr>;
           (b, e) \<leftarrow> (if ok then do {
                        (_, _, b, e) \<leftarrow> mb_dequeue (clockEdge e 0) True b e;
                        Some (b, e) }
                      else Some (b, e));
           bs \<leftarrow> vec_set (inNode_ptr n) vnet (Some b);
           Some (n\<lparr>inNode_ptr := bs\<rparr>, e) }
         else Some (n, e) })"

section \<open>The output link\<close>

fun ni_vnet_from :: "NetworkInterface \<Rightarrow> int \<Rightarrow> int list \<Rightarrow> int option" where
  "ni_vnet_from n vc [] = None"
| "ni_vnet_from n vc (i # is) =
     (if vc \<ge> i * m_vc_per_vnet_ni n \<and> vc < (i + 1) * m_vc_per_vnet_ni n then Some i
      else ni_vnet_from n vc is)"

definition ni_get_vnet :: "NetworkInterface \<Rightarrow> int \<Rightarrow> int option" where
  "ni_get_vnet n vc = ni_vnet_from n vc [0..m_virtual_networks_ni n - 1]"

text \<open>In an ordered virtual network a channel waits for the channels that were filled before it.\<close>

fun ni_overtakes :: "NetworkInterface \<Rightarrow> Cycles \<Rightarrow> int \<Rightarrow> int list \<Rightarrow> bool option" where
  "ni_overtakes n now vc [] = Some False"
| "ni_overtakes n now vc (t_vc # vcs) = do {
     b \<leftarrow> vec_at (m_ni_out_vcs n) t_vc;
     t1 \<leftarrow> vec_at (m_ni_out_vcs_enqueue_time n) t_vc;
     t2 \<leftarrow> vec_at (m_ni_out_vcs_enqueue_time n) vc;
     if fb_isReady b now \<and> t1 < t2 then Some True else ni_overtakes n now vc vcs }"

definition is_candidate_vc :: "NetworkInterface \<Rightarrow> env \<Rightarrow> int \<Rightarrow> bool option" where
  "is_candidate_vc n e vc = do {
     b \<leftarrow> vec_at (m_ni_out_vcs n) vc;
     s \<leftarrow> vec_at (m_out_vc_state n) vc;
     if fb_isReady b (curCycle e) \<and> ovs_has_credit s then do {
       t_vnet \<leftarrow> ni_get_vnet n vc;
       let vc_base = t_vnet * m_vc_per_vnet_ni n;
       ordered \<leftarrow> isVNetOrdered (cfg e) t_vnet;
       if ordered then do {
         b \<leftarrow> ni_overtakes n (curCycle e) vc [vc_base..vc_base + m_vc_per_vnet_ni n - 1];
         Some (\<not> b) }
       else Some True }
     else Some False }"

definition send_from_vc :: "int \<Rightarrow> NetworkInterface \<Rightarrow> env \<Rightarrow> (NetworkInterface \<times> env) option" where
  "send_from_vc vc n e = do {
     s \<leftarrow> vec_at (m_out_vc_state n) vc;
     s \<leftarrow> ovs_decrement_credit s;
     sts \<leftarrow> vec_set (m_out_vc_state n) vc s;
     b \<leftarrow> vec_at (m_ni_out_vcs n) vc;
     (t_flit, b) \<leftarrow> fb_getTopFlit b;
     bs \<leftarrow> vec_set (m_ni_out_vcs n) vc b;
     let t_flit = set_time (curCycle e + 1) t_flit;
     let n = n\<lparr>m_out_vc_state := sts, m_ni_out_vcs := bs, outFlitQueue := fb_insert (outFlitQueue n) t_flit\<rparr>;
     e \<leftarrow> scheduleEventAbsolute (C_NetLink (outNetLink n)) (clockEdge e 1) e;
     n \<leftarrow> (if m_type t_flit = TAIL \<or> m_type t_flit = HEAD_TAIL then do {
            ts \<leftarrow> vec_set (m_ni_out_vcs_enqueue_time n) vc INFINITE_TIME;
            Some (n\<lparr>m_ni_out_vcs_enqueue_time := ts\<rparr>) }
          else Some n);
     Some (n, e) }"

fun try_vcs :: "nat \<Rightarrow> int \<Rightarrow> NetworkInterface \<Rightarrow> env \<Rightarrow> (NetworkInterface \<times> env) option" where
  "try_vcs 0 vc n e = Some (n, e)"
| "try_vcs (Suc k) vc n e = do {
     let vc = (if vc + 1 = m_num_vcs_ni n then 0 else vc + 1);
     c \<leftarrow> is_candidate_vc n e vc;
     if c then send_from_vc vc n e else try_vcs k vc n e }"

definition scheduleOutputLink :: "NetworkInterface \<Rightarrow> env \<Rightarrow> (NetworkInterface \<times> env) option" where
  "scheduleOutputLink n e =
     (let vc = m_vc_round_robin n;
          n = n\<lparr>m_vc_round_robin := (if vc + 1 = m_num_vcs_ni n then 0 else vc + 1)\<rparr>
      in try_vcs (nat (m_num_vcs_ni n)) vc n e)"

definition checkReschedule :: "NetworkInterface \<Rightarrow> env \<Rightarrow> env option" where
  "checkReschedule n e =
     (if list_ex (\<lambda>mb. case mb of None \<Rightarrow> False | Some b \<Rightarrow> mb_isReady (clockEdge e 0) b) (inNode_ptr n)
      then scheduleEvent (C_NI (m_id_ni n)) 1 e
      else if list_ex (\<lambda>b. fb_isReady b (curCycle e + 1)) (take (nat (m_num_vcs_ni n)) (m_ni_out_vcs n))
      then scheduleEvent (C_NI (m_id_ni n)) 1 e
      else Some e)"

section \<open>Ejection\<close>

text \<open>Hand the flit's message to the protocol, return the credit, count the flit.\<close>

definition eject :: "ruby_system \<Rightarrow> flit \<Rightarrow> MessageBuffer \<Rightarrow> NetworkInterface \<Rightarrow> env \<Rightarrow> (NetworkInterface \<times> env) option" where
  "eject sys t_flit mb n e = do {
     (mb, e) \<leftarrow> mb_enqueue sys (m_msg_ptr t_flit) (clockEdge e 0) (cyclesToTicks e 1) mb e;
     n \<leftarrow> set_out_node (m_vnet t_flit) mb n;
     let n = sendCredit t_flit True n e;
     e \<leftarrow> incrementStats t_flit e;
     Some (n, e) }"

text \<open>
  The scan of \<^verbatim>\<open>checkStallQueue\<close>: the first stalled flit whose buffer has room leaves. \<open>kept\<close> are the
  flits passed over.
\<close>

fun unstall :: "ruby_system \<Rightarrow> flit list \<Rightarrow> flit list \<Rightarrow> NetworkInterface \<Rightarrow> env \<Rightarrow>
    (bool \<times> NetworkInterface \<times> env) option" where
  "unstall sys kept [] n e = Some (False, n, e)"
| "unstall sys kept (stallFlit # fs) n e = do {
     let vnet = m_vnet stallFlit;
     mb \<leftarrow> out_node n vnet;
     let (room, mb) = areNSlotsAvailable 1 (clockEdge e 0) mb;
     if room then do {
       (n, e) \<leftarrow> eject sys stallFlit mb n e;
       counts \<leftarrow> vec_add (m_stall_count n) vnet (-1);
       let n = n\<lparr>m_stall_queue := kept @ fs, m_stall_count := counts\<rparr>;
       c \<leftarrow> vec_at counts vnet;
       n \<leftarrow> (if c = 0 then do {
              mb \<leftarrow> out_node n vnet;
              set_out_node vnet (unregisterDequeueCallback mb) n }
            else Some n);
       Some (True, n, e) }
     else do {
       n \<leftarrow> set_out_node vnet mb n;
       unstall sys (kept @ [stallFlit]) fs n e } }"

definition checkStallQueue :: "ruby_system \<Rightarrow> NetworkInterface \<Rightarrow> env \<Rightarrow> (bool \<times> NetworkInterface \<times> env) option" where
  "checkStallQueue sys n e = unstall sys [] (m_stall_queue n) n e"

text \<open>What \<^verbatim>\<open>wakeup\<close> does with a flit taken off the link.\<close>

definition receive_flit :: "ruby_system \<Rightarrow> bool \<Rightarrow> flit \<Rightarrow> NetworkInterface \<Rightarrow> env \<Rightarrow> (NetworkInterface \<times> env) option" where
  "receive_flit sys messageEnqueuedThisCycle t_flit n e = do {
     let vnet = m_vnet t_flit;
     let t_flit = set_dequeue_time (curCycle e) t_flit;
     if m_type t_flit = TAIL \<or> m_type t_flit = HEAD_TAIL then do {
       mb \<leftarrow> out_node n vnet;
       let (room, mb) = (if messageEnqueuedThisCycle then (False, mb)
                         else areNSlotsAvailable 1 (clockEdge e 0) mb);
       if room then eject sys t_flit mb n e
       else do {
         counts \<leftarrow> vec_add (m_stall_count n) vnet 1;
         let n = n\<lparr>m_stall_queue := m_stall_queue n @ [t_flit], m_stall_count := counts\<rparr>;
         n \<leftarrow> set_out_node vnet (registerDequeueCallback (C_NI (m_id_ni n)) mb) n;
         Some (n, e) } }
     else do {
       let n = sendCredit t_flit False n e;
       e \<leftarrow> incrementStats t_flit e;
       Some (n, e) } }"

definition receive_from_link :: "ruby_system \<Rightarrow> bool \<Rightarrow> NetworkInterface \<Rightarrow> env \<Rightarrow> (NetworkInterface \<times> env) option" where
  "receive_from_link sys messageEnqueuedThisCycle n e = do {
     link \<leftarrow> vec_at (m_networklinks e) (inNetLink n);
     if link_isReady link (curCycle e) then do {
       (t_flit, link) \<leftarrow> consumeLink link;
       links \<leftarrow> vec_set (m_networklinks e) (inNetLink n) link;
       receive_flit sys messageEnqueuedThisCycle t_flit n (e\<lparr>m_networklinks := links\<rparr>) }
     else Some (n, e) }"

definition receive_credit :: "NetworkInterface \<Rightarrow> env \<Rightarrow> (NetworkInterface \<times> env) option" where
  "receive_credit n e = do {
     link \<leftarrow> vec_at (m_creditlinks e) (inCreditLink n);
     if link_isReady link (curCycle e) then do {
       (t_credit, link) \<leftarrow> consumeLink link;
       links \<leftarrow> vec_set (m_creditlinks e) (inCreditLink n) link;
       s \<leftarrow> vec_at (m_out_vc_state n) (m_vc t_credit);
       s \<leftarrow> ovs_increment_credit s;
       let s = (if m_is_free_signal t_credit then ovs_setState IDLE (curCycle e) s else s);
       sts \<leftarrow> vec_set (m_out_vc_state n) (m_vc t_credit) s;
       Some (n\<lparr>m_out_vc_state := sts\<rparr>, e\<lparr>m_creditlinks := links\<rparr>) }
     else Some (n, e) }"

definition NetworkInterface_wakeup ::
    "ruby_system \<Rightarrow> machine_cfg \<Rightarrow> (int \<Rightarrow> int option) \<Rightarrow> NetworkInterface \<Rightarrow> env \<Rightarrow>
       (NetworkInterface \<times> env) option" where
  "NetworkInterface_wakeup sys mc router_of n e = do {
     (n, e) \<leftarrow> for_each (accept_message mc router_of) [0..int (length (inNode_ptr n)) - 1] (n, e);
     (n, e) \<leftarrow> scheduleOutputLink n e;
     e \<leftarrow> checkReschedule n e;
     (messageEnqueuedThisCycle, n, e) \<leftarrow> checkStallQueue sys n e;
     (n, e) \<leftarrow> receive_from_link sys messageEnqueuedThisCycle n e;
     (n, e) \<leftarrow> receive_credit n e;
     e \<leftarrow> (if fb_getSize (outCreditQueue n) > 0
          then scheduleEventAbsolute (C_CreditLink (outCreditLink n)) (clockEdge e 1) e else Some e);
     Some (n, e) }"

text \<open>\<^verbatim>\<open>functionalWrite\<close> covers the injection buffers and the output queue.\<close>

definition ni_functionalWrite :: "func_write \<Rightarrow> NetworkInterface \<Rightarrow> nat \<times> NetworkInterface" where
  "ni_functionalWrite fw n =
     (let (k, bs) = sum_functionalWrite (fb_functionalWrite fw) (m_ni_out_vcs n);
          (m, q) = fb_functionalWrite fw (outFlitQueue n)
      in (k + m, n\<lparr>m_ni_out_vcs := bs, outFlitQueue := q\<rparr>))"

section \<open>The flits an interface holds\<close>

definition ni_flits :: "NetworkInterface \<Rightarrow> flit multiset" where
  "ni_flits n = (\<Sum>b\<leftarrow>m_ni_out_vcs n. fb_items b) + fb_items (outFlitQueue n) + mset (m_stall_queue n)"

end
