(* ===== verification/Garnet_Network.thy ===== *)
theory Garnet_Network
  imports Switch_Allocator Crossbar_Switch Network_Interface
begin

text \<open>
  \<^verbatim>\<open>class GarnetNetwork\<close> (GarnetNetwork.hh, GarnetNetwork.cc): the network as a whole. Its state is the
  shared state of the simulation, the routers and the network interfaces. Modelled here: the part of
  the SWAP scheme that involves two routers (\<^verbatim>\<open>doSwap\<close>, \<^verbatim>\<open>bail_out\<close>, \<^verbatim>\<open>chk_deadlck_symptm\<close>), the
  complete \<^verbatim>\<open>Router::wakeup\<close> (Router.cc), the construction of links, statistics, functional writes,
  and the dispatch of wake-up events to their consumers.

  A pointer to a flit in a buffer that a method modifies before the buffer is popped
  (\<^verbatim>\<open>doSwap\<close> hands out the front of the upstream channel) is passed as a value; the popped copy is
  discarded by the source as well.
\<close>

record GarnetNetwork =
  n_env :: env
  m_routers :: "Router list"
  m_nis :: "NetworkInterface list"
  m_nodes :: int

definition getNumRouters :: "GarnetNetwork \<Rightarrow> int" where
  "getNumRouters n = int (length (m_routers n))"

definition get_router_id :: "GarnetNetwork \<Rightarrow> int \<Rightarrow> int option" where
  "get_router_id n ni = do { i \<leftarrow> vec_at (m_nis n) ni; Some (m_router_id i) }"

definition put_router :: "int \<Rightarrow> Router \<Rightarrow> GarnetNetwork \<Rightarrow> GarnetNetwork option" where
  "put_router i r n = do { rs \<leftarrow> vec_set (m_routers n) i r; Some (n\<lparr>m_routers := rs\<rparr>) }"

text \<open>Run a method of router \<open>i\<close> on its state and the shared state.\<close>

definition on_router ::
    "int \<Rightarrow> (Router \<Rightarrow> env \<Rightarrow> (Router \<times> env) option) \<Rightarrow> GarnetNetwork \<Rightarrow> GarnetNetwork option" where
  "on_router i m n = do {
     r \<leftarrow> vec_at (m_routers n) i;
     (r, e) \<leftarrow> m r (n_env n);
     put_router i r (n\<lparr>n_env := e\<rparr>) }"

definition upd_net_stats :: "(net_stats \<Rightarrow> net_stats) \<Rightarrow> GarnetNetwork \<Rightarrow> GarnetNetwork" where
  "upd_net_stats f n = n\<lparr>n_env := upd_stats f (n_env n)\<rparr>"

section \<open>Neighbours\<close>

text \<open>The outer option is the assertion in \<^verbatim>\<open>get_downstreamId\<close>, the inner one the null pointer.\<close>

definition get_downstreamRouter :: "GarnetNetwork \<Rightarrow> PortDirection \<Rightarrow> int \<Rightarrow> Router option option" where
  "get_downstreamRouter n outport_dir upstream_id = do {
     router_id \<leftarrow> get_downstreamId (cfg (n_env n)) outport_dir upstream_id;
     if router_id < 0 \<or> router_id \<ge> getNumRouters n then Some None
     else Some (Some (m_routers n ! nat router_id)) }"

definition get_upstreamrouter :: "GarnetNetwork \<Rightarrow> PortDirection \<Rightarrow> int \<Rightarrow> Router option option" where
  "get_upstreamrouter n inport_dir upstream_id = do {
     router_id \<leftarrow> get_upstreamId (cfg (n_env n)) inport_dir upstream_id;
     if router_id < 0 \<or> router_id \<ge> getNumRouters n then Some None
     else Some (Some (m_routers n ! nat router_id)) }"

text \<open>The answer the adaptive algorithms get; a null router is a null dereference.\<close>

definition free_vcs :: "GarnetNetwork \<Rightarrow> int \<Rightarrow> PortDirection \<Rightarrow> int option" where
  "free_vcs n my_id dirn = do {
     router \<leftarrow> get_downstreamRouter n dirn my_id;
     router \<leftarrow> router;
     d \<leftarrow> get_downstreamDirn dirn;
     Router_get_numFreeVC router d }"

definition numFreeVC :: "GarnetNetwork \<Rightarrow> int \<Rightarrow> PortDirection \<Rightarrow> int option" where
  "numFreeVC n my_id dirn = do {
     router \<leftarrow> get_downstreamRouter n dirn my_id;
     case router of
       None \<Rightarrow> Some 0
     | Some router \<Rightarrow>
         if dirn = ''North'' then Router_get_numFreeVC router ''South''
         else if dirn = ''East'' then Router_get_numFreeVC router ''West''
         else if dirn = ''West'' then Router_get_numFreeVC router ''East''
         else if dirn = ''South'' then Router_get_numFreeVC router ''North''
         else None }"

section \<open>Swaps between two routers\<close>

text \<open>The reachable part of \<^verbatim>\<open>chk_deadlck_symptm\<close>: both branches of its first statement return.\<close>

definition chk_deadlck_symptm :: "GarnetNetwork \<Rightarrow> bool" where
  "chk_deadlck_symptm n \<longleftrightarrow> curCycle (n_env n) mod 1000 = 0"

text \<open>Clear the swap mark of the front flit of every channel of virtual network 0.\<close>

definition clear_mark :: "int \<Rightarrow> int \<Rightarrow> Router \<Rightarrow> Router option" where
  "clear_mark inport vc r = do {
     u \<leftarrow> vec_at (m_input_unit r) inport;
     b \<leftarrow> iu_vc_isEmpty u vc;
     if b then Some r
     else do {
       f \<leftarrow> iu_peekTopFlit u vc;
       if routedSwap f then do {
         u \<leftarrow> iu_updTopFlit vc unset_RoutedSwap u;
         upd_iu inport u r }
       else Some r } }"

definition clear_marks :: "int \<Rightarrow> Router \<Rightarrow> Router option" where
  "clear_marks vcs_per_vnet r =
     for_each (\<lambda>inport. for_each (clear_mark inport) [0..vcs_per_vnet - 1]) [0..get_num_inports r - 1] r"

definition bail_out :: "int \<Rightarrow> GarnetNetwork \<Rightarrow> GarnetNetwork option" where
  "bail_out my_id n = do {
     router \<leftarrow> vec_at (m_routers n) my_id;
     let upstreamInport = sp_inport (swap_ptr router);
     let upstreamVcId = sp_vcid (swap_ptr router);
     let vcs_per_vnet = m_vc_per_vnet_r router;
     cassert (upstreamInport \<noteq> -1 \<and> upstreamVcId \<noteq> -1);
     u \<leftarrow> vec_at (m_input_unit router) upstreamInport;
     b \<leftarrow> iu_vc_isEmpty u upstreamVcId;
     cassert (\<not> b);
     flit_t \<leftarrow> iu_peekTopFlit u upstreamVcId;
     let outport_dir = m_outport_dir flit_t;
     downstream_id \<leftarrow> get_downstreamId (cfg (n_env n)) outport_dir my_id;
     dnstream_router \<leftarrow> vec_at (m_routers n) downstream_id;
     cassert (vcs_per_vnet = m_vc_per_vnet_r dnstream_router);
     inport_dirn \<leftarrow> get_downstreamDirn outport_dir;
     cassert (inport_dirn \<noteq> ''Local'');
     let downstream_inport_id = map_at 0 (m_inports_dirn2idx (m_routing_unit dnstream_router)) inport_dirn;
     for_each (\<lambda>in_vc _. do {
         d \<leftarrow> vec_at (m_input_unit dnstream_router) downstream_inport_id;
         b \<leftarrow> iu_vc_isEmpty d in_vc;
         cassert (\<not> b) }) [0..vcs_per_vnet - 1] ();
     router \<leftarrow> clear_marks (m_vcs_per_vnet (cfg (n_env n))) (router\<lparr>is_swap := False\<rparr>);
     n \<leftarrow> put_router my_id router n;
     dnstream_router \<leftarrow> vec_at (m_routers n) downstream_id;
     dnstream_router \<leftarrow> clear_marks (m_vcs_per_vnet (cfg (n_env n))) (dnstream_router\<lparr>is_swap := False\<rparr>);
     put_router downstream_id dnstream_router n }"

text \<open>
  The exchange itself, which the two branches of \<^verbatim>\<open>GarnetNetwork::doSwap\<close> on \<^verbatim>\<open>m_no_is_swap\<close> share:
  ask the downstream router for a flit; when it gives one, put the upstream flit in its place.
  \<open>mark\<close> tells whether the downstream router's \<^verbatim>\<open>is_swap\<close> is set.
\<close>

definition exchange ::
    "bool \<Rightarrow> flit \<Rightarrow> int \<Rightarrow> int \<Rightarrow> PortDirection \<Rightarrow> GarnetNetwork \<Rightarrow> (flit option \<times> GarnetNetwork) option" where
  "exchange mark flit_t upstream_id downstream_id inport_dirn n = do {
     up \<leftarrow> vec_at (m_routers n) upstream_id;
     let vcid = sp_vcid (swap_ptr up);
     cassert (vcid = m_vc flit_t);
     down \<leftarrow> vec_at (m_routers n) downstream_id;
     (got, down, e) \<leftarrow> Router_doSwap inport_dirn vcid down (n_env n);
     n \<leftarrow> put_router downstream_id down (n\<lparr>n_env := e\<rparr>);
     case got of
       None \<Rightarrow> Some (None, n)
     | Some flit1_t \<Rightarrow> do {
         let down = (if mark then down\<lparr>is_swap := True\<rparr> else down);
         n \<leftarrow> put_router downstream_id down n;
         (down, e) \<leftarrow> doSwap_enqueue (free_vcs n downstream_id) (set_RoutedSwap flit_t) inport_dirn (-1) vcid
                        down (n_env n);
         n \<leftarrow> put_router downstream_id down (n\<lparr>n_env := e\<rparr>);
         Some (Some flit1_t, n) } }"

definition GarnetNetwork_doSwap :: "flit \<Rightarrow> int \<Rightarrow> GarnetNetwork \<Rightarrow> (flit option \<times> GarnetNetwork) option" where
  "GarnetNetwork_doSwap flit_t upstream_id n = do {
     let outport_dir = m_outport_dir flit_t;
     downstream_id \<leftarrow> get_downstreamId (cfg (n_env n)) outport_dir upstream_id;
     inport_dirn \<leftarrow> get_downstreamDirn outport_dir;
     down \<leftarrow> vec_at (m_routers n) downstream_id;
     if m_no_is_swap (cfg (n_env n)) = 0 then
       (if is_swap down = False \<and> sp_valid (swap_ptr down)
        then exchange True flit_t upstream_id downstream_id inport_dirn n
        else Some (None, n))
     else if m_no_is_swap (cfg (n_env n)) = 1 then
       (if sp_valid (swap_ptr down)
        then exchange False flit_t upstream_id downstream_id inport_dirn n
        else Some (None, n))
     else None }"

section \<open>Router::wakeup\<close>

text \<open>The flit at the swap pointer of router \<open>i\<close>.\<close>

definition pointed_flit :: "Router \<Rightarrow> flit option" where
  "pointed_flit r = do {
     u \<leftarrow> vec_at (m_input_unit r) (sp_inport (swap_ptr r));
     iu_peekTopFlit u (sp_vcid (swap_ptr r)) }"

definition flag_routed :: "Router \<Rightarrow> env \<Rightarrow> (Router \<times> env) option" where
  "flag_routed r e = do {
     f \<leftarrow> pointed_flit r;
     if routedSwap f then do {
       (if m_no_is_swap (cfg e) = 0 then cassert (is_swap r) else Some ());
       Some (r\<lparr>send_routedSwap := True\<rparr>, e) }
     else Some (r, e) }"

text \<open>After a successful exchange: drop the own flit, put the received one in its place.\<close>

definition finish_swap ::
    "(PortDirection \<Rightarrow> int option) \<Rightarrow> flit \<Rightarrow> Router \<Rightarrow> env \<Rightarrow> (Router \<times> env) option" where
  "finish_swap free flit_t r e = do {
     let inport = sp_inport (swap_ptr r);
     let vcid = sp_vcid (swap_ptr r);
     u \<leftarrow> vec_at (m_input_unit r) inport;
     (_, u) \<leftarrow> iu_getTopFlit u vcid;
     r \<leftarrow> upd_iu inport u r;
     (r, e) \<leftarrow> doSwap_enqueue free flit_t (m_direction_iu u) inport vcid r e;
     let e = upd_stats increment_total_swaps e;
     if send_routedSwap r then do {
       (if m_no_is_swap (cfg e) = 0 then cassert (is_swap r) else Some ());
       Some (r\<lparr>send_routedSwap := False, is_swap := False\<rparr>,
             upd_stats (\<lambda>s. s\<lparr>m_total_routedSwaps := m_total_routedSwaps s + 1\<rparr>) e) }
     else Some (r, e) }"

definition fail_swap :: "Router \<Rightarrow> env \<Rightarrow> (Router \<times> env) option" where
  "fail_swap r e = do {
     r \<leftarrow> (if send_routedSwap r then do {
            (if m_no_is_swap (cfg e) = 0 then cassert (is_swap r) else Some ());
            Some (r\<lparr>send_routedSwap := False\<rparr>) }
          else Some r);
     Some (r, upd_stats (\<lambda>s. s\<lparr>m_total_failed_swaps := m_total_failed_swaps s + 1\<rparr>) e) }"

text \<open>The bail-out sequence before a swap, when the \<^verbatim>\<open>is_swap\<close> bit is in use.\<close>

definition maybe_bail_out :: "int \<Rightarrow> GarnetNetwork \<Rightarrow> GarnetNetwork option" where
  "maybe_bail_out i n =
     (if m_no_is_swap (cfg (n_env n)) = 0 then
        (if chk_deadlck_symptm n then do {
           n \<leftarrow> bail_out i n;
           Some (upd_net_stats (\<lambda>s. s\<lparr>m_total_bailout := m_total_bailout s + 1\<rparr>) n) }
         else Some n)
      else do { cassert (m_no_is_swap (cfg (n_env n)) = 1); Some n })"

definition attempt_swap :: "int \<Rightarrow> GarnetNetwork \<Rightarrow> GarnetNetwork option" where
  "attempt_swap i n = do {
     let n = upd_net_stats (\<lambda>s. s\<lparr>m_total_initiated_swaps := m_total_initiated_swaps s + 1\<rparr>) n;
     n \<leftarrow> maybe_bail_out i n;
     n \<leftarrow> on_router i flag_routed n;
     r \<leftarrow> vec_at (m_routers n) i;
     f \<leftarrow> pointed_flit r;
     (got, n) \<leftarrow> GarnetNetwork_doSwap f i n;
     case got of
       Some flit_t \<Rightarrow> on_router i (finish_swap (free_vcs n i) flit_t) n
     | None \<Rightarrow> on_router i fail_swap n }"

definition swap_phase :: "int \<Rightarrow> GarnetNetwork \<Rightarrow> GarnetNetwork option" where
  "swap_phase i n =
     (if m_interswap (cfg (n_env n)) then do {
        n \<leftarrow> on_router i (\<lambda>r e. do { r \<leftarrow> find_swap_ptr r; Some (r, e) }) n;
        r \<leftarrow> vec_at (m_routers n) i;
        turn \<leftarrow> is_myTurn (n_env n) (getNumRouters n) r;
        if turn \<and> sp_valid (swap_ptr r) then do {
          u \<leftarrow> vec_at (m_input_unit r) (sp_inport (swap_ptr r));
          cassert (sp_inport_dirn (swap_ptr r) = m_direction_iu u);
          cassert (sp_inport (swap_ptr r) \<noteq> -1 \<and> sp_vcid (swap_ptr r) \<noteq> -1);
          (go, e) \<leftarrow> outportNotLocal r (n_env n);
          let n = n\<lparr>n_env := e\<rparr>;
          n \<leftarrow> (if go then attempt_swap i n else Some n);
          on_router i (\<lambda>r e. do { r \<leftarrow> movSwapPtr e r; Some (r, e) }) n }
        else Some n }
      else Some n)"

definition input_phase :: "int \<Rightarrow> GarnetNetwork \<Rightarrow> GarnetNetwork option" where
  "input_phase i n = do {
     r \<leftarrow> vec_at (m_routers n) i;
     for_each (\<lambda>inport n. on_router i (InputUnit_wakeup (free_vcs n i) inport) n)
       [0..get_num_inports r - 1] n }"

definition output_wakeup :: "int \<Rightarrow> Router \<Rightarrow> env \<Rightarrow> (Router \<times> env) option" where
  "output_wakeup outport r e = do {
     u \<leftarrow> vec_at (m_output_unit r) outport;
     (u, e) \<leftarrow> OutputUnit_wakeup u e;
     r \<leftarrow> upd_ou outport u r;
     Some (r, e) }"

definition output_phase :: "Router \<Rightarrow> env \<Rightarrow> (Router \<times> env) option" where
  "output_phase r e =
     for_each (\<lambda>outport (r, e). output_wakeup outport r e) [0..get_num_outports r - 1] (r, e)"

definition Router_wakeup :: "int \<Rightarrow> GarnetNetwork \<Rightarrow> GarnetNetwork option" where
  "Router_wakeup i n = do {
     n \<leftarrow> swap_phase i n;
     n \<leftarrow> input_phase i n;
     n \<leftarrow> on_router i output_phase n;
     n \<leftarrow> on_router i SwitchAllocator_wakeup n;
     on_router i CrossbarSwitch_wakeup n }"

section \<open>Links\<close>

text \<open>
  The two new links of a \<^verbatim>\<open>GarnetExtLink\<close> or \<^verbatim>\<open>GarnetIntLink\<close> arrive from the configuration: they are
  arguments.
\<close>

definition push_links ::
    "link_type \<Rightarrow> flit NetworkLink \<Rightarrow> credit NetworkLink \<Rightarrow> GarnetNetwork \<Rightarrow> int \<times> int \<times> GarnetNetwork" where
  "push_links ty net_link credit_link n =
     (int (length (m_networklinks (n_env n))), int (length (m_creditlinks (n_env n))),
      n\<lparr>n_env := (n_env n)\<lparr>m_networklinks := m_networklinks (n_env n) @ [link_setType ty net_link],
                           m_creditlinks := m_creditlinks (n_env n) @ [credit_link]\<rparr>\<rparr>)"

definition on_ni ::
    "int \<Rightarrow> (NetworkInterface \<Rightarrow> env \<Rightarrow> (NetworkInterface \<times> env) option) \<Rightarrow> GarnetNetwork \<Rightarrow> GarnetNetwork option" where
  "on_ni i m n = do {
     ni \<leftarrow> vec_at (m_nis n) i;
     (ni, e) \<leftarrow> m ni (n_env n);
     nis \<leftarrow> vec_set (m_nis n) i ni;
     Some (n\<lparr>n_env := e, m_nis := nis\<rparr>) }"

definition makeExtInLink ::
    "int \<Rightarrow> int \<Rightarrow> flit NetworkLink \<Rightarrow> credit NetworkLink \<Rightarrow> GarnetNetwork \<Rightarrow> GarnetNetwork option" where
  "makeExtInLink src dest net_link credit_link n = do {
     cassert (src < m_nodes n);
     let (l, cl, n) = push_links EXT_IN net_link credit_link n;
     n \<leftarrow> on_router dest (Router_addInPort ''Local'' l cl) n;
     on_ni src (ni_addOutPort l cl dest) n }"

definition makeExtOutLink ::
    "int \<Rightarrow> int \<Rightarrow> flit NetworkLink \<Rightarrow> credit NetworkLink \<Rightarrow> int \<Rightarrow> NetDest \<Rightarrow> GarnetNetwork \<Rightarrow> GarnetNetwork option" where
  "makeExtOutLink src dest net_link credit_link weight routing_table_entry n = do {
     cassert (dest < m_nodes n);
     cassert (src < getNumRouters n);
     let (l, cl, n) = push_links EXT_OUT net_link credit_link n;
     n \<leftarrow> on_router src (Router_addOutPort ''Local'' l routing_table_entry weight cl) n;
     on_ni dest (ni_addInPort l cl) n }"

definition makeInternalLink ::
    "int \<Rightarrow> int \<Rightarrow> flit NetworkLink \<Rightarrow> credit NetworkLink \<Rightarrow> int \<Rightarrow> NetDest \<Rightarrow> PortDirection \<Rightarrow> PortDirection \<Rightarrow>
       GarnetNetwork \<Rightarrow> GarnetNetwork option" where
  "makeInternalLink src dest net_link credit_link weight routing_table_entry src_outport_dirn dst_inport_dirn n = do {
     let (l, cl, n) = push_links INT_LINK net_link credit_link n;
     n \<leftarrow> on_router dest (Router_addInPort dst_inport_dirn l cl) n;
     on_router src (Router_addOutPort src_outport_dirn l routing_table_entry weight cl) n }"

text \<open>A network link's wakeup with the source queue it points to.\<close>

definition get_flit_queue :: "queue_ref \<Rightarrow> GarnetNetwork \<Rightarrow> flit flitBuffer option" where
  "get_flit_queue q n =
     (case q of
        Q_OutputUnit i p \<Rightarrow> do {
          r \<leftarrow> vec_at (m_routers n) i;
          u \<leftarrow> vec_at (m_output_unit r) p;
          Some (m_out_buffer u) }
      | Q_NIFlit i \<Rightarrow> do { ni \<leftarrow> vec_at (m_nis n) i; Some (outFlitQueue ni) }
      | _ \<Rightarrow> None)"

definition set_flit_queue :: "queue_ref \<Rightarrow> flit flitBuffer \<Rightarrow> GarnetNetwork \<Rightarrow> GarnetNetwork option" where
  "set_flit_queue q b n =
     (case q of
        Q_OutputUnit i p \<Rightarrow> do {
          r \<leftarrow> vec_at (m_routers n) i;
          u \<leftarrow> vec_at (m_output_unit r) p;
          r \<leftarrow> upd_ou p (u\<lparr>m_out_buffer := b\<rparr>) r;
          put_router i r n }
      | Q_NIFlit i \<Rightarrow> do {
          ni \<leftarrow> vec_at (m_nis n) i;
          nis \<leftarrow> vec_set (m_nis n) i (ni\<lparr>outFlitQueue := b\<rparr>);
          Some (n\<lparr>m_nis := nis\<rparr>) }
      | _ \<Rightarrow> None)"

definition get_credit_queue :: "queue_ref \<Rightarrow> GarnetNetwork \<Rightarrow> credit flitBuffer option" where
  "get_credit_queue q n =
     (case q of
        Q_InputCredit i p \<Rightarrow> do {
          r \<leftarrow> vec_at (m_routers n) i;
          u \<leftarrow> vec_at (m_input_unit r) p;
          Some (creditQueue u) }
      | Q_NICredit i \<Rightarrow> do { ni \<leftarrow> vec_at (m_nis n) i; Some (outCreditQueue ni) }
      | _ \<Rightarrow> None)"

definition set_credit_queue :: "queue_ref \<Rightarrow> credit flitBuffer \<Rightarrow> GarnetNetwork \<Rightarrow> GarnetNetwork option" where
  "set_credit_queue q b n =
     (case q of
        Q_InputCredit i p \<Rightarrow> do {
          r \<leftarrow> vec_at (m_routers n) i;
          u \<leftarrow> vec_at (m_input_unit r) p;
          r \<leftarrow> upd_iu p (u\<lparr>creditQueue := b\<rparr>) r;
          put_router i r n }
      | Q_NICredit i \<Rightarrow> do {
          ni \<leftarrow> vec_at (m_nis n) i;
          nis \<leftarrow> vec_set (m_nis n) i (ni\<lparr>outCreditQueue := b\<rparr>);
          Some (n\<lparr>m_nis := nis\<rparr>) }
      | _ \<Rightarrow> None)"

definition netlink_wakeup :: "int \<Rightarrow> GarnetNetwork \<Rightarrow> GarnetNetwork option" where
  "netlink_wakeup j n = do {
     l \<leftarrow> vec_at (m_networklinks (n_env n)) j;
     q \<leftarrow> link_srcQueue l;
     b \<leftarrow> get_flit_queue q n;
     (b, l, e) \<leftarrow> NetworkLink_wakeup b l (n_env n);
     ls \<leftarrow> vec_set (m_networklinks e) j l;
     set_flit_queue q b (n\<lparr>n_env := e\<lparr>m_networklinks := ls\<rparr>\<rparr>) }"

definition creditlink_wakeup :: "int \<Rightarrow> GarnetNetwork \<Rightarrow> GarnetNetwork option" where
  "creditlink_wakeup j n = do {
     l \<leftarrow> vec_at (m_creditlinks (n_env n)) j;
     q \<leftarrow> link_srcQueue l;
     b \<leftarrow> get_credit_queue q n;
     (b, l, e) \<leftarrow> NetworkLink_wakeup b l (n_env n);
     ls \<leftarrow> vec_set (m_creditlinks e) j l;
     set_credit_queue q b (n\<lparr>n_env := e\<lparr>m_creditlinks := ls\<rparr>\<rparr>) }"

definition ni_wakeup :: "ruby_system \<Rightarrow> machine_cfg \<Rightarrow> int \<Rightarrow> GarnetNetwork \<Rightarrow> GarnetNetwork option" where
  "ni_wakeup sys mc i n = on_ni i (NetworkInterface_wakeup sys mc (get_router_id n)) n"

text \<open>
  Dispatch of a wake-up event. The protocol controllers are outside the network; their
  event does nothing here. Switches and throttles are consumers of the simple network only.
\<close>

fun dispatch :: "ruby_system \<Rightarrow> machine_cfg \<Rightarrow> consumer \<Rightarrow> GarnetNetwork \<Rightarrow> GarnetNetwork option" where
  "dispatch sys mc (C_Router i) n = Router_wakeup i n"
| "dispatch sys mc (C_NI i) n = ni_wakeup sys mc i n"
| "dispatch sys mc (C_NetLink j) n = netlink_wakeup j n"
| "dispatch sys mc (C_CreditLink j) n = creditlink_wakeup j n"
| "dispatch sys mc (C_Controller i) n = Some n"
| "dispatch sys mc (C_Switch i) n = None"
| "dispatch sys mc (C_Throttle i k) n = None"

section \<open>Statistics and functional writes\<close>

text \<open>
  \<^verbatim>\<open>collateStats\<close>: the sums of link activity by link type, the average utilisation and virtual channel
  load over \<open>time_delta\<close> cycles (\<^verbatim>\<open>double\<close> is read as real), and the routers' own collation.
\<close>

record link_stats =
  m_total_ext_in_link_utilization :: nat
  m_total_ext_out_link_utilization :: nat
  m_total_int_link_utilization :: nat
  m_average_link_utilization :: real
  m_average_vc_load :: "real list"

definition collate_link :: "real \<Rightarrow> flit NetworkLink \<Rightarrow> link_stats \<Rightarrow> link_stats option" where
  "collate_link time_delta l s = do {
     let activity = m_link_utilized l;
     let s = (case m_type_l l of
                EXT_IN \<Rightarrow> s\<lparr>m_total_ext_in_link_utilization := m_total_ext_in_link_utilization s + activity\<rparr>
              | EXT_OUT \<Rightarrow> s\<lparr>m_total_ext_out_link_utilization := m_total_ext_out_link_utilization s + activity\<rparr>
              | INT_LINK \<Rightarrow> s\<lparr>m_total_int_link_utilization := m_total_int_link_utilization s + activity\<rparr>
              | NUM_LINK_TYPES \<Rightarrow> s);
     let s = s\<lparr>m_average_link_utilization := m_average_link_utilization s + real activity / time_delta\<rparr>;
     loads \<leftarrow> for_each (\<lambda>j v. do {
         x \<leftarrow> vec_at (m_vc_load l) j;
         vec_add v j (real x / time_delta) }) [0..int (length (m_vc_load l)) - 1] (m_average_vc_load s);
     Some (s\<lparr>m_average_vc_load := loads\<rparr>) }"

definition collateStats :: "Cycles \<Rightarrow> GarnetNetwork \<Rightarrow> link_stats \<Rightarrow> (GarnetNetwork \<times> link_stats) option" where
  "collateStats start_cycle n s = do {
     d \<leftarrow> cyc_sub (curCycle (n_env n)) start_cycle;
     s \<leftarrow> for_each (collate_link (real d)) (m_networklinks (n_env n)) s;
     n \<leftarrow> for_each (\<lambda>i n. on_router i (\<lambda>r e. do { r \<leftarrow> Router_collateStats r; Some (r, e) }) n)
            [0..getNumRouters n - 1] n;
     Some (n, s) }"

definition GarnetNetwork_functionalWrite :: "func_write \<Rightarrow> GarnetNetwork \<Rightarrow> nat \<times> GarnetNetwork" where
  "GarnetNetwork_functionalWrite fw n =
     (let (k1, rs) = sum_functionalWrite (Router_functionalWrite fw) (m_routers n);
          (k2, nis) = sum_functionalWrite (ni_functionalWrite fw) (m_nis n);
          (k3, ls) = sum_functionalWrite (link_functionalWrite fw) (m_networklinks (n_env n))
      in (k1 + k2 + k3, n\<lparr>m_routers := rs, m_nis := nis, n_env := (n_env n)\<lparr>m_networklinks := ls\<rparr>\<rparr>))"

end
