(* ===== verification/Ruby_Topology.thy ===== *)
theory Ruby_Topology
  imports Garnet_Network "HOL-Library.AList"
begin

text \<open>
  \<^verbatim>\<open>class Topology\<close> (network/Topology.hh, Topology.cc): numbers the end points and routers, keeps the
  map of links, computes all-pairs shortest paths and builds the links of the network with the
  destination set each of them serves.

  The two kinds of links carry the network and credit links the configuration attached to
  them (\<^verbatim>\<open>GarnetExtLink\<close>, \<^verbatim>\<open>GarnetIntLink\<close>); a failing \<^verbatim>\<open>safe_cast\<close> is \<open>None\<close>. \<^verbatim>\<open>m_link_map\<close> is an
  association list; the code only looks keys up or visits all entries for effects that do not
  depend on their order.
\<close>

section \<open>Links of the configuration\<close>

datatype basic_link =
    ExtLink nat int "flit NetworkLink" "credit NetworkLink" "flit NetworkLink" "credit NetworkLink"
  | IntLink nat int "flit NetworkLink" "credit NetworkLink"

fun link_latency :: "basic_link \<Rightarrow> int" where
  "link_latency (ExtLink l w _ _ _ _) = int l"
| "link_latency (IntLink l w _ _) = int l"

fun link_weight :: "basic_link \<Rightarrow> int" where
  "link_weight (ExtLink l w _ _ _ _) = w"
| "link_weight (IntLink l w _ _) = w"

record LinkEntry =
  le_link :: basic_link
  src_outport_dirn :: PortDirection
  dst_inport_dirn :: PortDirection

type_synonym LinkMap = "((int \<times> int) \<times> LinkEntry) list"

record ext_link_params =
  ext_link :: basic_link
  ext_node_type :: int
  ext_node_version :: int
  ext_int_node :: int

record int_link_params =
  int_link :: basic_link
  int_src_node :: int
  int_dst_node :: int
  int_src_outport :: PortDirection
  int_dst_inport :: PortDirection

record Topology =
  t_nodes :: int
  m_number_of_switches :: int
  m_link_map :: LinkMap

definition INFINITE_LATENCY :: int where "INFINITE_LATENCY = 10000"

definition addLink ::
    "int \<Rightarrow> int \<Rightarrow> basic_link \<Rightarrow> PortDirection \<Rightarrow> PortDirection \<Rightarrow> Topology \<Rightarrow> Topology option" where
  "addLink src dest link src_outport dst_inport t = do {
     cassert (src \<le> m_number_of_switches t + t_nodes t + t_nodes t);
     cassert (dest \<le> m_number_of_switches t + t_nodes t + t_nodes t);
     Some (t\<lparr>m_link_map := AList.update (src, dest)
              \<lparr>le_link = link, src_outport_dirn = src_outport, dst_inport_dirn = dst_inport\<rparr>
              (m_link_map t)\<rparr>) }"

definition add_ext_link :: "machine_cfg \<Rightarrow> ext_link_params \<Rightarrow> Topology \<Rightarrow> Topology option" where
  "add_ext_link mc l t = do {
     let machine_base_idx = MachineType_base_number mc (ext_node_type l);
     let ext_idx1 = machine_base_idx + ext_node_version l;
     let ext_idx2 = ext_idx1 + t_nodes t;
     let int_idx = ext_int_node l + 2 * t_nodes t;
     t \<leftarrow> addLink ext_idx1 int_idx (ext_link l) [] [] t;
     addLink int_idx ext_idx2 (ext_link l) [] [] t }"

definition add_int_link :: "int_link_params \<Rightarrow> Topology \<Rightarrow> Topology option" where
  "add_int_link l t = do {
     let src = int_src_node l + 2 * t_nodes t;
     let dst = int_dst_node l + 2 * t_nodes t;
     addLink src dst (int_link l) (int_src_outport l) (int_dst_inport l) t }"

definition Topology_new ::
    "machine_cfg \<Rightarrow> int \<Rightarrow> ext_link_params list \<Rightarrow> int_link_params list \<Rightarrow> Topology option" where
  "Topology_new mc num_routers ext_links int_links = do {
     let nodes = MachineType_base_number mc (MachineType_NUM mc);
     cassert (nodes > 1);
     let t = \<lparr>t_nodes = nodes, m_number_of_switches = num_routers, m_link_map = []\<rparr>;
     t \<leftarrow> for_each (add_ext_link mc) ext_links t;
     for_each add_int_link int_links t }"

section \<open>Shortest paths\<close>

type_synonym matrix = "int list list"

text \<open>
  The loop over \<^verbatim>\<open>k\<close>: the running minimum, the last intermediate switch that improved it, and
  the matrix of intermediate switch counts.
\<close>

fun relax_k :: "matrix \<Rightarrow> int \<Rightarrow> int \<Rightarrow> int list \<Rightarrow> int \<Rightarrow> int \<Rightarrow> matrix \<Rightarrow> (int \<times> int \<times> matrix) option" where
  "relax_k d i j [] minimum intermediate_switch inter_switches =
     Some (minimum, intermediate_switch, inter_switches)"
| "relax_k d i j (k # ks) previous_minimum intermediate_switch inter_switches = do {
     a \<leftarrow> mat_at d i k;
     b \<leftarrow> mat_at d k j;
     let minimum = min previous_minimum (a + b);
     if previous_minimum \<noteq> minimum then do {
       x \<leftarrow> mat_at inter_switches i k;
       y \<leftarrow> mat_at inter_switches k j;
       inter_switches \<leftarrow> mat_set inter_switches i j (x + y + 1);
       relax_k d i j ks minimum k inter_switches }
     else relax_k d i j ks minimum intermediate_switch inter_switches }"

definition relax_ij ::
    "int \<times> int \<Rightarrow> bool \<times> matrix \<times> matrix \<times> matrix \<Rightarrow> (bool \<times> matrix \<times> matrix \<times> matrix) option" where
  "relax_ij = (\<lambda>(i, j) (change, d, latencies, inter_switches). do {
     old \<leftarrow> mat_at d i j;
     (minimum, k, inter_switches) \<leftarrow> relax_k d i j [0..int (length d) - 1] old (-1) inter_switches;
     if old \<noteq> minimum then do {
       d \<leftarrow> mat_set d i j minimum;
       cassert (k \<ge> 0);
       row \<leftarrow> vec_at latencies i;
       cassert (k < int (length row));
       x \<leftarrow> mat_at latencies i k;
       y \<leftarrow> mat_at latencies k j;
       latencies \<leftarrow> mat_set latencies i j (x + y);
       Some (True, d, latencies, inter_switches) }
     else Some (change, d, latencies, inter_switches) })"

text \<open>One iteration of the \<^verbatim>\<open>while\<close> loop.\<close>

definition extend_pass :: "matrix \<Rightarrow> matrix \<Rightarrow> matrix \<Rightarrow> (bool \<times> matrix \<times> matrix \<times> matrix) option" where
  "extend_pass d latencies inter_switches =
     (let nodes = int (length d) in
      for_each relax_ij (List.product [0..nodes - 1] [0..nodes - 1]) (False, d, latencies, inter_switches))"

partial_function (option) extend_shortest_path ::
    "matrix \<Rightarrow> matrix \<Rightarrow> matrix \<Rightarrow> (matrix \<times> matrix \<times> matrix) option" where
  "extend_shortest_path d latencies inter_switches =
     Option.bind (extend_pass d latencies inter_switches) (\<lambda>st.
       if fst st then extend_shortest_path (fst (snd st)) (fst (snd (snd st))) (snd (snd (snd st)))
       else Some (snd st))"

definition shortest_path :: "matrix \<Rightarrow> matrix \<Rightarrow> matrix \<Rightarrow> (matrix \<times> matrix \<times> matrix) option" where
  "shortest_path weights latencies inter_switches = extend_shortest_path weights latencies inter_switches"

definition link_is_shortest_path_to_node :: "int \<Rightarrow> int \<Rightarrow> int \<Rightarrow> matrix \<Rightarrow> matrix \<Rightarrow> bool option" where
  "link_is_shortest_path_to_node src nxt final weights dists = do {
     w \<leftarrow> mat_at weights src nxt;
     a \<leftarrow> mat_at dists nxt final;
     b \<leftarrow> mat_at dists src final;
     Some (w + a = b) }"

text \<open>The loop over all machines; \<^verbatim>\<open>d\<close> counts them across the types.\<close>

definition add_if_shortest ::
    "machine_cfg \<Rightarrow> int \<Rightarrow> int \<Rightarrow> matrix \<Rightarrow> matrix \<Rightarrow> int \<times> int \<Rightarrow> NetDest \<times> int \<Rightarrow> (NetDest \<times> int) option" where
  "add_if_shortest mc src nxt weights dists = (\<lambda>(m, i) (result, d). do {
     let max_machines = MachineType_base_number mc (MachineType_NUM mc);
     b \<leftarrow> link_is_shortest_path_to_node src nxt (d + max_machines) weights dists;
     result \<leftarrow> (if b then NetDest_add mc result \<lparr>mid_type = m, mid_num = i\<rparr> else Some result);
     Some (result, d + 1) })"

definition all_machines :: "machine_cfg \<Rightarrow> (int \<times> int) list" where
  "all_machines mc =
     concat (map (\<lambda>m. map (Pair m) [0..MachineType_base_count mc m - 1]) [0..MachineType_NUM mc - 1])"

definition shortest_path_to_node :: "machine_cfg \<Rightarrow> int \<Rightarrow> int \<Rightarrow> matrix \<Rightarrow> matrix \<Rightarrow> NetDest option" where
  "shortest_path_to_node mc src nxt weights dists = do {
     result \<leftarrow> NetDest_resize mc;
     (result, _) \<leftarrow> for_each (add_if_shortest mc src nxt weights dists) (all_machines mc) (result, 0);
     Some result }"

section \<open>Building the network\<close>

text \<open>\<^verbatim>\<open>m_link_map[src_dest]\<close> of a missing key is an entry with a null link.\<close>

definition makeLink :: "Topology \<Rightarrow> int \<Rightarrow> int \<Rightarrow> NetDest \<Rightarrow> GarnetNetwork \<Rightarrow> GarnetNetwork option" where
  "makeLink t src dest routing_table_entry n = do {
     cassert (src \<ge> 2 * t_nodes t \<or> dest \<ge> 2 * t_nodes t);
     le \<leftarrow> map_of (m_link_map t) (src, dest);
     if src < t_nodes t then
       (case le_link le of
          ExtLink _ _ nl cl _ _ \<Rightarrow> makeExtInLink src (dest - 2 * t_nodes t) nl cl n
        | _ \<Rightarrow> None)
     else if dest < 2 * t_nodes t then do {
       cassert (dest \<ge> t_nodes t);
       let node = dest - t_nodes t;
       case le_link le of
         ExtLink _ w _ _ nl cl \<Rightarrow> makeExtOutLink (src - 2 * t_nodes t) node nl cl w routing_table_entry n
       | _ \<Rightarrow> None }
     else do {
       cassert (src \<ge> 2 * t_nodes t \<and> dest \<ge> 2 * t_nodes t);
       case le_link le of
         IntLink _ w nl cl \<Rightarrow>
           makeInternalLink (src - 2 * t_nodes t) (dest - 2 * t_nodes t) nl cl w routing_table_entry
             (src_outport_dirn le) (dst_inport_dirn le) n
       | _ \<Rightarrow> None } }"

definition max_switch_id :: "LinkMap \<Rightarrow> int" where
  "max_switch_id lm = foldl (\<lambda>m ((s, d), _). max (max m s) d) 0 lm"

definition topology_weights :: "LinkMap \<Rightarrow> matrix option" where
  "topology_weights lm = do {
     let num_switches = nat (max_switch_id lm + 1);
     let w = replicate num_switches (replicate num_switches INFINITE_LATENCY);
     w \<leftarrow> for_each (\<lambda>i w. mat_set w i i 0) [0..int num_switches - 1] w;
     for_each (\<lambda>((src, dst), le) w. mat_set w src dst (link_weight (le_link le))) lm w }"

definition component_latencies :: "LinkMap \<Rightarrow> matrix option" where
  "component_latencies lm = do {
     let num_switches = nat (max_switch_id lm + 1);
     for_each (\<lambda>((src, dst), le) m. mat_set m src dst (link_latency (le_link le))) lm
       (replicate num_switches (replicate num_switches (-1))) }"

definition createLinks :: "machine_cfg \<Rightarrow> Topology \<Rightarrow> GarnetNetwork \<Rightarrow> GarnetNetwork option" where
  "createLinks mc t n = do {
     let num_switches = nat (max_switch_id (m_link_map t) + 1);
     weights \<leftarrow> topology_weights (m_link_map t);
     latencies \<leftarrow> component_latencies (m_link_map t);
     (dists, _, _) \<leftarrow> shortest_path weights latencies (replicate num_switches (replicate num_switches 0));
     for_each (\<lambda>(i, j) n. do {
         weight \<leftarrow> mat_at weights i j;
         if weight > 0 \<and> weight \<noteq> INFINITE_LATENCY then do {
           destination_set \<leftarrow> shortest_path_to_node mc i j weights dists;
           makeLink t i j destination_set n }
         else Some n })
       (List.product [0..int num_switches - 1] [0..int num_switches - 1]) n }"

text \<open>
  \<^verbatim>\<open>GarnetNetwork::init\<close> (GarnetNetwork.cc): hand the interfaces their message buffers, build the links
  and fix the mesh dimensions. The fault model is off.
\<close>

definition GarnetNetwork_init ::
    "machine_cfg \<Rightarrow> Topology \<Rightarrow> (MessageBuffer option list \<times> MessageBuffer option list) list \<Rightarrow>
       GarnetNetwork \<Rightarrow> GarnetNetwork option" where
  "GarnetNetwork_init mc t queues n = do {
     n \<leftarrow> for_each (\<lambda>i n. do {
         (toNet, fromNet) \<leftarrow> vec_at queues i;
         on_ni i (\<lambda>ni e. do { ni \<leftarrow> addNode toNet fromNet ni; Some (ni, e) }) n }) [0..m_nodes n - 1] n;
     n \<leftarrow> createLinks mc t n;
     c \<leftarrow> init_dimensions (getNumRouters n) (cfg (n_env n));
     Some (n\<lparr>n_env := (n_env n)\<lparr>cfg := c\<rparr>\<rparr>) }"

section \<open>The distances are shortest paths\<close>

text \<open>Square matrices as functions, and the length of a walk.\<close>

definition sq :: "nat \<Rightarrow> matrix \<Rightarrow> bool" where
  "sq n m \<longleftrightarrow> length m = n \<and> (\<forall>i < n. length (m ! i) = n)"

fun walk :: "matrix \<Rightarrow> nat \<Rightarrow> nat list \<Rightarrow> int" where
  "walk w i [] = 0"
| "walk w i (x # xs) = w ! i ! x + walk w x xs"

definition is_walk :: "nat \<Rightarrow> nat \<Rightarrow> nat \<Rightarrow> nat list \<Rightarrow> bool" where
  "is_walk n i j xs \<longleftrightarrow> last (i # xs) = j \<and> set xs \<subseteq> {..<n}"

lemma walk_append: "walk w i (xs @ ys) = walk w i xs + walk w (last (i # xs)) ys"
  by (induction xs arbitrary: i) auto

lemma is_walk_append: "is_walk n i k xs \<Longrightarrow> is_walk n k j ys \<Longrightarrow> is_walk n i j (xs @ ys)"
  by (auto simp: is_walk_def last_append)

lemma sq_mat_at: "sq n m \<Longrightarrow> i < n \<Longrightarrow> j < n \<Longrightarrow> mat_at m (int i) (int j) = Some (m ! i ! j)"
  by (simp add: mat_at_eq_Some sq_def)

lemma sq_mat_set:
  assumes "sq n m" "i < n" "j < n"
  shows "mat_set m (int i) (int j) x = Some (m[i := (m ! i)[j := x]]) \<and> sq n (m[i := (m ! i)[j := x]])"
  using assms by (auto simp: mat_set_eq_Some sq_def nth_list_update)

lemma sq_upd_nth:
  assumes "sq n m" "i < n" "j < n" "a < n" "b < n"
  shows "m[i := (m ! i)[j := x]] ! a ! b = (if a = i \<and> b = j then x else m ! a ! b)"
  using assms by (auto simp: sq_def nth_list_update)

lemma relax_k_spec:
  assumes "sq n d" "sq n isw" "i < n" "j < n" "set ks \<subseteq> {..<n}"
  shows "\<exists>m' k' isw'. relax_k d (int i) (int j) (map int ks) m k0 isw = Some (m', k', isw') \<and> sq n isw' \<and>
    m' \<le> m \<and> (\<forall>k \<in> set ks. m' \<le> d ! i ! k + d ! k ! j) \<and>
    (m' = m \<and> k' = k0 \<or> m' < m \<and> (\<exists>k \<in> set ks. k' = int k \<and> m' = d ! i ! k + d ! k ! j))"
  using assms(2,5)
proof (induction ks arbitrary: m k0 isw)
  case (Cons k ks)
  have k: "k < n" "set ks \<subseteq> {..<n}" using Cons.prems by auto
  let ?s = "d ! i ! k + d ! k ! j"
  have at: "mat_at d (int i) (int k) = Some (d ! i ! k)" "mat_at d (int k) (int j) = Some (d ! k ! j)"
    using sq_mat_at [OF assms(1)] assms(3,4) k by auto
  show ?case
  proof (cases "?s < m")
    case True
    define isw1 where "isw1 = isw[i := (isw ! i)[j := isw ! i ! k + isw ! k ! j + 1]]"
    have isw1: "mat_set isw (int i) (int j) (isw ! i ! k + isw ! k ! j + 1) = Some isw1" "sq n isw1"
      using sq_mat_set [OF Cons.prems(1) assms(3,4)] by (auto simp: isw1_def)
    have at2: "mat_at isw (int i) (int k) = Some (isw ! i ! k)" "mat_at isw (int k) (int j) = Some (isw ! k ! j)"
      using sq_mat_at [OF Cons.prems(1)] assms(3,4) k by auto
    have step: "relax_k d (int i) (int j) (map int (k # ks)) m k0 isw =
        relax_k d (int i) (int j) (map int ks) ?s (int k) isw1"
      using True at at2 isw1 by (simp add: Let_def)
    show ?thesis unfolding step using Cons.IH [OF isw1(2) k(2), of ?s "int k"] True by fastforce
  next
    case False
    then have step: "relax_k d (int i) (int j) (map int (k # ks)) m k0 isw =
        relax_k d (int i) (int j) (map int ks) m k0 isw"
      using at by (simp add: Let_def)
    show ?thesis unfolding step using Cons.IH [OF Cons.prems(1) k(2), of m k0] False by fastforce
  qed
qed simp

text \<open>
  The loop invariant for weights \<open>w\<close>: entries are not negative, not above the weights, and each is the
  length of some walk.
\<close>

definition dist_inv :: "nat \<Rightarrow> matrix \<Rightarrow> matrix \<Rightarrow> bool" where
  "dist_inv n w d \<longleftrightarrow> sq n d \<and> (\<forall>i < n. \<forall>j < n. 0 \<le> d ! i ! j \<and> d ! i ! j \<le> w ! i ! j \<and>
     (\<exists>xs. is_walk n i j xs \<and> walk w i xs = d ! i ! j))"

definition weight_sum :: "nat \<Rightarrow> matrix \<Rightarrow> nat" where
  "weight_sum n d = (\<Sum>i<n. \<Sum>j<n. nat (d ! i ! j))"

definition triangle :: "nat \<Rightarrow> matrix \<Rightarrow> nat \<times> nat \<Rightarrow> bool" where
  "triangle n d = (\<lambda>(i, j). \<forall>k < n. d ! i ! j \<le> d ! i ! k + d ! k ! j)"

lemma weight_sum_upd:
  assumes "sq n d" "i < n" "j < n" "0 \<le> x" "x < d ! i ! j"
  shows "weight_sum n (d[i := (d ! i)[j := x]]) < weight_sum n d"
proof -
  let ?d = "d[i := (d ! i)[j := x]]"
  have le: "nat (?d ! a ! b) \<le> nat (d ! a ! b)" if "a < n" "b < n" for a b
    using sq_upd_nth [OF assms(1-3) that] assms(4,5) by auto
  have row: "(\<Sum>b<n. nat (?d ! i ! b)) < (\<Sum>b<n. nat (d ! i ! b))"
  proof (rule sum_strict_mono_ex1)
    show "\<exists>b\<in>{..<n}. nat (?d ! i ! b) < nat (d ! i ! b)"
      using assms sq_upd_nth [OF assms(1-3,2,3)] by (intro bexI [of _ j]) auto
  qed (use le assms(2) in auto)
  show ?thesis unfolding weight_sum_def
  proof (rule sum_strict_mono_ex1)
    show "\<forall>a\<in>{..<n}. (\<Sum>b<n. nat (?d ! a ! b)) \<le> (\<Sum>b<n. nat (d ! a ! b))"
      using le by (auto intro: sum_mono)
    show "\<exists>a\<in>{..<n}. (\<Sum>b<n. nat (?d ! a ! b)) < (\<Sum>b<n. nat (d ! a ! b))"
      using row assms(2) by blast
  qed simp
qed

lemma dist_inv_upd:
  assumes inv: "dist_inv n w d" and ij: "i < n" "j < n" "k < n"
    and x: "x = d ! i ! k + d ! k ! j" "x < d ! i ! j"
  shows "dist_inv n w (d[i := (d ! i)[j := x]])"
proof -
  have sq: "sq n d" using inv by (simp add: dist_inv_def)
  have ex: "\<exists>xs. is_walk n a b xs \<and> walk w a xs = d ! a ! b" if "a < n" "b < n" for a b
    using inv that by (auto simp: dist_inv_def)
  obtain xs where "is_walk n i k xs" "walk w i xs = d ! i ! k" using ex [OF ij(1,3)] by blast
  moreover obtain ys where "is_walk n k j ys" "walk w k ys = d ! k ! j" using ex [OF ij(3,2)] by blast
  ultimately have "is_walk n i j (xs @ ys) \<and> walk w i (xs @ ys) = x"
    using x(1) is_walk_append by (auto simp: walk_append is_walk_def)
  moreover have "0 \<le> x" using inv ij x(1) by (auto simp: dist_inv_def intro: add_nonneg_nonneg)
  ultimately have "0 \<le> x \<and> x \<le> w ! i ! j \<and> (\<exists>zs. is_walk n i j zs \<and> walk w i zs = x)"
    using inv ij x(2) by (fastforce simp: dist_inv_def)
  then show ?thesis using inv sq_mat_set [OF sq ij(1,2)] sq_upd_nth [OF sq ij(1,2)]
    by (auto simp: dist_inv_def)
qed

text \<open>One cell: either nothing changes and the triangle inequality holds there, or the total drops.\<close>

lemma relax_ij_spec:
  assumes inv: "dist_inv n w d" and "sq n lat" "sq n isw" and ij: "i < n" "j < n"
  shows "\<exists>c' d' lat' isw'. relax_ij (int i, int j) (c, d, lat, isw) = Some (c', d', lat', isw') \<and>
    dist_inv n w d' \<and> sq n lat' \<and> sq n isw' \<and>
    (c' = c \<and> d' = d \<and> triangle n d (i, j) \<or> c' \<and> weight_sum n d' < weight_sum n d)"
proof -
  have sq: "sq n d" using inv by (simp add: dist_inv_def)
  have ks: "map int [0..<n] = [0..int (length d) - 1]"
    using sq by (simp add: sq_def map_int_upt)
  have sub: "set [0..<n] \<subseteq> {..<n}" by auto
  obtain m' k' isw' where rk: "relax_k d (int i) (int j) [0..int (length d) - 1] (d ! i ! j) (-1) isw = Some (m', k', isw')"
      "sq n isw'" and tri0: "\<forall>k \<in> set [0..<n]. m' \<le> d ! i ! k + d ! k ! j"
    and m0: "m' = d ! i ! j \<and> k' = -1 \<or>
      m' < d ! i ! j \<and> (\<exists>k \<in> set [0..<n]. k' = int k \<and> m' = d ! i ! k + d ! k ! j)"
    using relax_k_spec [OF sq assms(3) ij sub, of "d ! i ! j" "-1"] unfolding ks by blast
  have tri: "\<forall>k < n. m' \<le> d ! i ! k + d ! k ! j"
    and m': "m' = d ! i ! j \<or> m' < d ! i ! j \<and> (\<exists>k < n. k' = int k \<and> m' = d ! i ! k + d ! k ! j)"
    using tri0 m0 by auto
  have at: "mat_at d (int i) (int j) = Some (d ! i ! j)" using sq_mat_at [OF sq ij] .
  show ?thesis
  proof (cases "m' = d ! i ! j")
    case True
    then have "relax_ij (int i, int j) (c, d, lat, isw) = Some (c, d, lat, isw')"
      using at rk(1) by (simp add: relax_ij_def)
    then show ?thesis using inv assms(2) rk(2) tri True by (auto simp: triangle_def)
  next
    case False
    then obtain k where k: "k < n" "k' = int k" "m' = d ! i ! k + d ! k ! j" "m' < d ! i ! j" using m' by auto
    define d' where "d' = d[i := (d ! i)[j := m']]"
    define lat' where "lat' = lat[i := (lat ! i)[j := lat ! i ! k + lat ! k ! j]]"
    have sets: "mat_set d (int i) (int j) m' = Some d'"
      "mat_set lat (int i) (int j) (lat ! i ! k + lat ! k ! j) = Some lat'" "sq n lat'"
      using sq_mat_set [OF sq ij] sq_mat_set [OF assms(2) ij] by (auto simp: d'_def lat'_def)
    have lats: "vec_at lat (int i) = Some (lat ! i)" "length (lat ! i) = n"
      "mat_at lat (int i) (int k) = Some (lat ! i ! k)" "mat_at lat (int k) (int j) = Some (lat ! k ! j)"
      using assms(2) ij k(1) sq_mat_at [OF assms(2)] by (auto simp: sq_def)
    have "relax_ij (int i, int j) (c, d, lat, isw) = Some (True, d', lat', isw')"
      using at rk(1) sets lats k False by (simp add: relax_ij_def)
    moreover have "dist_inv n w d'" unfolding d'_def by (rule dist_inv_upd [OF inv ij k(1,3,4)])
    moreover have "0 \<le> m'" using inv ij k(1,3) by (auto simp: dist_inv_def intro: add_nonneg_nonneg)
    then have "weight_sum n d' < weight_sum n d" unfolding d'_def by (rule weight_sum_upd [OF sq ij _ k(4)])
    ultimately show ?thesis using sets(3) rk(2) by blast
  qed
qed

lemma relax_all_spec:
  assumes "dist_inv n w d" "sq n lat" "sq n isw" "\<forall>(i, j) \<in> set ps. i < n \<and> j < n"
  shows "\<exists>c' d' lat' isw'. for_each relax_ij (map (map_prod int int) ps) (c, d, lat, isw) = Some (c', d', lat', isw') \<and>
    dist_inv n w d' \<and> sq n lat' \<and> sq n isw' \<and>
    (c' = c \<and> d' = d \<and> (\<forall>p \<in> set ps. triangle n d p) \<or> c' \<and> weight_sum n d' < weight_sum n d)"
  using assms
proof (induction ps arbitrary: c d lat isw)
  case (Cons p ps)
  obtain i j where p: "p = (i, j)" "i < n" "j < n" using Cons.prems(4) by auto
  obtain c1 d1 lat1 isw1 where one: "relax_ij (int i, int j) (c, d, lat, isw) = Some (c1, d1, lat1, isw1)"
    "dist_inv n w d1" "sq n lat1" "sq n isw1"
    "c1 = c \<and> d1 = d \<and> triangle n d (i, j) \<or> c1 \<and> weight_sum n d1 < weight_sum n d"
    using relax_ij_spec [OF Cons.prems(1-3) p(2,3)] by blast
  obtain c2 d2 lat2 isw2 where rest: "for_each relax_ij (map (map_prod int int) ps) (c1, d1, lat1, isw1) = Some (c2, d2, lat2, isw2)"
    "dist_inv n w d2" "sq n lat2" "sq n isw2"
    "c2 = c1 \<and> d2 = d1 \<and> (\<forall>p \<in> set ps. triangle n d1 p) \<or> c2 \<and> weight_sum n d2 < weight_sum n d1"
    using Cons.IH [OF one(2-4), of c1] Cons.prems(4) unfolding list.set ball_simps by blast
  have "for_each relax_ij (map (map_prod int int) (p # ps)) (c, d, lat, isw) = Some (c2, d2, lat2, isw2)"
    using one(1) rest(1) by (simp add: p(1))
  then show ?case using one(5) rest(2-5) p(1) by auto
qed simp

lemma product_int: "List.product [0..int n - 1] [0..int n - 1] = map (map_prod int int) (List.product [0..<n] [0..<n])"
  by (simp add: product_concat_map map_concat comp_def flip: map_int_upt)

lemma extend_pass_spec:
  assumes "dist_inv n w d" "sq n lat" "sq n isw"
  shows "\<exists>c d' lat' isw'. extend_pass d lat isw = Some (c, d', lat', isw') \<and>
    dist_inv n w d' \<and> sq n lat' \<and> sq n isw' \<and>
    (if c then weight_sum n d' < weight_sum n d else d' = d \<and> (\<forall>i < n. \<forall>j < n. triangle n d (i, j)))"
proof -
  have "length d = n" using assms(1) by (simp add: dist_inv_def sq_def)
  then have "extend_pass d lat isw =
      for_each relax_ij (map (map_prod int int) (List.product [0..<n] [0..<n])) (False, d, lat, isw)"
    by (simp add: extend_pass_def product_int)
  then show ?thesis
    using relax_all_spec [OF assms, of "List.product [0..<n] [0..<n]" False] by auto
qed

text \<open>The loop ends, because every pass that changes something lowers the total.\<close>

lemma extend_shortest_path_spec:
  assumes "dist_inv n w d" "sq n lat" "sq n isw"
  shows "\<exists>d' lat' isw'. extend_shortest_path d lat isw = Some (d', lat', isw') \<and> dist_inv n w d' \<and>
    (\<forall>i < n. \<forall>j < n. triangle n d' (i, j))"
  using assms
proof (induction "weight_sum n d" arbitrary: d lat isw rule: less_induct)
  case less
  obtain c d1 lat1 isw1 where p: "extend_pass d lat isw = Some (c, d1, lat1, isw1)" "dist_inv n w d1" "sq n lat1" "sq n isw1"
    "if c then weight_sum n d1 < weight_sum n d else d1 = d \<and> (\<forall>i < n. \<forall>j < n. triangle n d (i, j))"
    using extend_pass_spec [OF less.prems] by blast
  have step: "extend_shortest_path d lat isw = (if c then extend_shortest_path d1 lat1 isw1 else Some (d1, lat1, isw1))"
    by (subst extend_shortest_path.simps) (simp add: p(1))
  show ?case
  proof (cases c)
    case True
    then show ?thesis using less.hyps [of d1 lat1 isw1] p step by simp
  next
    case False
    then show ?thesis using p step by auto
  qed
qed

text \<open>What the weight matrix of a topology satisfies: positive weights off the diagonal, zero on it.\<close>

definition weights_ok :: "nat \<Rightarrow> matrix \<Rightarrow> bool" where
  "weights_ok n w \<longleftrightarrow> sq n w \<and> (\<forall>i < n. \<forall>j < n. if i = j then w ! i ! j = 0 else 0 < w ! i ! j)"

lemma dist_inv_init: "weights_ok n w \<Longrightarrow> dist_inv n w w"
proof -
  assume ok: "weights_ok n w"
  have "is_walk n i j [j] \<and> walk w i [j] = w ! i ! j" if "j < n" for i j
    using that by (simp add: is_walk_def)
  moreover have "0 \<le> w ! i ! j" if "i < n" "j < n" for i j
    using ok that by (cases "i = j") (fastforce simp: weights_ok_def)+
  ultimately show ?thesis using ok unfolding dist_inv_def weights_ok_def by blast
qed

text \<open>With the triangle inequality no walk is shorter than the distance.\<close>

lemma dist_lower:
  assumes w: "weights_ok n w" and d: "dist_inv n w d" "\<forall>i < n. \<forall>j < n. triangle n d (i, j)"
  shows "i < n \<Longrightarrow> set xs \<subseteq> {..<n} \<Longrightarrow> d ! i ! last (i # xs) \<le> walk w i xs"
proof (induction xs arbitrary: i)
  case Nil
  then show ?case using d(1) w by (force simp: dist_inv_def weights_ok_def)
next
  case (Cons x xs)
  have x: "x < n" "set xs \<subseteq> {..<n}" using Cons.prems by auto
  have l: "last (x # xs) < n" using x by (cases xs rule: rev_cases) auto
  have "d ! i ! last (x # xs) \<le> d ! i ! x + d ! x ! last (x # xs)"
    using d(2) Cons.prems(1) x(1) l by (auto simp: triangle_def)
  moreover have "d ! i ! x \<le> w ! i ! x" using d(1) Cons.prems(1) x(1) by (auto simp: dist_inv_def)
  ultimately show ?case using Cons.IH [OF x] by simp
qed

lemma shortest_path_spec:
  assumes "weights_ok n w" "sq n lat" "sq n isw"
  shows "\<exists>d lat' isw'. shortest_path w lat isw = Some (d, lat', isw') \<and> dist_inv n w d \<and>
    (\<forall>i < n. \<forall>j < n. triangle n d (i, j))"
  using extend_shortest_path_spec [OF dist_inv_init [OF assms(1)] assms(2,3)]
  by (simp add: shortest_path_def)

lemma shortest_path_least:
  assumes "weights_ok n w" "sq n lat" "sq n isw"
  shows "\<exists>d lat' isw'. shortest_path w lat isw = Some (d, lat', isw') \<and>
    (\<forall>i < n. \<forall>j < n. (\<exists>xs. is_walk n i j xs \<and> walk w i xs = d ! i ! j) \<and>
       (\<forall>xs. is_walk n i j xs \<longrightarrow> d ! i ! j \<le> walk w i xs))"
proof -
  obtain d lat' isw' where d: "shortest_path w lat isw = Some (d, lat', isw')" "dist_inv n w d"
    "\<forall>i < n. \<forall>j < n. triangle n d (i, j)" using shortest_path_spec [OF assms] by blast
  have "d ! i ! j \<le> walk w i xs" if "i < n" "is_walk n i j xs" for i j xs
    using dist_lower [OF assms(1) d(2,3) that(1), of xs] that(2) by (simp add: is_walk_def)
  then show ?thesis using d by (auto simp: dist_inv_def)
qed

definition sample_weights :: matrix where
  "sample_weights = [[0, 1, 9], [1, 0, 1], [9, 1, 0]]"

lemma sample_weights_ok: "weights_ok 3 sample_weights" "sq 3 sample_weights"
proof -
  have three: "(i::nat) < 3 \<longleftrightarrow> i = 0 \<or> i = 1 \<or> i = 2" for i by auto
  show "weights_ok 3 sample_weights" "sq 3 sample_weights"
    by (auto simp: weights_ok_def sq_def three sample_weights_def)
qed

section \<open>The routing tables lead along shortest paths\<close>

text \<open>
  A sequence of hops, each over a link that \<^verbatim>\<open>createLinks\<close> builds (weight positive and not
  \<^verbatim>\<open>INFINITE_LATENCY\<close>) and whose table entry contains the destination \<open>t\<close>.
\<close>

definition table_hop :: "matrix \<Rightarrow> matrix \<Rightarrow> nat \<Rightarrow> nat \<Rightarrow> nat \<Rightarrow> bool" where
  "table_hop w d t s x \<longleftrightarrow> 0 < w ! s ! x \<and> w ! s ! x \<noteq> INFINITE_LATENCY \<and>
     link_is_shortest_path_to_node (int s) (int x) (int t) w d = Some True"

fun table_route :: "matrix \<Rightarrow> matrix \<Rightarrow> nat \<Rightarrow> nat \<Rightarrow> nat list \<Rightarrow> bool" where
  "table_route w d t s [] \<longleftrightarrow> True"
| "table_route w d t s (x # xs) \<longleftrightarrow> table_hop w d t s x \<and> table_route w d t x xs"

lemma table_hop_dist:
  assumes "table_hop w d t s x" shows "w ! s ! x + d ! x ! t = d ! s ! t"
  using assms by (auto simp: table_hop_def link_is_shortest_path_to_node_def bind_Some mat_at_eq_Some)

text \<open>A node that is not the destination has a next hop.\<close>

lemma table_hop_exists:
  assumes w: "weights_ok n w" and d: "dist_inv n w d" "\<forall>i < n. \<forall>j < n. triangle n d (i, j)"
    and s: "s < n" "t < n" "s \<noteq> t" "d ! s ! t < INFINITE_LATENCY"
  shows "\<exists>x < n. table_hop w d t s x"
proof -
  let ?P = "\<lambda>xs. is_walk n s t xs \<and> walk w s xs = d ! s ! t"
  define xs where "xs = arg_min length ?P"
  have ex: "\<exists>xs. ?P xs" using d(1) s by (auto simp: dist_inv_def)
  have xs: "?P xs" unfolding xs_def using ex by (metis (mono_tags, lifting) arg_min_natI)
  have least: "length xs \<le> length ys" if "?P ys" for ys
    unfolding xs_def using that by (rule arg_min_nat_le)
  obtain x ys where ys: "xs = x # ys" using xs s(3) by (cases xs) (auto simp: is_walk_def)
  have x: "x < n" "set ys \<subseteq> {..<n}" "last (x # ys) = t" using xs ys by (auto simp: is_walk_def)
  have "x \<noteq> s"
  proof
    assume "x = s"
    then have "?P ys" using xs ys w s(1) x by (auto simp: is_walk_def weights_ok_def)
    then show False using least [of ys] ys by simp
  qed
  then have pos: "0 < w ! s ! x" using w s(1) x(1) by (auto simp: weights_ok_def)
  have "d ! x ! t \<le> walk w x ys" using dist_lower [OF w d x(1,2)] x(3) by simp
  moreover have "d ! s ! t \<le> d ! s ! x + d ! x ! t" using d(2) s(1,2) x(1) by (auto simp: triangle_def)
  moreover have "d ! s ! x \<le> w ! s ! x" "0 \<le> d ! x ! t" using d(1) s x(1) by (auto simp: dist_inv_def)
  ultimately have eq: "w ! s ! x + d ! x ! t = d ! s ! t" using xs ys by simp
  moreover have "sq n w" "sq n d" using w d(1) by (auto simp: weights_ok_def dist_inv_def)
  ultimately have "link_is_shortest_path_to_node (int s) (int x) (int t) w d = Some True"
    using sq_mat_at s x(1) by (auto simp: link_is_shortest_path_to_node_def)
  then show ?thesis using x(1) pos eq s(4) \<open>0 \<le> d ! x ! t\<close> by (auto simp: table_hop_def)
qed

lemma table_route_dist:
  assumes w: "weights_ok n w" and d: "dist_inv n w d"
  shows "table_route w d t s xs \<Longrightarrow> s < n \<Longrightarrow> t < n \<Longrightarrow> set xs \<subseteq> {..<n} \<Longrightarrow>
    walk w s xs + d ! last (s # xs) ! t = d ! s ! t \<and> int (length xs) + d ! last (s # xs) ! t \<le> d ! s ! t"
proof (induction xs arbitrary: s)
  case (Cons x xs)
  then have "walk w x xs + d ! last (x # xs) ! t = d ! x ! t" "int (length xs) + d ! last (x # xs) ! t \<le> d ! x ! t"
    by auto
  moreover have "0 < w ! s ! x" "w ! s ! x + d ! x ! t = d ! s ! t"
    using Cons.prems(1) table_hop_dist by (auto simp: table_hop_def)
  ultimately show ?case by simp
qed simp

lemma table_route_snoc:
  "table_route w d t s xs \<Longrightarrow> table_hop w d t (last (s # xs)) x \<Longrightarrow> table_route w d t s (xs @ [x])"
  by (induction xs arbitrary: s) auto

text \<open>C14. Table routing reaches the destination on a shortest path whatever link is chosen at each
  switch. From a switch \<open>s\<close> whose distance to \<open>t\<close> is below \<^verbatim>\<open>INFINITE_LATENCY\<close>, every sequence of hops over
  links whose table entry contains \<open>t\<close> is a prefix of a shortest path, is no longer than the distance,
  and can be extended by a further hop until it stands at \<open>t\<close>.
\<close>

theorem table_routes_are_shortest:
  assumes "weights_ok n w" "sq n lat" "sq n isw" "shortest_path w lat isw = Some (d, lat', isw')"
    and "s < n" "t < n" "d ! s ! t < INFINITE_LATENCY" "table_route w d t s xs" "set xs \<subseteq> {..<n}"
  shows "walk w s xs + d ! last (s # xs) ! t = d ! s ! t \<and> int (length xs) \<le> d ! s ! t \<and>
    (last (s # xs) = t \<or> (\<exists>x < n. table_route w d t s (xs @ [x])))"
proof -
  have d: "dist_inv n w d" "\<forall>i < n. \<forall>j < n. triangle n d (i, j)"
    using shortest_path_spec [OF assms(1-3)] assms(4) by auto
  note r = table_route_dist [OF assms(1) d(1) assms(8,5,6,9)]
  have l: "last (s # xs) < n" using assms(5,9) by (cases xs rule: rev_cases) auto
  then have nn: "0 \<le> d ! last (s # xs) ! t" using d(1) assms(6) by (auto simp: dist_inv_def)
  have "0 \<le> walk w s xs" using r nn by linarith
  then have "d ! last (s # xs) ! t < INFINITE_LATENCY" using r assms(7) by linarith
  then have "\<exists>x < n. table_hop w d t (last (s # xs)) x" if "last (s # xs) \<noteq> t"
    using table_hop_exists [OF assms(1) d l assms(6) that] by blast
  then show ?thesis using r nn table_route_snoc [OF assms(8)] by fastforce
qed

declare extend_shortest_path.simps [code]

lemma sample_shortest_path:
  "shortest_path sample_weights sample_weights sample_weights =
     Some ([[0, 1, 2], [1, 0, 1], [2, 1, 0]], [[0, 1, 2], [1, 0, 1], [2, 1, 0]], [[0, 1, 3], [1, 0, 1], [3, 1, 0]])"
  by code_simp

theorem table_routes_are_shortest_witness:
  "table_route sample_weights [[0, 1, 2], [1, 0, 1], [2, 1, 0]] 2 0 [1] \<and>
   (\<exists>x < 3. table_route sample_weights [[0, 1, 2], [1, 0, 1], [2, 1, 0]] 2 0 ([1] @ [x]))"
proof -
  have r: "table_route sample_weights [[0, 1, 2], [1, 0, 1], [2, 1, 0]] 2 0 [1]" by code_simp
  moreover have "[[0, 1, 2], [1, 0, 1], [2, 1, 0]] ! 0 ! 2 < INFINITE_LATENCY" by code_simp
  ultimately show ?thesis
    using table_routes_are_shortest [OF sample_weights_ok(1,2,2) sample_shortest_path, of 0 2 "[1]"] by simp
qed

text \<open>The matrix the constructor fills from the link map has the properties the loop needs.\<close>

definition links_ok :: "LinkMap \<Rightarrow> bool" where
  "links_ok lm \<longleftrightarrow> list_all (\<lambda>((s, d), le). 0 \<le> s \<and> 0 \<le> d \<and> s \<noteq> d \<and> 0 < link_weight (le_link le)) lm"

lemma max_switch_id_fold:
  "m \<le> foldl (\<lambda>m ((s, d), _). max (max m s) d) (m::int) lm \<and>
   (\<forall>((s, d), le) \<in> set lm. s \<le> foldl (\<lambda>m ((s, d), _). max (max m s) d) m lm \<and>
      d \<le> foldl (\<lambda>m ((s, d), _). max (max m s) d) m lm)"
proof (induction lm arbitrary: m)
  case (Cons a lm)
  obtain s d le where a: "a = ((s, d), le)" by (metis prod.exhaust)
  show ?case using Cons.IH [of "max (max m s) d"] by (auto simp: a)
qed simp

lemma max_switch_id_ge:
  assumes "((s, d), le) \<in> set lm" shows "s \<le> max_switch_id lm" "d \<le> max_switch_id lm"
  using max_switch_id_fold [of 0 lm] assms by (force simp: max_switch_id_def)+

lemma max_switch_id_nonneg: "0 \<le> max_switch_id lm"
  using max_switch_id_fold [of 0 lm] by (simp add: max_switch_id_def)

lemma fill_matrix:
  assumes "list_all (\<lambda>x. 0 \<le> fi x \<and> fi x < int n \<and> 0 \<le> fj x \<and> fj x < int n) xs" "sq n w"
  shows "\<exists>w'. for_each (\<lambda>x w. mat_set w (fi x) (fj x) (v x)) xs w = Some w' \<and> sq n w' \<and>
    (\<forall>i < n. \<forall>j < n. (\<exists>x \<in> set xs. fi x = int i \<and> fj x = int j \<and> w' ! i ! j = v x) \<or>
        w' ! i ! j = w ! i ! j \<and> (\<forall>x \<in> set xs. \<not> (fi x = int i \<and> fj x = int j)))"
  using assms
proof (induction xs arbitrary: w)
  case (Cons x xs)
  have x: "fi x = int (nat (fi x))" "fj x = int (nat (fj x))" "nat (fi x) < n" "nat (fj x) < n"
    using Cons.prems(1) by auto
  define w1 where "w1 = w[nat (fi x) := (w ! nat (fi x))[nat (fj x) := v x]]"
  have w1: "mat_set w (fi x) (fj x) (v x) = Some w1" "sq n w1"
    using sq_mat_set [OF Cons.prems(2) x(3,4), of "v x"] x(1,2) by (auto simp: w1_def)
  have nth: "w1 ! i ! j = (if fi x = int i \<and> fj x = int j then v x else w ! i ! j)" if "i < n" "j < n" for i j
    using sq_upd_nth [OF Cons.prems(2) x(3,4) that] x(1,2) unfolding w1_def by auto
  obtain w' where w': "for_each (\<lambda>x w. mat_set w (fi x) (fj x) (v x)) xs w1 = Some w'" "sq n w'"
    "\<forall>i < n. \<forall>j < n. (\<exists>x \<in> set xs. fi x = int i \<and> fj x = int j \<and> w' ! i ! j = v x) \<or>
        w' ! i ! j = w1 ! i ! j \<and> (\<forall>x \<in> set xs. \<not> (fi x = int i \<and> fj x = int j))"
    using Cons.IH [OF _ w1(2)] Cons.prems(1) by auto
  have "for_each (\<lambda>x w. mat_set w (fi x) (fj x) (v x)) (x # xs) w = Some w'" using w1(1) w'(1) by simp
  moreover have "\<forall>i < n. \<forall>j < n. (\<exists>y \<in> set (x # xs). fi y = int i \<and> fj y = int j \<and> w' ! i ! j = v y) \<or>
        w' ! i ! j = w ! i ! j \<and> (\<forall>y \<in> set (x # xs). \<not> (fi y = int i \<and> fj y = int j))"
    using w'(3) nth by (metis list.set_intros(1,2) set_ConsD)
  ultimately show ?case using w'(2) by blast
qed simp

lemma sq_replicate [simp]: "sq n (replicate n (replicate n x))"
  by (simp add: sq_def)

lemma links_in_range:
  assumes "links_ok lm"
  shows "list_all (\<lambda>x. 0 \<le> fst (fst x) \<and> fst (fst x) < int (nat (max_switch_id lm + 1)) \<and>
      0 \<le> snd (fst x) \<and> snd (fst x) < int (nat (max_switch_id lm + 1))) lm"
  unfolding list_all_iff
proof
  fix x assume "x \<in> set lm"
  moreover obtain s d le where "x = ((s, d), le)" by (metis prod.exhaust)
  ultimately show "0 \<le> fst (fst x) \<and> fst (fst x) < int (nat (max_switch_id lm + 1)) \<and>
      0 \<le> snd (fst x) \<and> snd (fst x) < int (nat (max_switch_id lm + 1))"
    using assms max_switch_id_ge by (fastforce simp: links_ok_def list_all_iff)
qed

lemma component_latencies_ok:
  assumes "links_ok lm"
  shows "\<exists>l. component_latencies lm = Some l \<and> sq (nat (max_switch_id lm + 1)) l"
  using fill_matrix [OF links_in_range [OF assms] sq_replicate, of "\<lambda>x. link_latency (le_link (snd x))" "- 1"]
  by (auto simp: component_latencies_def case_prod_unfold)

lemma topology_weights_ok:
  assumes "links_ok lm"
  shows "\<exists>w. topology_weights lm = Some w \<and> weights_ok (nat (max_switch_id lm + 1)) w"
proof -
  let ?n = "nat (max_switch_id lm + 1)"
  let ?w0 = "replicate ?n (replicate ?n INFINITE_LATENCY)"
  have "list_all (\<lambda>i. 0 \<le> i \<and> i < int ?n \<and> 0 \<le> i \<and> i < int ?n) [0..int ?n - 1]"
    by (auto simp: list_all_iff)
  from fill_matrix [OF this sq_replicate, of "\<lambda>_. 0" INFINITE_LATENCY]
  obtain w1 where w1: "for_each (\<lambda>i w. mat_set w i i 0) [0..int ?n - 1] ?w0 = Some w1" "sq ?n w1"
    "\<forall>i < ?n. \<forall>j < ?n. w1 ! i ! j = (if i = j then 0 else INFINITE_LATENCY)"
    by (elim exE conjE) (rule that, assumption, assumption, fastforce)
  from fill_matrix [OF links_in_range [OF assms] w1(2), of "\<lambda>x. link_weight (le_link (snd x))"]
  obtain w where w: "for_each (\<lambda>x w. mat_set w (fst (fst x)) (snd (fst x)) (link_weight (le_link (snd x)))) lm w1 = Some w"
    "sq ?n w" "\<forall>i < ?n. \<forall>j < ?n. (\<exists>x \<in> set lm. fst (fst x) = int i \<and> snd (fst x) = int j \<and> w ! i ! j = link_weight (le_link (snd x))) \<or>
        w ! i ! j = w1 ! i ! j" by blast
  have "if i = j then w ! i ! j = 0 else 0 < w ! i ! j" if ij: "i < ?n" "j < ?n" for i j
  proof (cases "\<exists>x \<in> set lm. fst (fst x) = int i \<and> snd (fst x) = int j \<and> w ! i ! j = link_weight (le_link (snd x))")
    case True
    then show ?thesis using assms by (fastforce simp: links_ok_def list_all_iff)
  next
    case False
    then have "w ! i ! j = w1 ! i ! j" using w(3) ij by blast
    then show ?thesis using w1(3) ij by (auto simp: INFINITE_LATENCY_def)
  qed
  then have "weights_ok ?n w" using w(2) unfolding weights_ok_def by blast
  moreover have "topology_weights lm = Some w" using w1(1) w(1)
    by (simp add: topology_weights_def case_prod_unfold)
  ultimately show ?thesis by blast
qed

text \<open>C13. \<^verbatim>\<open>createLinks\<close> computes shortest paths: for every link map with positive weights the matrices are
  filled without an access out of range, the fixpoint loop of \<^verbatim>\<open>extend_shortest_path\<close> terminates without
  failing an assertion, and each entry of its result is the length of some walk while no walk is shorter.
\<close>

theorem shortest_path_correct:
  assumes "links_ok lm"
  shows "\<exists>w lat d lat' isw'. topology_weights lm = Some w \<and> component_latencies lm = Some lat \<and>
    (let n = nat (max_switch_id lm + 1) in
      shortest_path w lat (replicate n (replicate n 0)) = Some (d, lat', isw') \<and>
      (\<forall>i < n. \<forall>j < n. (\<exists>xs. is_walk n i j xs \<and> walk w i xs = d ! i ! j) \<and>
         (\<forall>xs. is_walk n i j xs \<longrightarrow> d ! i ! j \<le> walk w i xs)))"
proof -
  obtain w lat where w: "topology_weights lm = Some w" "weights_ok (nat (max_switch_id lm + 1)) w"
    and l: "component_latencies lm = Some lat" "sq (nat (max_switch_id lm + 1)) lat"
    using topology_weights_ok [OF assms] component_latencies_ok [OF assms] by blast
  show ?thesis using shortest_path_least [OF w(2) l(2) sq_replicate [of _ 0]] w(1) l(1) by (auto simp: Let_def)
qed

definition sample_links :: LinkMap where
  "sample_links =
     (let le = \<lambda>w. \<lparr>le_link = IntLink 1 w (NetworkLink_new 0 1 2 2) (NetworkLink_new 0 1 2 2), src_outport_dirn = ''East'', dst_inport_dirn = ''West''\<rparr>
      in [((0, 1), le 1), ((1, 2), le 1), ((0, 2), le 5)])"

theorem shortest_path_correct_witness:
  "\<exists>w lat d lat' isw'. topology_weights sample_links = Some w \<and> component_latencies sample_links = Some lat \<and>
     shortest_path w lat (replicate 3 (replicate 3 0)) = Some (d, lat', isw') \<and> d ! 0 ! 2 \<le> 2"
proof -
  have n: "nat (max_switch_id sample_links + 1) = 3" and ok: "links_ok sample_links"
    by (simp_all add: sample_links_def max_switch_id_def links_ok_def Let_def)
  have w: "topology_weights sample_links = Some [[0, 1, 5], [10000, 0, 1], [10000, 10000, 0]]"
    unfolding topology_weights_def n
    by (simp add: sample_links_def Let_def INFINITE_LATENCY_def upto.simps mat_set_def vec_at_def vec_set_def numeral_3_eq_3)
  let ?w = "[[0, 1, 5], [10000, 0, 1], [10000, 10000, 0]]"
  obtain lat d lat' isw' where d: "component_latencies sample_links = Some lat"
      "shortest_path ?w lat (replicate 3 (replicate 3 0)) = Some (d, lat', isw')"
      "\<forall>i < 3. \<forall>j < 3. \<forall>xs. is_walk 3 i j xs \<longrightarrow> d ! i ! j \<le> walk ?w i xs"
    using shortest_path_correct [OF ok] unfolding n w Let_def option.inject by blast
  have "is_walk 3 0 2 [1, 2]" "walk ?w 0 [1, 2] = 2" by (simp_all add: is_walk_def)
  moreover have "(0::nat) < 3" "(2::nat) < 3" by simp_all
  ultimately have "d ! 0 ! 2 \<le> 2" using d(3) by metis
  then show ?thesis using w d(1,2) by blast
qed

end
