(* ===== verification/Packet_Conservation.thy ===== *)
theory Packet_Conservation
  imports Garnet_Network
begin

text \<open>
  What the network does with packets. Every step of a router and of a link keeps the multiset of
  packets that are in the buffers of routers, on links and in network interfaces; a swap exchanges two
  flits of neighbouring routers.
\<close>

section \<open>The packets in the network\<close>

definition net_packets :: "GarnetNetwork \<Rightarrow> flit multiset" where
  "net_packets n = image_mset packet ((\<Sum>r\<leftarrow>m_routers n. router_flits r) + link_flits (n_env n) +
     (\<Sum>ni\<leftarrow>m_nis n. ni_flits ni))"

text \<open>The parts that a step of a router or link leaves alone.\<close>

definition net_frame :: "GarnetNetwork \<Rightarrow> GarnetNetwork \<Rightarrow> bool" where
  "net_frame n n' \<longleftrightarrow> ctx (n_env n') = ctx (n_env n) \<and> drift (n_env n) (n_env n') \<and> m_nis n' = m_nis n \<and>
     m_nodes n' = m_nodes n \<and> map m_id_r (m_routers n') = map m_id_r (m_routers n)"

lemma net_frame_refl [simp]: "net_frame n n"
  by (simp add: net_frame_def)

lemma net_frame_trans: "net_frame n n' \<Longrightarrow> net_frame n' n'' \<Longrightarrow> net_frame n n''"
  by (auto simp: net_frame_def intro: drift_trans)

lemma put_router_eq_Some:
  "put_router i r n = Some n' \<longleftrightarrow> 0 \<le> i \<and> i < int (length (m_routers n)) \<and>
     n' = n\<lparr>m_routers := (m_routers n)[nat i := r]\<rparr>"
  by (auto simp: put_router_def run_simps)

lemma on_router_Some:
  assumes "on_router i m n = Some n'"
  obtains r' e' where "0 \<le> i" "i < int (length (m_routers n))" "m (m_routers n ! nat i) (n_env n) = Some (r', e')"
    "n' = n\<lparr>n_env := e', m_routers := (m_routers n)[nat i := r']\<rparr>"
  using assms by (auto simp: on_router_def bind_Some vec_at_eq_Some put_router_eq_Some)

text \<open>A change of router \<open>i\<close> alone, seen from the network.\<close>

lemma net_packets_router:
  assumes "i < length (m_routers n)" "m_routers n' = (m_routers n)[i := r']" "m_nis n' = m_nis n"
    "image_mset packet (router_flits r' + link_flits (n_env n')) + A =
     image_mset packet (router_flits (m_routers n ! i) + link_flits (n_env n)) + B"
  shows "net_packets n' + A = net_packets n + B"
proof -
  let ?f = "\<lambda>r. image_mset packet (router_flits r)"
  have s: "image_mset packet (\<Sum>r\<leftarrow>rs. router_flits r) = (\<Sum>r\<leftarrow>rs. ?f r)" for rs
    by (induction rs) simp_all
  have "(\<Sum>r\<leftarrow>m_routers n'. ?f r) + ?f (m_routers n ! i) = (\<Sum>r\<leftarrow>m_routers n. ?f r) + ?f r'"
    unfolding assms(2) by (rule list_update_sum [OF assms(1)])
  then have "(\<Sum>r\<leftarrow>m_routers n'. ?f r) + image_mset packet (link_flits (n_env n')) + ?f (m_routers n ! i) + A =
      (\<Sum>r\<leftarrow>m_routers n. ?f r) + (?f r' + image_mset packet (link_flits (n_env n')) + A)"
    by (simp add: ac_simps)
  also have "\<dots> = (\<Sum>r\<leftarrow>m_routers n. ?f r) + image_mset packet (link_flits (n_env n)) + ?f (m_routers n ! i) + B"
    using assms(4) by (simp add: ac_simps)
  finally show ?thesis by (simp add: net_packets_def s assms(3) ac_simps)
qed

context router_method
begin

lemma on_router_packets:
  assumes "on_router i m n = Some n'"
  shows "net_packets n' = net_packets n" "net_frame n n'"
proof -
  obtain r' e' where s: "0 \<le> i" "i < int (length (m_routers n))" "m (m_routers n ! nat i) (n_env n) = Some (r', e')"
    "n' = n\<lparr>n_env := e', m_routers := (m_routers n)[nat i := r']\<rparr>" using on_router_Some [OF assms] by blast
  have i: "nat i < length (m_routers n)" using s(1,2) by simp
  show "net_packets n' = net_packets n"
    using net_packets_router [OF i, of n' r' "{#}" "{#}"] keeps_packets [OF s(3)] s(4) by (simp add: packets_def)
  have "map m_id_r ((m_routers n)[nat i := r']) = map m_id_r (m_routers n)"
    using keeps_ctx [OF s(3)] i by (intro nth_equalityI) (auto simp: nth_list_update)
  then show "net_frame n n'" using keeps_ctx [OF s(3)] keeps_env [OF s(3)] s(4) by (simp add: net_frame_def)
qed

end

interpretation out_wakeup: router_method "output_wakeup p" for p
proof
  fix r e r' e'
  assume "output_wakeup p r e = Some (r', e')"
  then obtain u' where u: "0 \<le> p" "p < int (length (m_output_unit r))" "OutputUnit_wakeup (m_output_unit r ! nat p) e = Some (u', e')"
    "r' = r\<lparr>m_output_unit := (m_output_unit r)[nat p := u']\<rparr>"
    by (auto simp: output_wakeup_def bind_Some vec_at_eq_Some upd_ou_eq_Some)
  have p: "nat p < length (m_output_unit r)" using u(1,2) by simp
  have "out_part r' = out_part r"
    using list_update_sum_same [OF p, of "\<lambda>u. fb_items (m_out_buffer u)" u'] OutputUnit_wakeup_frame(1) [OF u(3)]
    by (simp add: out_part_def u(4))
  moreover obtain links where e': "e' = e\<lparr>m_creditlinks := links\<rparr>" "drained (m_creditlinks e) links"
    using OutputUnit_wakeup_frame(6) [OF u(3)] by blast
  ultimately show "packets r' e' = packets r e"
    by (intro packets_cong) (simp_all add: u(4) vc_part_def xbar_part_def)
  show "ctx e' = ctx e \<and> m_id_r r' = m_id_r r" "drift e e'" by (simp_all add: u(4) e' drift_def)
qed

interpretation out_phase: router_method output_phase
proof -
  have "router_method (\<lambda>r e. for_each (\<lambda>p (r, e). output_wakeup p r e) [0..get_num_outports r - 1] (r, e))"
    by (rule router_method_loop) (simp add: out_wakeup.router_method_axioms)
  then show "router_method output_phase" by (simp add: output_phase_def [abs_def])
qed

section \<open>A swap exchanges two flits\<close>

text \<open>Methods that touch the swap pointer, the flags, marks and statistics only.\<close>

lemma quiet_method:
  assumes "\<And>r e r' e'. m r e = Some (r', e') \<Longrightarrow> router_flits r' = router_flits r \<and> m_id_r r' = m_id_r r \<and> calm e e'"
  shows "router_method m"
  by (rule router_method.intro)
    (use assms calm_drift in \<open>fastforce simp: packets_def link_flits_def calm_def\<close>)+

lemma router_flits_swap_fields [simp]:
  "router_flits (r\<lparr>swap_ptr := sp\<rparr>) = router_flits r" "router_flits (r\<lparr>is_swap := b\<rparr>) = router_flits r"
  "router_flits (r\<lparr>send_routedSwap := b\<rparr>) = router_flits r"
  by (simp_all add: router_flits_def)

interpretation mov: router_method "\<lambda>r e. do { r \<leftarrow> movSwapPtr e r; Some (r, e) }"
  by (rule quiet_method) (auto simp: bind_Some dest!: movSwapPtr_frame)

interpretation find: router_method "\<lambda>r e. do { r \<leftarrow> find_swap_ptr r; Some (r, e) }"
  by (rule quiet_method) (auto simp: bind_Some dest!: find_swap_ptr_frame)

lemma flag_routed_Some:
  assumes "flag_routed r e = Some (r', e')"
  shows "e' = e \<and> (\<exists>f. pointed_flit r = Some f \<and> r' = r\<lparr>send_routedSwap := send_routedSwap r \<or> routedSwap f\<rparr>)"
proof (cases "pointed_flit r")
  case (Some f)
  then show ?thesis using assms by (cases "routedSwap f") (auto simp: flag_routed_def bind_Some)
qed (use assms in \<open>simp add: flag_routed_def\<close>)

interpretation flag: router_method flag_routed
  by (rule quiet_method) (auto dest!: flag_routed_Some)

interpretation fail: router_method fail_swap
  by (rule quiet_method) (auto simp: fail_swap_def bind_Some upd_stats_def calm_def ctx_def split: if_splits)

definition same_packets :: "Router \<Rightarrow> Router \<Rightarrow> bool" where
  "same_packets r r' \<longleftrightarrow> image_mset packet (router_flits r') = image_mset packet (router_flits r) \<and>
     m_id_r r' = m_id_r r"

lemma clear_mark_cases:
  assumes "clear_mark i v r = Some r'"
  obtains "r' = r"
  | x where "has_vc i v r" "vc_updTopFlit unset_RoutedSwap (get_vc i v r) = Some x" "r' = put_vc i v x r"
  using assms
  by (auto simp: clear_mark_def bind_Some vec_at_eq_Some iu_updTop_eq_Some upd_iu_eq_Some has_vc_def get_vc_def
      put_vc_def split: if_splits)

lemma clear_mark_keeps: "clear_mark i v r = Some r' \<Longrightarrow> same_packets r r'"
proof (erule clear_mark_cases)
  fix x
  assume x: "has_vc i v r" "vc_updTopFlit unset_RoutedSwap (get_vc i v r) = Some x" "r' = put_vc i v x r"
  have "image_mset packet (vc_part r') = image_mset packet (vc_part r)"
    unfolding x(3) by (rule vc_part_put_packets [OF x(1) vc_updTop_packets [OF x(2)]]) simp
  then show "same_packets r r'" by (simp add: same_packets_def router_flits_def x(3))
qed (simp add: same_packets_def)

lemma for_each_same_packets:
  assumes "for_each f xs r = Some r'" "\<And>x r r'. f x r = Some r' \<Longrightarrow> same_packets r r'"
  shows "same_packets r r'"
  using assms(1) by (rule for_each_inv [where P = "same_packets r"])
    (use assms(2) in \<open>fastforce simp: same_packets_def\<close>)+

lemma clear_marks_keeps: "clear_marks k r = Some r' \<Longrightarrow> same_packets r r'"
  unfolding clear_marks_def by (erule for_each_same_packets, erule for_each_same_packets, erule clear_mark_keeps)

lemma doSwap_cases:
  assumes "Router_doSwap d v r e = Some (got, r', e')"
  shows "calm e e' \<and> m_total_swaps (stats e') = m_total_swaps (stats e) \<and> (case got of None \<Rightarrow> r' = r
    | Some g \<Rightarrow> \<exists>x. has_vc (map_at 0 (m_inports_dirn2idx (m_routing_unit r)) d) v r \<and> m_outport_dir g \<noteq> ''Local'' \<and>
        vc_getTopFlit (get_vc (map_at 0 (m_inports_dirn2idx (m_routing_unit r)) d) v r) = Some (g, x) \<and>
        r' = put_vc (map_at 0 (m_inports_dirn2idx (m_routing_unit r)) d) v x r)"
proof -
  let ?p = "map_at 0 (m_inports_dirn2idx (m_routing_unit r)) d"
  have "got = None \<and> r' = r \<and> e' = e \<or> offer_flit ?p v r e = Some (got, r', e')"
    using assms by (simp add: Router_doSwap_def bind_Some Let_def split: if_splits)
  then consider "got = None" "r' = r" "e' = e" | "offer_flit ?p v r e = Some (got, r', e')" by blast
  then show ?thesis
  proof cases
    case 2
    have c: "calm e e'" "m_total_swaps (stats e') = m_total_swaps (stats e)"
      using 2 by (auto simp: offer_flit_def bind_Some upd_stats_def calm_def ctx_def split: if_splits)
    then show ?thesis
    proof (cases got)
      case None
      then show ?thesis using offer_flit_None 2 c by auto
    next
      case (Some g)
      then show ?thesis using offer_flit_Some [of ?p v r e g r' e'] 2 c by auto
    qed
  qed simp
qed

text \<open>
  What \<^verbatim>\<open>GarnetNetwork::doSwap\<close> does to the network when it hands a flit \<open>g\<close> back: in the downstream router,
  at the port and channel the flit \<open>f\<close> would arrive at, \<open>g\<close> is replaced by \<open>f\<close>, marked as swapped.
\<close>

lemma exchange_Some:
  assumes "exchange mark f up down d n = Some (got, n')"
  shows "calm (n_env n) (n_env n') \<and> m_total_swaps (stats (n_env n')) = m_total_swaps (stats (n_env n)) \<and>
    m_nis n' = m_nis n \<and> m_nodes n' = m_nodes n \<and> 0 \<le> down \<and> down < int (length (m_routers n)) \<and>
    (case got of None \<Rightarrow> m_routers n' = m_routers n
     | Some g \<Rightarrow> \<exists>x f' b p. has_vc p (m_vc f) (m_routers n ! nat down) \<and>
         p = map_at 0 (m_inports_dirn2idx (m_routing_unit (m_routers n ! nat down))) d \<and> m_outport_dir g \<noteq> ''Local'' \<and>
         vc_getTopFlit (get_vc p (m_vc f) (m_routers n ! nat down)) = Some (g, x) \<and>
         payload f' = payload f \<and> m_vc f' = m_vc f \<and> routedSwap f' \<and>
         m_routers n' = (m_routers n)[nat down :=
           (put_vc p (m_vc f) (vc_insertFlitAtTop f' x) (m_routers n ! nat down))\<lparr>is_swap := b\<rparr>])"
proof -
  let ?r = "m_routers n ! nat down" and ?p = "map_at 0 (m_inports_dirn2idx (m_routing_unit (m_routers n ! nat down))) d"
  obtain r1 e1 where d: "0 \<le> down" "down < int (length (m_routers n))" "Router_doSwap d (m_vc f) ?r (n_env n) = Some (got, r1, e1)"
    and rest: "(case got of None \<Rightarrow> Some (None, n\<lparr>n_env := e1, m_routers := (m_routers n)[nat down := r1]\<rparr>)
     | Some flit1_t \<Rightarrow> do {
         let r2 = (if mark then r1\<lparr>is_swap := True\<rparr> else r1);
         n2 \<leftarrow> put_router down r2 (n\<lparr>n_env := e1, m_routers := (m_routers n)[nat down := r1]\<rparr>);
         (r3, e) \<leftarrow> doSwap_enqueue (free_vcs n2 down) (set_RoutedSwap f) d (-1) (m_vc f) r2 (n_env n2);
         n3 \<leftarrow> put_router down r3 (n2\<lparr>n_env := e\<rparr>);
         Some (Some flit1_t, n3) }) = Some (got, n')"
    using assms by (auto simp: exchange_def bind_Some Let_def vec_at_eq_Some put_router_eq_Some split: option.splits)
  note ds = doSwap_cases [OF d(3)]
  have i: "nat down < length (m_routers n)" using d(1,2) by simp
  show ?thesis
  proof (cases got)
    case None
    then show ?thesis using rest ds d(1,2) by (auto simp: calm_def)
  next
    case (Some g)
    then obtain x where x: "has_vc ?p (m_vc f) ?r" "m_outport_dir g \<noteq> ''Local''"
      "vc_getTopFlit (get_vc ?p (m_vc f) ?r) = Some (g, x)" "r1 = put_vc ?p (m_vc f) x ?r" using ds by auto
    define b where "b = (mark \<or> is_swap ?r)"
    let ?r2 = "(put_vc ?p (m_vc f) x ?r)\<lparr>is_swap := b\<rparr>"
    have r2: "(if mark then r1\<lparr>is_swap := True\<rparr> else r1) = ?r2" by (auto simp: x(4) b_def put_vc_def)
    obtain n2 r3 e where q: "doSwap_enqueue (free_vcs n2 down) (set_RoutedSwap f) d (-1) (m_vc f) ?r2 e1 = Some (r3, e)"
      and n': "n' = n\<lparr>n_env := e, m_routers := (m_routers n)[nat down := r3]\<rparr>"
      using rest by (auto simp: Some r2 Let_def bind_Some put_router_eq_Some)
    have routed: "routedSwap (set_RoutedSwap f)" by (simp add: set_RoutedSwap_def)
    have port: "enqueue_port d (-1) ?r2 = ?p" by (simp add: enqueue_port_def put_vc_def)
    obtain f' where f': "rng_only e1 e" "payload f' = payload f" "m_vc f' = m_vc f" "routedSwap f'"
      "r3 = put_vc ?p (m_vc f) (vc_insertFlitAtTop f' (get_vc ?p (m_vc f) ?r2)) ?r2"
      using doSwap_enqueue_Some [OF q] unfolding port by (auto simp: routed)
    have "calm (n_env n) e" "m_total_swaps (stats e) = m_total_swaps (stats (n_env n))"
      using ds rng_only_calm [OF f'(1)] calm_trans rng_only_frame [OF f'(1)] by (blast, simp)
    then show ?thesis using d(1,2) x f' n' by (auto simp: Some)
  qed
qed

lemma GarnetNetwork_doSwap_cases:
  assumes "GarnetNetwork_doSwap f i n = Some (got, n')"
  obtains (none) "got = None" "n' = n"
  | (swap) mark down d where "get_downstreamId (cfg (n_env n)) (m_outport_dir f) i = Some down"
      "get_downstreamDirn (m_outport_dir f) = Some d" "exchange mark f i down d n = Some (got, n')"
proof -
  obtain down d r where dn: "get_downstreamId (cfg (n_env n)) (m_outport_dir f) i = Some down"
    "get_downstreamDirn (m_outport_dir f) = Some d" "vec_at (m_routers n) down = Some r"
    and body: "(if m_no_is_swap (cfg (n_env n)) = 0 then
       (if is_swap r = False \<and> sp_valid (swap_ptr r) then exchange True f i down d n else Some (None, n))
     else if m_no_is_swap (cfg (n_env n)) = 1 then
       (if sp_valid (swap_ptr r) then exchange False f i down d n else Some (None, n))
     else None) = Some (got, n')"
    using assms unfolding GarnetNetwork_doSwap_def Let_def bind_Some by (elim exE conjE) (rule that, assumption+)
  have "(got = None \<and> n' = n) \<or> (\<exists>mark. exchange mark f i down d n = Some (got, n'))"
    using body by (simp split: if_splits) blast+
  then show thesis using none swap [OF dn(1,2)] by blast
qed

lemma finish_swap_Some:
  assumes "finish_swap free g r e = Some (r', e')"
  shows "calm e e' \<and> m_total_swaps (stats e') = m_total_swaps (stats e) + 1 \<and>
    has_vc (sp_inport (swap_ptr r)) (sp_vcid (swap_ptr r)) r \<and>
    (\<exists>h x g' b c. vc_getTopFlit (get_vc (sp_inport (swap_ptr r)) (sp_vcid (swap_ptr r)) r) = Some (h, x) \<and>
       payload g' = payload g \<and> m_vc g' = sp_vcid (swap_ptr r) \<and>
       r' = (put_vc (sp_inport (swap_ptr r)) (sp_vcid (swap_ptr r)) (vc_insertFlitAtTop g' x) r)
              \<lparr>send_routedSwap := b, is_swap := c\<rparr>)"
proof -
  let ?p = "sp_inport (swap_ptr r)" and ?v = "sp_vcid (swap_ptr r)"
  obtain h u1 r1 r2 e2 where run: "0 \<le> ?p" "?p < int (length (m_input_unit r))"
      "iu_getTopFlit (m_input_unit r ! nat ?p) ?v = Some (h, u1)" "upd_iu ?p u1 r = Some r1"
      "doSwap_enqueue free g (m_direction_iu u1) ?p ?v r1 e = Some (r2, e2)"
    and fin: "(if send_routedSwap r2 then do {
       (if m_no_is_swap (cfg (upd_stats increment_total_swaps e2)) = 0 then cassert (is_swap r2) else Some ());
       Some (r2\<lparr>send_routedSwap := False, is_swap := False\<rparr>,
             upd_stats (\<lambda>s. s\<lparr>m_total_routedSwaps := m_total_routedSwaps s + 1\<rparr>) (upd_stats increment_total_swaps e2)) }
     else Some (r2, upd_stats increment_total_swaps e2)) = Some (r', e')"
    using assms by (auto simp: finish_swap_def bind_Some Let_def vec_at_eq_Some)
  obtain x where x: "has_vc ?p ?v r" "vc_getTopFlit (get_vc ?p ?v r) = Some (h, x)" "r1 = put_vc ?p ?v x r"
    using run(1-4) by (auto simp: iu_getTop_eq_Some upd_iu_eq_Some has_vc_def get_vc_def put_vc_def)
  have port: "enqueue_port (m_direction_iu u1) ?p r1 = ?p" using run(1) by (simp add: enqueue_port_def)
  obtain g' where g': "rng_only e e2" "payload g' = payload g" "m_vc g' = ?v"
    "r2 = put_vc ?p ?v (vc_insertFlitAtTop g' x) r"
    using doSwap_enqueue_Some [OF run(5)] x(1) unfolding port by (auto simp: x(3))
  have calm2: "calm e2 e'" "m_total_swaps (stats e') = m_total_swaps (stats e2) + 1"
    using fin by (auto simp: upd_stats_def calm_def ctx_def increment_total_swaps_def bind_Some split: if_splits)
  have "r' = r2\<lparr>send_routedSwap := send_routedSwap r', is_swap := is_swap r'\<rparr>"
    using fin by (cases "send_routedSwap r2") (auto simp: bind_Some)
  then have r': "\<exists>b c. r' = r2\<lparr>send_routedSwap := b, is_swap := c\<rparr>" by blast
  have "calm e e'" "m_total_swaps (stats e') = m_total_swaps (stats e) + 1"
    using rng_only_calm [OF g'(1)] calm2 calm_trans rng_only_frame [OF g'(1)] by (blast, simp)
  moreover obtain b c where "r' = (put_vc ?p ?v (vc_insertFlitAtTop g' x) r)\<lparr>send_routedSwap := b, is_swap := c\<rparr>"
    using r' g'(4) by blast
  ultimately show ?thesis using x g' by blast
qed

text \<open>Replacing the front \<open>h\<close> of a channel by \<open>g\<close>.\<close>

lemma replace_front_packets:
  assumes "has_vc p v r" "vc_getTopFlit (get_vc p v r) = Some (h, x)" "payload g' = payload g"
  shows "image_mset packet (router_flits (put_vc p v (vc_insertFlitAtTop g' x) r)) + {#packet h#} =
    image_mset packet (router_flits r) + {#packet g#}"
proof -
  have "vc_part (put_vc p v (vc_insertFlitAtTop g' x) r) + {#h#} = vc_part r + {#g'#}"
    using vc_part_put [OF assms(1), of "vc_insertFlitAtTop g' x"] vc_getTop_flits [OF assms(2)] by simp
  then have "image_mset packet (vc_part (put_vc p v (vc_insertFlitAtTop g' x) r) + {#h#}) = image_mset packet (vc_part r + {#g'#})"
    by (rule arg_cong)
  then show ?thesis using packet_payload [OF assms(3)] by (simp add: router_flits_def)
qed

text \<open>Replacing one router by another with the same packets.\<close>

lemma net_packets_same:
  assumes "nat i < length (m_routers n)" "same_packets (m_routers n ! nat i) r"
  shows "net_packets (n\<lparr>m_routers := (m_routers n)[nat i := r]\<rparr>) = net_packets n \<and>
    net_frame n (n\<lparr>m_routers := (m_routers n)[nat i := r]\<rparr>)"
proof
  show "net_packets (n\<lparr>m_routers := (m_routers n)[nat i := r]\<rparr>) = net_packets n"
    using net_packets_router [OF assms(1), of "n\<lparr>m_routers := (m_routers n)[nat i := r]\<rparr>" r "{#}" "{#}"] assms(2)
    by (simp add: same_packets_def)
  have "map m_id_r ((m_routers n)[nat i := r]) = map m_id_r (m_routers n)"
    using assms by (intro nth_equalityI) (auto simp: nth_list_update same_packets_def)
  then show "net_frame n (n\<lparr>m_routers := (m_routers n)[nat i := r]\<rparr>)" by (simp add: net_frame_def)
qed

lemma bail_out_Some:
  assumes "bail_out i n = Some n'"
  obtains k r1 n1 k' j r2 where "clear_marks k ((m_routers n ! nat i)\<lparr>is_swap := False\<rparr>) = Some r1"
    "put_router i r1 n = Some n1" "clear_marks k' ((m_routers n1 ! nat j)\<lparr>is_swap := False\<rparr>) = Some r2"
    "put_router j r2 n1 = Some n'"
  using assms by (auto simp: bail_out_def bind_Some Let_def vec_at_eq_Some)

lemma bail_out_keeps:
  assumes "bail_out i n = Some n'"
  shows "net_packets n' = net_packets n \<and> net_frame n n'"
  using assms
proof (cases rule: bail_out_Some)
  case (1 k r1 n1 k' j r2)
  have same: "same_packets (m_routers n ! nat i) r1" "same_packets (m_routers n1 ! nat j) r2"
    using clear_marks_keeps [OF 1(1)] clear_marks_keeps [OF 1(3)] by (simp_all add: same_packets_def)
  have "net_packets n1 = net_packets n \<and> net_frame n n1"
    using 1(2) net_packets_same [OF _ same(1)] by (auto simp: put_router_eq_Some)
  moreover have "net_packets n' = net_packets n1 \<and> net_frame n1 n'"
    using 1(4) net_packets_same [OF _ same(2)] by (auto simp: put_router_eq_Some)
  ultimately show ?thesis using net_frame_trans by auto
qed

lemma upd_net_stats_keeps:
  assumes "\<And>s. m_packets_injected (g s) = m_packets_injected s \<and> m_packets_received (g s) = m_packets_received s"
  shows "net_packets (upd_net_stats g n) = net_packets n \<and> net_frame n (upd_net_stats g n)"
  using assms by (simp add: upd_net_stats_def upd_stats_def net_packets_def net_frame_def ctx_def link_flits_def)

lemma maybe_bail_out_keeps:
  assumes "maybe_bail_out i n = Some n'"
  shows "net_packets n' = net_packets n \<and> net_frame n n'"
proof -
  let ?g = "\<lambda>s. s\<lparr>m_total_bailout := m_total_bailout s + 1\<rparr> :: net_stats"
  have "n' = n \<or> (\<exists>n1. bail_out i n = Some n1 \<and> n' = upd_net_stats ?g n1)"
    using assms by (auto simp: maybe_bail_out_def bind_Some split: if_splits)
  then show ?thesis using bail_out_keeps upd_net_stats_keeps [of ?g] net_frame_trans by (auto, metis+)
qed

text \<open>The pointed flit is the front of the channel the pointer names.\<close>

lemma pointed_flit_Some:
  "pointed_flit r = Some f \<Longrightarrow> vc_getTopFlit (get_vc (sp_inport (swap_ptr r)) (sp_vcid (swap_ptr r)) r) = Some (h, x) \<Longrightarrow> h = f"
  by (auto simp: pointed_flit_def bind_Some vec_at_eq_Some iu_peek_eq_Some vc_getTop_eq_Some get_vc_def)

text \<open>The attempt, after the bail-out sequence and the flag.\<close>

lemma attempt_swap_Some:
  assumes "attempt_swap i n = Some n'"
  obtains n2 f got n3 where
    "net_packets n2 = net_packets n" "net_frame n n2" "0 \<le> i" "i < int (length (m_routers n2))"
    "pointed_flit (m_routers n2 ! nat i) = Some f" "GarnetNetwork_doSwap f i n2 = Some (got, n3)"
    "(case got of Some g \<Rightarrow> on_router i (finish_swap (free_vcs n3 i) g) n3 | None \<Rightarrow> on_router i fail_swap n3) = Some n'"
proof -
  let ?n = "upd_net_stats (\<lambda>s. s\<lparr>m_total_initiated_swaps := m_total_initiated_swaps s + 1\<rparr>) n"
  obtain n1 n2 f got n3 where run: "maybe_bail_out i ?n = Some n1" "on_router i flag_routed n1 = Some n2"
      "0 \<le> i" "i < int (length (m_routers n2))" "pointed_flit (m_routers n2 ! nat i) = Some f"
      "GarnetNetwork_doSwap f i n2 = Some (got, n3)"
      "(case got of Some g \<Rightarrow> on_router i (finish_swap (free_vcs n3 i) g) n3 | None \<Rightarrow> on_router i fail_swap n3) = Some n'"
    using assms by (auto simp: attempt_swap_def bind_Some Let_def vec_at_eq_Some)
  have "net_packets n2 = net_packets n \<and> net_frame n n2"
    using upd_net_stats_keeps [of "\<lambda>s. s\<lparr>m_total_initiated_swaps := m_total_initiated_swaps s + 1\<rparr>" n]
      maybe_bail_out_keeps [OF run(1)] flag.on_router_packets [OF run(2)] net_frame_trans by (simp, metis)
  then show thesis using that run(3-7) by blast
qed

lemma net_frame_update:
  assumes "m_nis n' = m_nis n" "m_nodes n' = m_nodes n" "calm (n_env n) (n_env n')" "nat j < length (m_routers n)"
    "m_routers n' = (m_routers n)[nat j := r]" "m_id_r r = m_id_r (m_routers n ! nat j)"
  shows "net_frame n n'"
proof -
  have "map m_id_r (m_routers n') = map m_id_r (m_routers n)"
    using assms by (intro nth_equalityI) (auto simp: nth_list_update)
  then show ?thesis using assms by (simp add: net_frame_def calm_def drift_def ctx_def)
qed

lemma exchange_packets:
  assumes "exchange mark f up down d n = Some (got, n')"
  shows "net_frame n n' \<and> (case got of None \<Rightarrow> net_packets n' = net_packets n
    | Some g \<Rightarrow> net_packets n' + {#packet g#} = net_packets n + {#packet f#})"
proof (cases got)
  case None
  then show ?thesis using exchange_Some [OF assms]
    by (simp add: net_frame_def net_packets_def calm_def drift_def ctx_def link_flits_def)
next
  case (Some g)
  let ?r = "m_routers n ! nat down"
  obtain x f' b p where x: "has_vc p (m_vc f) ?r" "vc_getTopFlit (get_vc p (m_vc f) ?r) = Some (g, x)"
      "payload f' = payload f"
      "m_routers n' = (m_routers n)[nat down := (put_vc p (m_vc f) (vc_insertFlitAtTop f' x) ?r)\<lparr>is_swap := b\<rparr>]"
    and e: "calm (n_env n) (n_env n')" "m_nis n' = m_nis n" "m_nodes n' = m_nodes n" "nat down < length (m_routers n)"
    using exchange_Some [OF assms] unfolding Some by auto
  have "net_packets n' + {#packet g#} = net_packets n + {#packet f#}"
    by (rule net_packets_router [OF e(4) x(4) e(2)])
      (use replace_front_packets [OF x(1,2,3)] e(1) in \<open>simp add: calm_def link_flits_def\<close>)
  then show ?thesis using net_frame_update [OF e(2,3,1,4) x(4)] Some by simp
qed

lemma finish_swap_packets:
  assumes "on_router i (finish_swap free g) n = Some n'" "pointed_flit (m_routers n ! nat i) = Some f"
  shows "net_frame n n' \<and> net_packets n' + {#packet f#} = net_packets n + {#packet g#}"
proof -
  let ?r = "m_routers n ! nat i"
  let ?p = "sp_inport (swap_ptr ?r)" and ?v = "sp_vcid (swap_ptr ?r)"
  obtain r' e' where s: "nat i < length (m_routers n)" "finish_swap free g ?r (n_env n) = Some (r', e')"
    "n' = n\<lparr>n_env := e', m_routers := (m_routers n)[nat i := r']\<rparr>"
    by (rule on_router_Some [OF assms(1)]) (rule that, auto)
  obtain h x g' b c where x: "calm (n_env n) e'" "has_vc ?p ?v ?r" "vc_getTopFlit (get_vc ?p ?v ?r) = Some (h, x)"
    "payload g' = payload g" "r' = (put_vc ?p ?v (vc_insertFlitAtTop g' x) ?r)\<lparr>send_routedSwap := b, is_swap := c\<rparr>"
    using finish_swap_Some [OF s(2)] by blast
  have h: "h = f" using pointed_flit_Some [OF assms(2) x(3)] .
  have "net_packets n' + {#packet f#} = net_packets n + {#packet g#}"
    by (rule net_packets_router [OF s(1), where r' = r'])
      (use s(3) x(1,5) replace_front_packets [OF x(2,3,4)] h in \<open>simp_all add: calm_def link_flits_def\<close>)
  moreover have "net_frame n n'"
    by (rule net_frame_update [where j = i and r = r']) (use s x(1,5) in simp_all)
  ultimately show ?thesis by blast
qed

lemma attempt_swap_keeps:
  assumes "attempt_swap i n = Some n'" "m_num_cols (cfg (n_env n)) \<noteq> 0"
  shows "net_packets n' = net_packets n \<and> net_frame n n'"
  using assms(1)
proof (cases rule: attempt_swap_Some)
  case (1 n2 f got n3)
  have cols: "m_num_cols (cfg (n_env n2)) \<noteq> 0" using 1(2) assms(2) by (simp add: net_frame_def ctx_def)
  have "net_packets n' = net_packets n2 \<and> net_frame n2 n'"
    using 1(6)
  proof (cases rule: GarnetNetwork_doSwap_cases)
    case none
    then show ?thesis using 1(7) fail.on_router_packets by simp
  next
    case (swap mark down d)
    note ex = exchange_packets [OF swap(3)]
    show ?thesis
    proof (cases got)
      case None
      then show ?thesis using ex 1(7) fail.on_router_packets net_frame_trans by (simp, metis)
    next
      case (Some g)
      have "m_routers n3 ! nat i = m_routers n2 ! nat i"
        using exchange_Some [OF swap(3)] downstream_not_self' [OF swap(1) cols] 1(3) unfolding Some by auto
      then have "net_frame n3 n' \<and> net_packets n' + {#packet f#} = net_packets n3 + {#packet g#}"
        using finish_swap_packets [of i _ g n3 n' f] 1(5,7) Some by simp
      moreover have "net_frame n2 n3" "net_packets n3 + {#packet g#} = net_packets n2 + {#packet f#}" using ex Some by auto
      ultimately have "net_frame n2 n'" "net_packets n' + {#packet f#} = net_packets n2 + {#packet f#}"
        using net_frame_trans by auto
      then show ?thesis by simp
    qed
  qed
  then show ?thesis using 1(1,2) net_frame_trans by metis
qed

lemma on_router_iu_wakeup:
  "on_router i (InputUnit_wakeup free p) n = Some n' \<Longrightarrow> net_packets n' = net_packets n \<and> net_frame n n'"
  using iu_wakeup.on_router_packets by blast

lemma for_each_net_keeps:
  assumes "for_each f xs n = Some n'" "\<And>x n n'. f x n = Some n' \<Longrightarrow> net_packets n' = net_packets n \<and> net_frame n n'"
  shows "net_packets n' = net_packets n \<and> net_frame n n'"
  using assms(1) by (rule for_each_inv [where P = "\<lambda>s. net_packets s = net_packets n \<and> net_frame n s"])
    (use assms(2) net_frame_trans in \<open>fastforce+\<close>)

lemma input_phase_keeps:
  assumes "input_phase i n = Some n'"
  shows "net_packets n' = net_packets n \<and> net_frame n n'"
proof -
  obtain k where "for_each (\<lambda>p n. on_router i (InputUnit_wakeup (free_vcs n i) p) n) [0..k] n = Some n'"
    using assms unfolding input_phase_def bind_Some by blast
  then show ?thesis by (rule for_each_net_keeps) (rule on_router_iu_wakeup)
qed

lemma outportNotLocal_calm:
  assumes "outportNotLocal r e = Some (b, e')"
  shows "calm e e'"
proof -
  obtain u low where run: "(if low then Some (False, e)
     else do {
       b \<leftarrow> iu_vc_isEmpty u (sp_vcid (swap_ptr r));
       if b then Some (False, upd_stats (\<lambda>s. s\<lparr>m_total_failed_upstream_empty := m_total_failed_upstream_empty s + 1\<rparr>) e)
       else do {
         t_flit \<leftarrow> iu_peekTopFlit u (sp_vcid (swap_ptr r));
         cassert (length (m_outport_dir t_flit) \<noteq> 0);
         d \<leftarrow> getOutportDirection r (m_outport t_flit);
         cassert (d = m_outport_dir t_flit);
         if m_outport_dir t_flit = ''Local''
         then Some (False, upd_stats (\<lambda>s. s\<lparr>m_total_failed_upstream_localOuport :=
                             m_total_failed_upstream_localOuport s + 1\<rparr>) e)
         else Some (True, e) } }) = Some (b, e')"
    using assms unfolding outportNotLocal_def Let_def bind_Some by (elim exE conjE) (rule that)
  have "e' = e \<or> e' = upd_stats (\<lambda>s. s\<lparr>m_total_failed_upstream_empty := m_total_failed_upstream_empty s + 1\<rparr>) e \<or>
      e' = upd_stats (\<lambda>s. s\<lparr>m_total_failed_upstream_localOuport := m_total_failed_upstream_localOuport s + 1\<rparr>) e"
    using run by (simp add: bind_Some split: if_splits) blast+
  then show ?thesis by (auto simp: upd_stats_def calm_def ctx_def)
qed

lemma net_env_calm:
  assumes "calm (n_env n) e"
  shows "net_packets (n\<lparr>n_env := e\<rparr>) = net_packets n \<and> net_frame n (n\<lparr>n_env := e\<rparr>)"
  using assms by (simp add: net_packets_def net_frame_def calm_def drift_def ctx_def link_flits_def)

lemma swap_phase_Some:
  assumes "swap_phase i n = Some n'"
  obtains (off) "n' = n"
  | (idle) "on_router i (\<lambda>r e. do { r \<leftarrow> find_swap_ptr r; Some (r, e) }) n = Some n'"
  | (turn) n1 go e n2 where "on_router i (\<lambda>r e. do { r \<leftarrow> find_swap_ptr r; Some (r, e) }) n = Some n1"
      "outportNotLocal (m_routers n1 ! nat i) (n_env n1) = Some (go, e)"
      "(if go then attempt_swap i (n1\<lparr>n_env := e\<rparr>) else Some (n1\<lparr>n_env := e\<rparr>)) = Some n2"
      "on_router i (\<lambda>r e. do { r \<leftarrow> movSwapPtr e r; Some (r, e) }) n2 = Some n'"
proof (cases "m_interswap (cfg (n_env n))")
  case False
  then show thesis using assms off by (simp add: swap_phase_def)
next
  case True
  then obtain n1 t where run: "on_router i (\<lambda>r e. do { r \<leftarrow> find_swap_ptr r; Some (r, e) }) n = Some n1"
      "vec_at (m_routers n1) i = Some (m_routers n1 ! nat i)"
    and rest: "(if t \<and> sp_valid (swap_ptr (m_routers n1 ! nat i)) then do {
          u \<leftarrow> vec_at (m_input_unit (m_routers n1 ! nat i)) (sp_inport (swap_ptr (m_routers n1 ! nat i)));
          cassert (sp_inport_dirn (swap_ptr (m_routers n1 ! nat i)) = m_direction_iu u);
          cassert (sp_inport (swap_ptr (m_routers n1 ! nat i)) \<noteq> -1 \<and> sp_vcid (swap_ptr (m_routers n1 ! nat i)) \<noteq> -1);
          (go, e) \<leftarrow> outportNotLocal (m_routers n1 ! nat i) (n_env n1);
          n2 \<leftarrow> (if go then attempt_swap i (n1\<lparr>n_env := e\<rparr>) else Some (n1\<lparr>n_env := e\<rparr>));
          on_router i (\<lambda>r e. do { r \<leftarrow> movSwapPtr e r; Some (r, e) }) n2 }
        else Some n1) = Some n'"
    using assms unfolding swap_phase_def Let_def bind_Some
    by (simp add: vec_at_eq_Some bind_Some del: bind_assoc) (elim exE conjE, rule that, auto simp: vec_at_eq_Some)
  show thesis
  proof (cases "t \<and> sp_valid (swap_ptr (m_routers n1 ! nat i))")
    case False
    then have "n1 = n'" using rest by auto
    then show thesis using run(1) idle by blast
  next
    case True
    then show thesis using rest run(1) turn [OF run(1)] by (simp add: bind_Some) blast
  qed
qed

lemma swap_phase_keeps:
  assumes "swap_phase i n = Some n'" "m_num_cols (cfg (n_env n)) \<noteq> 0"
  shows "net_packets n' = net_packets n \<and> net_frame n n'"
  using assms(1)
proof (cases rule: swap_phase_Some)
  case (turn n1 go e n2)
  have 1: "net_packets n1 = net_packets n" "net_frame n n1" using find.on_router_packets [OF turn(1)] .
  have 2: "net_packets (n1\<lparr>n_env := e\<rparr>) = net_packets n1" "net_frame n1 (n1\<lparr>n_env := e\<rparr>)"
    using net_env_calm [OF outportNotLocal_calm [OF turn(2)]] by auto
  have "m_num_cols (cfg e) \<noteq> 0" using 1(2) 2(2) assms(2) by (simp add: net_frame_def ctx_def)
  then have 3: "net_packets n2 = net_packets (n1\<lparr>n_env := e\<rparr>) \<and> net_frame (n1\<lparr>n_env := e\<rparr>) n2"
    using turn(3) attempt_swap_keeps by (cases go) auto
  show ?thesis using 1 2 3 mov.on_router_packets [OF turn(4)] net_frame_trans by metis
qed (use find.on_router_packets in auto)

text \<open>A complete cycle of a router.\<close>

lemma Router_wakeup_keeps:
  assumes "Router_wakeup i n = Some n'" "m_num_cols (cfg (n_env n)) \<noteq> 0"
  shows "net_packets n' = net_packets n \<and> net_frame n n'"
proof -
  obtain n1 n2 n3 n4 where run: "swap_phase i n = Some n1" "input_phase i n1 = Some n2" "on_router i output_phase n2 = Some n3"
      "on_router i SwitchAllocator_wakeup n3 = Some n4" "on_router i CrossbarSwitch_wakeup n4 = Some n'"
    using assms(1) unfolding Router_wakeup_def bind_Some by blast
  show ?thesis
    using swap_phase_keeps [OF run(1) assms(2)] input_phase_keeps [OF run(2)] out_phase.on_router_packets [OF run(3)]
      sa_wakeup.on_router_packets [OF run(4)] xbar_wakeup.on_router_packets [OF run(5)] net_frame_trans by metis
qed

section \<open>Links\<close>

lemma untimed_packet [simp]: "packet (untimed f) = packet f"
  by (simp add: packet_def untimed_def)

lemma NetworkLink_wakeup_packets:
  assumes "NetworkLink_wakeup q l e = Some (q', l', e')"
  shows "image_mset packet (fb_items q') + image_mset packet (fb_items (linkBuffer l')) =
         image_mset packet (fb_items q) + image_mset packet (fb_items (linkBuffer l))"
  using arg_cong [OF NetworkLink_wakeup_items [OF assms], of "image_mset packet"]
  by (simp add: image_mset.compositionality comp_def)

lemma NetworkLink_wakeup_calm: "NetworkLink_wakeup q l e = Some (q', l', e') \<Longrightarrow> calm e e'"
  by (auto simp: NetworkLink_wakeup_def bind_Some Let_def split: if_splits dest: scheduleEventAbsolute_calm)

text \<open>Replacing the contents of a queue that a link reads.\<close>

definition net_same :: "GarnetNetwork \<Rightarrow> GarnetNetwork \<Rightarrow> bool" where
  "net_same n n' \<longleftrightarrow> m_nodes n' = m_nodes n \<and> map m_id_r (m_routers n') = map m_id_r (m_routers n) \<and>
     map (\<lambda>ni. (m_id_ni ni, m_router_id ni, outNode_ptr ni)) (m_nis n') = map (\<lambda>ni. (m_id_ni ni, m_router_id ni, outNode_ptr ni)) (m_nis n)"

lemma set_flit_queue_packets:
  assumes "get_flit_queue q n = Some b" "set_flit_queue q b' n = Some n'"
  shows "net_packets n' + image_mset packet (fb_items b) = net_packets n + image_mset packet (fb_items b') \<and>
    net_same n n' \<and> n_env n' = n_env n"
proof (cases q)
  case (Q_OutputUnit i p)
  then obtain r u where r: "0 \<le> i" "i < int (length (m_routers n))" "r = m_routers n ! nat i" "0 \<le> p"
      "p < int (length (m_output_unit r))" "u = m_output_unit r ! nat p" "b = m_out_buffer u"
      "n' = n\<lparr>m_routers := (m_routers n)[nat i := r\<lparr>m_output_unit := (m_output_unit r)[nat p := u\<lparr>m_out_buffer := b'\<rparr>]\<rparr>]\<rparr>"
    using assms by (auto simp: get_flit_queue_def set_flit_queue_def bind_Some vec_at_eq_Some upd_ou_eq_Some put_router_eq_Some)
  let ?r = "r\<lparr>m_output_unit := (m_output_unit r)[nat p := u\<lparr>m_out_buffer := b'\<rparr>]\<rparr>"
  have i: "nat i < length (m_routers n)" and p: "nat p < length (m_output_unit r)" using r(1,2,4,5) by simp_all
  have "out_part ?r + fb_items b = out_part r + fb_items b'"
    using list_update_sum [OF p, of "\<lambda>u. fb_items (m_out_buffer u)" "u\<lparr>m_out_buffer := b'\<rparr>"] r(6,7)
    by (simp add: out_part_def)
  then have "router_flits ?r + fb_items b = router_flits r + fb_items b'"
    by (simp add: router_flits_def vc_part_def xbar_part_def ac_simps)
  then have "image_mset packet (router_flits ?r + fb_items b) = image_mset packet (router_flits r + fb_items b')" by (rule arg_cong)
  then have "net_packets n' + image_mset packet (fb_items b) = net_packets n + image_mset packet (fb_items b')"
    by (intro net_packets_router [OF i, where r' = ?r]) (simp_all add: r(3,8) ac_simps)
  moreover have "net_same n n'" using map_update_same [OF i, of m_id_r ?r] by (simp add: net_same_def r(3,8))
  ultimately show ?thesis using r(8) by simp
next
  case (Q_NIFlit i)
  then obtain ni where ni: "0 \<le> i" "i < int (length (m_nis n))" "ni = m_nis n ! nat i" "b = outFlitQueue ni"
      "n' = n\<lparr>m_nis := (m_nis n)[nat i := ni\<lparr>outFlitQueue := b'\<rparr>]\<rparr>"
    using assms by (auto simp: get_flit_queue_def set_flit_queue_def bind_Some vec_at_eq_Some vec_set_eq_Some)
  let ?ni = "ni\<lparr>outFlitQueue := b'\<rparr>"
  have i: "nat i < length (m_nis n)" using ni(1,2) by simp
  have "(\<Sum>x\<leftarrow>m_nis n'. ni_flits x) + ni_flits ni = (\<Sum>x\<leftarrow>m_nis n. ni_flits x) + ni_flits ?ni"
    using list_update_sum [OF i, of ni_flits ?ni] by (simp add: ni(3,5))
  moreover have "ni_flits ?ni + fb_items b = ni_flits ni + fb_items b'" by (simp add: ni_flits_def ni(4))
  ultimately have "(\<Sum>x\<leftarrow>m_nis n'. ni_flits x) + fb_items b = (\<Sum>x\<leftarrow>m_nis n. ni_flits x) + fb_items b'"
    by (rule mset_exchange)
  then have "image_mset packet ((\<Sum>x\<leftarrow>m_nis n'. ni_flits x) + fb_items b) = image_mset packet ((\<Sum>x\<leftarrow>m_nis n. ni_flits x) + fb_items b')"
    by (rule arg_cong)
  then have "net_packets n' + image_mset packet (fb_items b) = net_packets n + image_mset packet (fb_items b')"
    by (simp add: net_packets_def ni(5) ac_simps)
  moreover have "net_same n n'"
    using map_update_same [OF i, of "\<lambda>ni. (m_id_ni ni, m_router_id ni, outNode_ptr ni)" ?ni] by (simp add: net_same_def ni(3,5))
  ultimately show ?thesis using ni(5) by simp
qed (use assms in \<open>simp_all add: get_flit_queue_def\<close>)

lemma netlink_wakeup_keeps:
  assumes "netlink_wakeup j n = Some n'"
  shows "net_packets n' = net_packets n \<and> net_same n n' \<and> ctx (n_env n') = ctx (n_env n)"
proof -
  obtain l q b b' l' e ls where run: "vec_at (m_networklinks (n_env n)) j = Some l" "get_flit_queue q n = Some b"
      "NetworkLink_wakeup b l (n_env n) = Some (b', l', e)" "vec_set (m_networklinks e) j l' = Some ls"
      "set_flit_queue q b' (n\<lparr>n_env := e\<lparr>m_networklinks := ls\<rparr>\<rparr>) = Some n'"
    using assms unfolding netlink_wakeup_def bind_Some split_paired_Ex prod.case by blast
  let ?n = "n\<lparr>n_env := e\<lparr>m_networklinks := ls\<rparr>\<rparr>"
  note c = calm_frame [OF NetworkLink_wakeup_calm [OF run(3)]]
  have j: "nat j < length (m_networklinks (n_env n))" "l = m_networklinks (n_env n) ! nat j" "ls = (m_networklinks (n_env n))[nat j := l']"
    using run(1,4) c(4) by (auto simp: vec_at_eq_Some vec_set_eq_Some)
  have "get_flit_queue q ?n = Some b" using run(2) by (simp add: get_flit_queue_def split: queue_ref.splits)
  note s = set_flit_queue_packets [OF this run(5)]
  have "link_flits (n_env ?n) + fb_items (linkBuffer l) = link_flits (n_env n) + fb_items (linkBuffer l')"
    using list_update_sum [OF j(1), of "\<lambda>l. fb_items (linkBuffer l)" l'] by (simp add: link_flits_def j(2,3))
  then have "image_mset packet (link_flits (n_env ?n) + fb_items (linkBuffer l)) = image_mset packet (link_flits (n_env n) + fb_items (linkBuffer l'))"
    by (rule arg_cong)
  then have "net_packets ?n + image_mset packet (fb_items (linkBuffer l)) = net_packets n + image_mset packet (fb_items (linkBuffer l'))"
    by (simp add: net_packets_def ac_simps)
  moreover have "net_packets n' + image_mset packet (fb_items b) = net_packets ?n + image_mset packet (fb_items b')" using s by blast
  ultimately have "net_packets n' + (image_mset packet (fb_items b) + image_mset packet (fb_items (linkBuffer l))) =
      net_packets n + (image_mset packet (fb_items b') + image_mset packet (fb_items (linkBuffer l')))"
    by (metis (no_types, lifting) add.assoc add.commute)
  then have "net_packets n' = net_packets n" using NetworkLink_wakeup_packets [OF run(3)] by simp
  moreover have "net_same n n'" using s by (simp add: net_same_def)
  moreover have "ctx (n_env n') = ctx (n_env n)" using s c(3) by simp
  ultimately show ?thesis by blast
qed

lemma set_credit_queue_packets:
  assumes "set_credit_queue q b n = Some n'"
  shows "net_packets n' = net_packets n \<and> net_same n n' \<and> n_env n' = n_env n"
proof (cases q)
  case (Q_InputCredit i p)
  then obtain r u where r: "0 \<le> i" "i < int (length (m_routers n))" "r = m_routers n ! nat i" "0 \<le> p"
      "p < int (length (m_input_unit r))" "u = m_input_unit r ! nat p"
      "n' = n\<lparr>m_routers := (m_routers n)[nat i := r\<lparr>m_input_unit := (m_input_unit r)[nat p := u\<lparr>creditQueue := b\<rparr>]\<rparr>]\<rparr>"
    using assms by (auto simp: set_credit_queue_def bind_Some vec_at_eq_Some upd_iu_eq_Some put_router_eq_Some)
  let ?r = "r\<lparr>m_input_unit := (m_input_unit r)[nat p := u\<lparr>creditQueue := b\<rparr>]\<rparr>"
  have i: "nat i < length (m_routers n)" and p: "nat p < length (m_input_unit r)" using r(1,2,4,5) by simp_all
  have "vc_part ?r = vc_part r"
    using list_update_sum_same [OF p, of iu_flits "u\<lparr>creditQueue := b\<rparr>"] r(6) by (simp add: vc_part_def iu_flits_def)
  then have "router_flits ?r = router_flits r" by (simp add: router_flits_def out_part_def xbar_part_def)
  then have "net_packets n' + {#} = net_packets n + {#}"
    by (intro net_packets_router [OF i, where r' = ?r]) (simp_all add: r(3,7))
  moreover have "net_same n n'" using map_update_same [OF i, of m_id_r ?r] by (simp add: net_same_def r(3,7))
  ultimately show ?thesis using r(7) by simp
next
  case (Q_NICredit i)
  then obtain ni where ni: "0 \<le> i" "i < int (length (m_nis n))" "ni = m_nis n ! nat i"
      "n' = n\<lparr>m_nis := (m_nis n)[nat i := ni\<lparr>outCreditQueue := b\<rparr>]\<rparr>"
    using assms by (auto simp: set_credit_queue_def bind_Some vec_at_eq_Some vec_set_eq_Some)
  have i: "nat i < length (m_nis n)" using ni(1,2) by simp
  have "net_packets n' = net_packets n"
    using list_update_sum_same [OF i, of ni_flits "ni\<lparr>outCreditQueue := b\<rparr>"] by (simp add: net_packets_def ni(3,4) ni_flits_def)
  moreover have "net_same n n'"
    using map_update_same [OF i, of "\<lambda>ni. (m_id_ni ni, m_router_id ni, outNode_ptr ni)" "ni\<lparr>outCreditQueue := b\<rparr>"]
    by (simp add: net_same_def ni(3,4))
  ultimately show ?thesis using ni(4) by simp
qed (use assms in \<open>simp_all add: set_credit_queue_def\<close>)

lemma creditlink_wakeup_keeps:
  assumes "creditlink_wakeup j n = Some n'"
  shows "net_packets n' = net_packets n \<and> net_same n n' \<and> ctx (n_env n') = ctx (n_env n)"
proof -
  obtain l q b b' l' e ls where run: "NetworkLink_wakeup b l (n_env n) = Some (b', l', e)"
      "set_credit_queue q b' (n\<lparr>n_env := e\<lparr>m_creditlinks := ls\<rparr>\<rparr>) = Some n'"
    using assms unfolding creditlink_wakeup_def bind_Some split_paired_Ex prod.case by blast
  note c = calm_frame [OF NetworkLink_wakeup_calm [OF run(1)]]
  have "net_packets (n\<lparr>n_env := e\<lparr>m_creditlinks := ls\<rparr>\<rparr>) = net_packets n" by (simp add: net_packets_def link_flits_def c(4))
  then show ?thesis using set_credit_queue_packets [OF run(2)] c(3) by (simp add: net_same_def)
qed

end
