(* ===== verification/Swap_Exchange.thy ===== *)
theory Swap_Exchange
  imports Packet_Conservation
begin

text \<open>
  What a swap does to the virtual channels of the network. \<open>channel\<close> is the contents of one input
  virtual channel, seen as packets, the front first. Shown: an attempted swap either leaves every channel of
  the network alone, or exchanges the packet at the swap pointer with the front packet of the
  channel it would enter downstream and leaves every other channel alone; the swap counter tells which.
\<close>

definition vc_packets :: "VirtualChannel \<Rightarrow> flit list" where
  "vc_packets x = map packet (m_buffer (m_input_buffer x))"

definition channel :: "GarnetNetwork \<Rightarrow> int \<Rightarrow> int \<Rightarrow> int \<Rightarrow> flit list" where
  "channel n j q w = vc_packets (get_vc q w (m_routers n ! nat j))"

definition is_channel :: "GarnetNetwork \<Rightarrow> int \<Rightarrow> int \<Rightarrow> int \<Rightarrow> bool" where
  "is_channel n j q w \<longleftrightarrow> 0 \<le> j \<and> j < int (length (m_routers n)) \<and> has_vc q w (m_routers n ! nat j)"

text \<open>Changes of a router that its channels do not show.\<close>

definition same_channels :: "Router \<Rightarrow> Router \<Rightarrow> bool" where
  "same_channels r r' \<longleftrightarrow> swap_ptr r' = swap_ptr r \<and> m_routing_unit r' = m_routing_unit r \<and>
     (\<forall>q w. has_vc q w r' = has_vc q w r) \<and>
     (\<forall>q w. has_vc q w r \<longrightarrow> vc_packets (get_vc q w r') = vc_packets (get_vc q w r))"

lemma same_channels_refl [simp]: "same_channels r r"
  by (simp add: same_channels_def)

lemma same_channels_trans: "same_channels r r' \<Longrightarrow> same_channels r' r'' \<Longrightarrow> same_channels r r''"
  by (simp add: same_channels_def)

lemma get_vc_other:
  assumes "has_vc p v r" "has_vc q w r" "(q, w) \<noteq> (p, v)"
  shows "get_vc q w (put_vc p v x r) = get_vc q w r"
proof (cases "q = p")
  case True
  then have "nat w \<noteq> nat v" using assms by (auto simp: has_vc_def nat_eq_iff)
  then show ?thesis using assms True by (auto simp: get_vc_def put_vc_def has_vc_def)
next
  case False
  then have "nat q \<noteq> nat p" using assms by (auto simp: has_vc_def nat_eq_iff)
  then show ?thesis by (simp add: get_vc_def put_vc_def)
qed

lemma put_vc_fields [simp]:
  "swap_ptr (put_vc p v x r) = swap_ptr r" "m_routing_unit (put_vc p v x r) = m_routing_unit r"
  by (simp_all add: put_vc_def)

lemma same_channels_put:
  assumes "has_vc p v r" "vc_packets x = vc_packets (get_vc p v r)"
  shows "same_channels r (put_vc p v x r)"
proof -
  have "vc_packets (get_vc q w (put_vc p v x r)) = vc_packets (get_vc q w r)"
    if "has_vc q w r" for q w
    using get_vc_other [OF assms(1) that] assms by (cases "(q, w) = (p, v)") auto
  then show ?thesis by (simp add: same_channels_def)
qed

section \<open>The steps before the exchange\<close>

lemma vc_updTop_vc_packets:
  assumes "vc_updTopFlit g v = Some v'" "\<And>f. packet (g f) = packet f"
  shows "vc_packets v' = vc_packets v"
  using assms by (cases "m_buffer (m_input_buffer v)") (auto simp: vc_updTop_eq_Some vc_packets_def vc_isEmpty_iff)

lemma clear_mark_channels: "clear_mark i v r = Some r' \<Longrightarrow> same_channels r r'"
proof (erule clear_mark_cases)
  fix x
  assume x: "has_vc i v r" "vc_updTopFlit unset_RoutedSwap (get_vc i v r) = Some x" "r' = put_vc i v x r"
  show "same_channels r r'" unfolding x(3) by (rule same_channels_put [OF x(1) vc_updTop_vc_packets [OF x(2)]]) simp
qed simp

lemma for_each_same_channels:
  assumes "for_each f xs r = Some r'" "\<And>x r r'. f x r = Some r' \<Longrightarrow> same_channels r r'"
  shows "same_channels r r'"
  using assms(1) by (rule for_each_inv [where P = "same_channels r"]) (use assms(2) same_channels_trans in \<open>simp, blast\<close>)

lemma clear_marks_channels: "clear_marks k r = Some r' \<Longrightarrow> same_channels r r'"
  unfolding clear_marks_def by (erule for_each_same_channels, erule for_each_same_channels, erule clear_mark_channels)

definition net_channels :: "GarnetNetwork \<Rightarrow> GarnetNetwork \<Rightarrow> bool" where
  "net_channels n n' \<longleftrightarrow> cfg (n_env n') = cfg (n_env n) \<and>
     m_total_swaps (stats (n_env n')) = m_total_swaps (stats (n_env n)) \<and> length (m_routers n') = length (m_routers n) \<and>
     (\<forall>j < length (m_routers n). same_channels (m_routers n ! j) (m_routers n' ! j))"

lemma net_channels_refl [simp]: "net_channels n n"
  by (simp add: net_channels_def)

lemma net_channels_trans: "net_channels n n' \<Longrightarrow> net_channels n' n'' \<Longrightarrow> net_channels n n''"
  unfolding net_channels_def using same_channels_trans by metis

lemma net_channels_router:
  assumes "nat i < length (m_routers n)" "same_channels (m_routers n ! nat i) r" "m_routers n' = (m_routers n)[nat i := r]"
    "cfg (n_env n') = cfg (n_env n)" "m_total_swaps (stats (n_env n')) = m_total_swaps (stats (n_env n))"
  shows "net_channels n n'"
  using assms by (auto simp: net_channels_def nth_list_update)

lemma bail_out_channels:
  assumes "bail_out i n = Some n'"
  shows "net_channels n n'"
  using assms
proof (cases rule: bail_out_Some)
  case (1 k r1 n1 k' j r2)
  have "same_channels r (r\<lparr>is_swap := b\<rparr>)" for r b by (simp add: same_channels_def)
  then have same: "same_channels (m_routers n ! nat i) r1" "same_channels (m_routers n1 ! nat j) r2"
    using clear_marks_channels [OF 1(1)] clear_marks_channels [OF 1(3)] same_channels_trans by blast+
  have "net_channels n n1" using 1(2) by (intro net_channels_router [OF _ same(1)]) (auto simp: put_router_eq_Some)
  moreover have "net_channels n1 n'" using 1(4) by (intro net_channels_router [OF _ same(2)]) (auto simp: put_router_eq_Some)
  ultimately show ?thesis by (rule net_channels_trans)
qed

lemma maybe_bail_out_channels:
  assumes "maybe_bail_out i n = Some n'"
  shows "net_channels n n'"
proof -
  let ?g = "\<lambda>s. s\<lparr>m_total_bailout := m_total_bailout s + 1\<rparr> :: net_stats"
  have "n' = n \<or> (\<exists>n1. bail_out i n = Some n1 \<and> n' = upd_net_stats ?g n1)"
    using assms by (auto simp: maybe_bail_out_def bind_Some split: if_splits)
  moreover have "net_channels n1 (upd_net_stats ?g n1)" for n1 by (simp add: net_channels_def upd_net_stats_def upd_stats_def)
  ultimately show ?thesis using bail_out_channels net_channels_trans by (metis net_channels_refl)
qed

text \<open>Methods of a router that leave its channels alone.\<close>

lemma on_router_channels:
  assumes "on_router i m n = Some n'"
    "\<And>r e r' e'. m r e = Some (r', e') \<Longrightarrow> same_channels r r' \<and> cfg e' = cfg e \<and> m_total_swaps (stats e') = m_total_swaps (stats e)"
  shows "net_channels n n'"
  using assms(1)
proof (rule on_router_Some)
  fix r' e'
  assume "0 \<le> i" "i < int (length (m_routers n))" and m: "m (m_routers n ! nat i) (n_env n) = Some (r', e')"
    and n': "n' = n\<lparr>n_env := e', m_routers := (m_routers n)[nat i := r']\<rparr>"
  then have i: "nat i < length (m_routers n)" by simp
  have "same_channels (m_routers n ! nat i) r'" "cfg e' = cfg (n_env n)" "m_total_swaps (stats e') = m_total_swaps (stats (n_env n))"
    using assms(2) [OF m] by auto
  then show "net_channels n n'" using n' by (intro net_channels_router [OF i]) simp_all
qed

lemma flag_routed_channels: "on_router i flag_routed n = Some n' \<Longrightarrow> net_channels n n'"
  by (erule on_router_channels) (auto dest!: flag_routed_Some simp: same_channels_def)

lemma fail_swap_channels: "on_router i fail_swap n = Some n' \<Longrightarrow> net_channels n n'"
  by (erule on_router_channels)
    (auto simp: fail_swap_def bind_Some upd_stats_def same_channels_def split: if_splits)

lemma attempt_swap_prefix:
  assumes "attempt_swap i n = Some n'"
  obtains n2 f got n3 where "net_channels n n2" "0 \<le> i" "i < int (length (m_routers n2))"
    "pointed_flit (m_routers n2 ! nat i) = Some f" "GarnetNetwork_doSwap f i n2 = Some (got, n3)"
    "(case got of Some g \<Rightarrow> on_router i (finish_swap (free_vcs n3 i) g) n3 | None \<Rightarrow> on_router i fail_swap n3) = Some n'"
proof -
  let ?n = "upd_net_stats (\<lambda>s. s\<lparr>m_total_initiated_swaps := m_total_initiated_swaps s + 1\<rparr>) n"
  obtain n1 n2 f got n3 where run: "maybe_bail_out i ?n = Some n1" "on_router i flag_routed n1 = Some n2"
      "0 \<le> i" "i < int (length (m_routers n2))" "pointed_flit (m_routers n2 ! nat i) = Some f"
      "GarnetNetwork_doSwap f i n2 = Some (got, n3)"
      "(case got of Some g \<Rightarrow> on_router i (finish_swap (free_vcs n3 i) g) n3 | None \<Rightarrow> on_router i fail_swap n3) = Some n'"
    using assms by (auto simp: attempt_swap_def bind_Some Let_def vec_at_eq_Some)
  have "net_channels n ?n" by (simp add: net_channels_def upd_net_stats_def upd_stats_def)
  then have "net_channels n n2"
    using maybe_bail_out_channels [OF run(1)] flag_routed_channels [OF run(2)] net_channels_trans by blast
  then show thesis using that run(3-7) by blast
qed

section \<open>The exchange\<close>

text \<open>A channel \<open>c\<close> with front \<open>h\<close> becomes \<open>c'\<close> with \<open>g\<close> in its place.\<close>

definition front_replaced :: "flit \<Rightarrow> flit \<Rightarrow> flit list \<Rightarrow> flit list \<Rightarrow> bool" where
  "front_replaced h g c c' \<longleftrightarrow> c \<noteq> [] \<and> hd c = packet h \<and> c' \<noteq> [] \<and> hd c' = packet g \<and> mset (tl c') = mset (tl c)"

lemma swap_front:
  assumes "vc_getTopFlit y = Some (h, x)" "payload g' = payload g"
  shows "front_replaced h g (vc_packets y) (vc_packets (vc_insertFlitAtTop g' x))"
  using assms packet_payload [OF assms(2)]
  by (cases "m_buffer (m_input_buffer y)")
    (auto simp: vc_getTop_eq_Some vc_packets_def vc_insertFlitAtTop_def fb_insertAtTop_def front_replaced_def vc_isEmpty_iff
      mset_pop_heap image_mset_Diff)

text \<open>The front of one channel of router \<open>j\<close> is replaced.\<close>

definition router_replaced :: "int \<Rightarrow> int \<Rightarrow> int \<Rightarrow> flit \<Rightarrow> flit \<Rightarrow> GarnetNetwork \<Rightarrow> GarnetNetwork \<Rightarrow> bool" where
  "router_replaced j p v h g n n' \<longleftrightarrow> is_channel n j p v \<and> length (m_routers n') = length (m_routers n) \<and>
     front_replaced h g (channel n j p v) (channel n' j p v) \<and>
     (\<forall>k q w. is_channel n k q w \<longrightarrow> is_channel n' k q w) \<and>
     (\<forall>k q w. is_channel n k q w \<longrightarrow> (k, q, w) \<noteq> (j, p, v) \<longrightarrow> channel n' k q w = channel n k q w)"

lemma router_replaced_put:
  assumes j: "0 \<le> j" "nat j < length (m_routers n)" and vc: "has_vc p v (m_routers n ! nat j)"
    and top: "vc_getTopFlit (get_vc p v (m_routers n ! nat j)) = Some (h, x)" "payload g' = payload g"
    and n': "m_routers n' = (m_routers n)[nat j := r']" "\<And>q w. has_vc q w r' = has_vc q w (m_routers n ! nat j)"
      "\<And>q w. get_vc q w r' = get_vc q w (put_vc p v (vc_insertFlitAtTop g' x) (m_routers n ! nat j))"
  shows "router_replaced j p v h g n n'"
proof -
  have other: "m_routers n' ! nat k = m_routers n ! nat k" if "0 \<le> k" "k \<noteq> j" for k
    using that j n'(1) by (simp add: nth_list_update nat_eq_iff)
  have "front_replaced h g (channel n j p v) (channel n' j p v)"
    using swap_front [OF top] vc j n' by (simp add: channel_def)
  moreover have "is_channel n' k q w" if "is_channel n k q w" for k q w
    using that other [of k] n' j by (cases "k = j") (auto simp: is_channel_def)
  moreover have "channel n' k q w = channel n k q w" if "is_channel n k q w" "(k, q, w) \<noteq> (j, p, v)" for k q w
  proof (cases "k = j")
    case True
    then show ?thesis using that j n' get_vc_other [OF vc, of q w] by (auto simp: channel_def is_channel_def)
  next
    case False
    then show ?thesis using that other [of k] by (simp add: channel_def is_channel_def)
  qed
  ultimately show ?thesis using j vc n'(1) by (simp add: router_replaced_def is_channel_def)
qed

lemma net_channels_channel:
  assumes "net_channels n n'" "is_channel n k q w"
  shows "is_channel n' k q w \<and> channel n' k q w = channel n k q w"
proof -
  have "nat k < length (m_routers n)" using assms(2) by (auto simp: is_channel_def)
  then have "same_channels (m_routers n ! nat k) (m_routers n' ! nat k)" "length (m_routers n') = length (m_routers n)"
    using assms(1) by (simp_all add: net_channels_def)
  then show ?thesis using assms(2) by (simp add: same_channels_def is_channel_def channel_def)
qed

lemma exchange_vcid: "exchange mark f up down d n = Some (got, n') \<Longrightarrow> sp_vcid (swap_ptr (m_routers n ! nat up)) = m_vc f"
  by (auto simp: exchange_def bind_Some Let_def vec_at_eq_Some)

lemma exchange_replaced:
  assumes "exchange mark f up down d n = Some (Some g, n')"
  shows "m_outport_dir g \<noteq> ''Local'' \<and>
    router_replaced down (map_at 0 (m_inports_dirn2idx (m_routing_unit (m_routers n ! nat down))) d) (m_vc f) g f n n'"
proof -
  let ?r = "m_routers n ! nat down"
  obtain x f' b p where x: "has_vc p (m_vc f) ?r" "p = map_at 0 (m_inports_dirn2idx (m_routing_unit ?r)) d"
      "m_outport_dir g \<noteq> ''Local''" "vc_getTopFlit (get_vc p (m_vc f) ?r) = Some (g, x)" "payload f' = payload f"
      "m_routers n' = (m_routers n)[nat down := (put_vc p (m_vc f) (vc_insertFlitAtTop f' x) ?r)\<lparr>is_swap := b\<rparr>]"
    and d: "0 \<le> down" "nat down < length (m_routers n)"
    using exchange_Some [OF assms] by auto
  have "router_replaced down p (m_vc f) g f n n'" by (rule router_replaced_put [OF d x(1,4,5,6)]) simp_all
  then show ?thesis using x(2,3) by simp
qed

lemma finish_swap_replaced:
  assumes "on_router i (finish_swap free g) n = Some n'" "pointed_flit (m_routers n ! nat i) = Some f"
  shows "router_replaced i (sp_inport (swap_ptr (m_routers n ! nat i))) (sp_vcid (swap_ptr (m_routers n ! nat i))) f g n n' \<and>
    m_total_swaps (stats (n_env n')) = m_total_swaps (stats (n_env n)) + 1"
proof -
  let ?r = "m_routers n ! nat i"
  let ?p = "sp_inport (swap_ptr ?r)" and ?v = "sp_vcid (swap_ptr ?r)"
  obtain r' e' where s: "0 \<le> i" "nat i < length (m_routers n)" "finish_swap free g ?r (n_env n) = Some (r', e')"
    "n' = n\<lparr>n_env := e', m_routers := (m_routers n)[nat i := r']\<rparr>"
    by (rule on_router_Some [OF assms(1)]) (rule that, auto)
  obtain h x g' b c where x: "m_total_swaps (stats e') = m_total_swaps (stats (n_env n)) + 1" "has_vc ?p ?v ?r"
    "vc_getTopFlit (get_vc ?p ?v ?r) = Some (h, x)" "payload g' = payload g"
    "r' = (put_vc ?p ?v (vc_insertFlitAtTop g' x) ?r)\<lparr>send_routedSwap := b, is_swap := c\<rparr>"
    using finish_swap_Some [OF s(3)] by blast
  have h: "h = f" using pointed_flit_Some [OF assms(2) x(3)] .
  have "router_replaced i ?p ?v h g n n'" by (rule router_replaced_put [OF s(1,2) x(2,3,4), where r' = r']) (simp_all add: s(4) x(5))
  then show ?thesis using h x(1) s(4) by simp
qed

text \<open>
  The two routers of a swap: the front \<open>f\<close> of channel \<open>(i, p, v)\<close> and the front \<open>g\<close> of channel
  \<open>(k, p', v)\<close> change places.
\<close>

definition swapped ::
    "int \<Rightarrow> int \<Rightarrow> int \<Rightarrow> int \<Rightarrow> int \<Rightarrow> flit \<Rightarrow> flit \<Rightarrow> GarnetNetwork \<Rightarrow> GarnetNetwork \<Rightarrow> bool" where
  "swapped i p k p' v f g n n' \<longleftrightarrow> i \<noteq> k \<and> is_channel n i p v \<and> is_channel n k p' v \<and>
     front_replaced f g (channel n i p v) (channel n' i p v) \<and>
     front_replaced g f (channel n k p' v) (channel n' k p' v) \<and>
     (\<forall>j q w. is_channel n j q w \<longrightarrow> (j, q, w) \<noteq> (i, p, v) \<longrightarrow> (j, q, w) \<noteq> (k, p', v) \<longrightarrow>
        channel n' j q w = channel n j q w)"

lemma swapped_compose:
  assumes "net_channels n n2" "router_replaced k p' v g f n2 n3" "router_replaced i p v f g n3 n'" "i \<noteq> k"
    "is_channel n i p v" "is_channel n k p' v"
  shows "swapped i p k p' v f g n n'"
proof -
  note same = net_channels_channel [OF assms(1)]
  have 2: "channel n3 i p v = channel n2 i p v" "channel n' k p' v = channel n3 k p' v"
    using assms(2-6) same by (auto simp: router_replaced_def)
  have "channel n' j q w = channel n j q w" if "is_channel n j q w" "(j, q, w) \<noteq> (i, p, v)" "(j, q, w) \<noteq> (k, p', v)" for j q w
    using same [OF that(1)] that(2,3) assms(2,3) by (metis router_replaced_def)
  then show ?thesis using same [OF assms(5)] same [OF assms(6)] 2 assms(2-6) by (simp add: swapped_def router_replaced_def)
qed

lemma is_channel_back:
  assumes "net_channels n n2" "is_channel n2 j q w"
  shows "is_channel n j q w"
  using assms by (auto simp: net_channels_def is_channel_def same_channels_def)

lemma attempt_swap_outcome:
  assumes "attempt_swap i n = Some n'" "m_num_cols (cfg (n_env n)) \<noteq> 0"
  shows "(m_total_swaps (stats (n_env n')) = m_total_swaps (stats (n_env n)) \<and>
      (\<forall>j q w. is_channel n j q w \<longrightarrow> channel n' j q w = channel n j q w)) \<or>
    (m_total_swaps (stats (n_env n')) = m_total_swaps (stats (n_env n)) + 1 \<and>
      (\<exists>f g k d. get_downstreamId (cfg (n_env n)) (m_outport_dir f) i = Some k \<and>
        get_downstreamDirn (m_outport_dir f) = Some d \<and> m_outport_dir g \<noteq> ''Local'' \<and>
        swapped i (sp_inport (swap_ptr (m_routers n ! nat i)))
          k (map_at 0 (m_inports_dirn2idx (m_routing_unit (m_routers n ! nat k))) d)
          (sp_vcid (swap_ptr (m_routers n ! nat i))) f g n n'))"
  using assms(1)
proof (cases rule: attempt_swap_prefix)
  case (1 n2 f got n3)
  have env: "cfg (n_env n2) = cfg (n_env n)" "m_total_swaps (stats (n_env n2)) = m_total_swaps (stats (n_env n))"
    using 1(1) by (simp_all add: net_channels_def)
  have i: "nat i < length (m_routers n)" using 1(1,2,3) by (simp add: net_channels_def)
  have unchanged: ?thesis if "net_channels n2 n'"
    using net_channels_channel [OF net_channels_trans [OF 1(1) that]] net_channels_trans [OF 1(1) that]
    by (simp add: net_channels_def)
  show ?thesis using 1(5)
  proof (cases rule: GarnetNetwork_doSwap_cases)
    case none
    then show ?thesis using 1(6) fail_swap_channels unchanged by simp
  next
    case (swap mark k d)
    note ex = exchange_Some [OF swap(3)]
    show ?thesis
    proof (cases got)
      case None
      have 3: "net_channels n2 n3" using ex None by (simp add: net_channels_def calm_def ctx_def)
      have "on_router i fail_swap n3 = Some n'" using 1(6) None by simp
      then show ?thesis by (intro unchanged net_channels_trans [OF 3 fail_swap_channels])
    next
      case (Some g)
      let ?r = "m_routers n ! nat i" and ?d = "map_at 0 (m_inports_dirn2idx (m_routing_unit (m_routers n ! nat k))) d"
      have ik: "k \<noteq> i" using downstream_not_self' [OF swap(1)] assms(2) env by simp
      have k: "nat k < length (m_routers n)" using ex 1(1) by (auto simp: net_channels_def)
      have r: "swap_ptr (m_routers n2 ! nat i) = swap_ptr ?r"
        "m_routing_unit (m_routers n2 ! nat k) = m_routing_unit (m_routers n ! nat k)"
        using 1(1) i k by (simp_all add: net_channels_def same_channels_def)
      have v: "m_vc f = sp_vcid (swap_ptr ?r)" using exchange_vcid [OF swap(3)] r(1) by simp
      have e: "m_outport_dir g \<noteq> ''Local''" "router_replaced k ?d (sp_vcid (swap_ptr ?r)) g f n2 n3"
        using exchange_replaced [of mark f i k d n2 g n3] swap(3) Some r(2) v by simp_all
      have ri: "m_routers n3 ! nat i = m_routers n2 ! nat i" using ex ik 1(2) unfolding Some by auto
      have fin: "router_replaced i (sp_inport (swap_ptr ?r)) (sp_vcid (swap_ptr ?r)) f g n3 n'"
        "m_total_swaps (stats (n_env n')) = m_total_swaps (stats (n_env n3)) + 1"
        using finish_swap_replaced [of i "free_vcs n3 i" g n3 n' f] 1(4,6) ri r(1) by (simp_all add: Some)
      have chan: "is_channel n i (sp_inport (swap_ptr ?r)) (sp_vcid (swap_ptr ?r))" "is_channel n k ?d (sp_vcid (swap_ptr ?r))"
        using e(2) fin(1) is_channel_back [OF 1(1)] ri ex by (auto simp: router_replaced_def is_channel_def)
      have "swapped i (sp_inport (swap_ptr ?r)) k ?d (sp_vcid (swap_ptr ?r)) f g n n'"
        by (rule swapped_compose [OF 1(1) e(2) fin(1) _ chan]) (use ik in simp)
      moreover have "m_total_swaps (stats (n_env n')) = m_total_swaps (stats (n_env n)) + 1" using fin(2) ex env by simp
      ultimately show ?thesis using swap(1,2) e(1) env by auto
    qed
  qed
qed

section \<open>Properties\<close>

text \<open>
  Two neighbours in a row of four routers, each with a packet for the other's side in its West
  input channel: the packet of router 1 goes east, the one of router 2 goes west.
\<close>

definition row_unit :: RoutingUnit where
  "row_unit = addOutDirection ''West'' 1 (addOutDirection ''East'' 0 (addInDirection ''West'' 0 RoutingUnit_new))"

definition row_flit :: "int \<Rightarrow> PortDirection \<Rightarrow> flit" where
  "row_flit dest d = (sample_flit 0 3 0)\<lparr>m_outport_dir := d, m_route := route_uninit\<lparr>dest_router := dest\<rparr>\<rparr>"

definition row_out :: "int \<Rightarrow> PortDirection \<Rightarrow> OutputUnit" where
  "row_out i d = \<lparr>m_id_ou = i, m_direction_ou = d, m_num_vcs_ou = 1, m_vc_per_vnet_ou = 1, m_out_link = 1 + i,
     m_credit_link_ou = 1 + i, m_out_buffer = flitBuffer_new,
     m_outvc_state = [\<lparr>m_id_ovs = 0, m_time_ovs = 0, m_vc_state_ovs = ACTIVE, m_credit_count = 0, m_max_credit_count = 1\<rparr>]\<rparr>"

definition row_router :: "int \<Rightarrow> flit \<Rightarrow> Router" where
  "row_router i f = Router_init ((Router_new i 1 1 1)\<lparr>m_routing_unit := row_unit,
     m_input_unit := [\<lparr>m_id_iu = 0, m_direction_iu = ''West'', m_num_vcs_iu = 1, m_vc_per_vnet_iu = 1, m_in_link = 0,
       m_credit_link_iu = 0, creditQueue = flitBuffer_new,
       m_vcs = [vc_insertFlit f (set_active 3 (VirtualChannel_new 0))], m_num_buffer_writes = [0], m_num_buffer_reads = [0]\<rparr>],
     m_output_unit := [row_out 0 ''East'', row_out 1 ''West''],
     swap_ptr := \<lparr>sp_valid = True, sp_inport = 0, sp_vcid = 0, sp_vnet_id = 0, sp_inport_dirn = ''West''\<rparr>\<rparr>)"

definition row_net :: GarnetNetwork where
  "row_net = \<lparr>n_env = (sample_env 5)\<lparr>cfg := sample_cfg\<lparr>m_num_rows := 1, m_num_cols := 4\<rparr>,
       m_networklinks := replicate 3 (NetworkLink_new 0 1 1 1), m_creditlinks := replicate 3 (NetworkLink_new 0 1 1 1)\<rparr>,
     m_routers = [Router_new 0 1 1 1, row_router 1 (row_flit 3 ''East''), row_router 2 (row_flit 0 ''West''), Router_new 3 1 1 1],
     m_nis = [], m_nodes = 0\<rparr>"

lemmas row_defs = row_net_def row_router_def row_flit_def row_unit_def row_out_def addOutDirection_def addInDirection_def
  RoutingUnit_new_def Router_new_def Router_init_def sa_init_def xbar_init_def get_num_inports_def SwitchAllocator_new_def
  CrossbarSwitch_new_def VirtualChannel_new_def set_active_def vc_insertFlit_def sample_flit_def NetworkLink_new_def
  flit_uninit_def route_uninit_def sample_env_def sample_cfg_def net_stats_init_def flitBuffer_new_def fb_insert_def

lemmas attempt_swap_defs = attempt_swap_def maybe_bail_out_def chk_deadlck_symptm_def on_router_def put_router_def
  flag_routed_def pointed_flit_def iu_peekTopFlit_def iu_vc_def vc_peekTopFlit_def fb_peekTopFlit_def fb_isEmpty_def
  GarnetNetwork_doSwap_def get_downstreamId_def get_downstreamDirn_def exchange_def Router_doSwap_def offer_flit_def
  iu_vc_isEmpty_def vc_isEmpty_def iu_getTopFlit_def vc_getTopFlit_def fb_getTopFlit_def upd_iu_def doSwap_enqueue_def
  route_compute_def outportCompute_def outportComputeXY_def XY_dirn_def mesh_vector_def outport_of_def enqueue_inport_def
  enqueue_flit_def iu_upd_vc_def vc_insertFlitAtTop_def fb_insertAtTop_def finish_swap_def upd_net_stats_def upd_stats_def
  increment_total_swaps_def flit_updates DISABLE_LOCAL_SWAP_def ENABLE_LOCAL_SWAP_def RoutingAlgorithm_of_int_def

lemma row_swap: "\<exists>n'. attempt_swap 1 row_net = Some n' \<and> m_total_swaps (stats (n_env n')) = 1"
  by (simp add: attempt_swap_defs row_defs heap_one map_at_def Let_def)

text \<open>C2. An attempted swap that returns does one of two things. Either no channel of the network changes, and the swap is
  not counted. Or the front packet of the channel at the swap pointer and the front packet of the
  channel it is waiting for, at the same channel number in the downstream neighbour, change places, the
  downstream packet not being at its destination; every other channel of the network, and
  everything behind the two fronts, stays as it was; the swap is counted once.\<close>

theorem swap_exchanges_two_fronts:
  assumes "attempt_swap i n = Some n'" "m_num_cols (cfg (n_env n)) \<noteq> 0"
  shows "(m_total_swaps (stats (n_env n')) = m_total_swaps (stats (n_env n)) \<and>
      (\<forall>j q w. is_channel n j q w \<longrightarrow> channel n' j q w = channel n j q w)) \<or>
    (m_total_swaps (stats (n_env n')) = m_total_swaps (stats (n_env n)) + 1 \<and>
      (\<exists>f g k d. get_downstreamId (cfg (n_env n)) (m_outport_dir f) i = Some k \<and>
        get_downstreamDirn (m_outport_dir f) = Some d \<and> m_outport_dir g \<noteq> ''Local'' \<and>
        swapped i (sp_inport (swap_ptr (m_routers n ! nat i)))
          k (map_at 0 (m_inports_dirn2idx (m_routing_unit (m_routers n ! nat k))) d)
          (sp_vcid (swap_ptr (m_routers n ! nat i))) f g n n'))"
  using attempt_swap_outcome [OF assms] .

theorem swap_exchanges_two_fronts_witness:
  "\<exists>n'. attempt_swap 1 row_net = Some n' \<and> (\<exists>f g k d. get_downstreamId (cfg (n_env row_net)) (m_outport_dir f) 1 = Some k \<and>
     get_downstreamDirn (m_outport_dir f) = Some d \<and> m_outport_dir g \<noteq> ''Local'' \<and>
     swapped 1 0 k (map_at 0 (m_inports_dirn2idx (m_routing_unit (m_routers row_net ! nat k))) d) 0 f g row_net n')"
proof -
  obtain n' where n': "attempt_swap 1 row_net = Some n'" "m_total_swaps (stats (n_env n')) = 1" using row_swap by blast
  have r: "m_num_cols (cfg (n_env row_net)) \<noteq> 0" "m_total_swaps (stats (n_env row_net)) = 0"
    "sp_inport (swap_ptr (m_routers row_net ! nat 1)) = 0" "sp_vcid (swap_ptr (m_routers row_net ! nat 1)) = 0"
    by (simp_all add: row_defs)
  show ?thesis using swap_exchanges_two_fronts [OF n'(1) r(1)] n' unfolding r by auto
qed

text \<open>C5. A complete cycle of a router (the swap, the input units, the output units, switch allocation and the
  crossbar) neither loses nor duplicates a packet, and neither injects nor receives one: the packets in all
  routers, links and interfaces are the same before and after.\<close>

theorem router_cycle_keeps_packets:
  assumes "Router_wakeup i n = Some n'" "m_num_cols (cfg (n_env n)) \<noteq> 0"
  shows "net_packets n' = net_packets n \<and> m_nis n' = m_nis n \<and>
    m_packets_injected (stats (n_env n')) = m_packets_injected (stats (n_env n)) \<and>
    m_packets_received (stats (n_env n')) = m_packets_received (stats (n_env n))"
  using Router_wakeup_keeps [OF assms] by (simp add: net_frame_def ctx_def)

lemmas router_wakeup_defs = Router_wakeup_def swap_phase_def find_swap_ptr_def is_myTurn_def outportNotLocal_def low_occupancy_def
  getOutportDirection_def movSwapPtr_def get_num_outports_def input_phase_def InputUnit_wakeup_def link_isReady_def fb_isReady_def
  output_phase_def output_wakeup_def OutputUnit_wakeup_def upd_ou_def SwitchAllocator_wakeup_def arbitrate_inports_def
  arbitrate_inport_def request_of_def iu_need_stage_def need_stage_def vc_isReady_def is_stage_def arbitrate_outports_def
  arbitrate_outport_def mat_at_def mat_set_def clear_request_vector_def check_for_wakeup_def CrossbarSwitch_wakeup_def
  traverse_inport_def getNumRouters_def wrap_inc_def

lemma row_wakeup: "\<exists>n'. Router_wakeup 1 row_net = Some n' \<and> m_total_swaps (stats (n_env n')) = 1"
  by (simp add: router_wakeup_defs attempt_swap_defs row_defs heap_one map_at_def Let_def numeral_2_eq_2 upto.simps)

theorem router_cycle_keeps_packets_witness:
  "\<exists>n'. Router_wakeup 1 row_net = Some n' \<and> m_total_swaps (stats (n_env n')) = 1 \<and> net_packets n' = net_packets row_net \<and>
     m_nis n' = m_nis row_net \<and> m_packets_injected (stats (n_env n')) = m_packets_injected (stats (n_env row_net)) \<and>
     m_packets_received (stats (n_env n')) = m_packets_received (stats (n_env row_net))"
proof -
  obtain n' where n': "Router_wakeup 1 row_net = Some n'" "m_total_swaps (stats (n_env n')) = 1" using row_wakeup by blast
  have "m_num_cols (cfg (n_env row_net)) \<noteq> 0" by (simp add: row_defs)
  from router_cycle_keeps_packets [OF n'(1) this] n' show ?thesis by blast
qed

end
