(* ===== verification/Ni_Flow.thy ===== *)
theory Ni_Flow
  imports Network_Interface
begin

text \<open>
  What a network interface does with packets. A wake-up moves flits between the interface and its links,
  creates the packets it counts as injected, and removes the packets it counts as received, whose
  messages it puts into the protocol's buffers.

  \<open>booked\<close> says that a vector indexed by virtual network grew by what a multiset of flits is
  worth; the three ledgers of an interface (packets injected, packets received, messages
  delivered) are instances of it.
\<close>

section \<open>Ledgers indexed by virtual network\<close>

definition booked ::
    "('a \<Rightarrow> 'b::comm_monoid_add) \<Rightarrow> (flit \<Rightarrow> 'b) \<Rightarrow> flit multiset \<Rightarrow> 'a list \<Rightarrow> 'a list \<Rightarrow> bool" where
  "booked val w A xs ys \<longleftrightarrow> length ys = length xs \<and>
     (\<forall>v < length xs. val (ys ! v) = val (xs ! v) + (\<Sum>f\<in>#filter_mset (\<lambda>f. m_vnet f = int v) A. w f)) \<and>
     (\<forall>f \<in># A. 0 \<le> m_vnet f \<and> m_vnet f < int (length xs))"

lemma booked_none: "length ys = length xs \<Longrightarrow> (\<And>v. v < length xs \<Longrightarrow> val (ys ! v) = val (xs ! v)) \<Longrightarrow> booked val w {#} xs ys"
  by (simp add: booked_def)

lemma booked_refl [simp]: "booked val w {#} xs xs"
  by (simp add: booked_def)

lemma booked_trans: "booked val w A xs ys \<Longrightarrow> booked val w B ys zs \<Longrightarrow> booked val w (A + B) xs zs"
  by (auto simp: booked_def add.assoc)

lemma booked_update:
  assumes "0 \<le> m_vnet f" "m_vnet f < int (length xs)" "val y = val (xs ! nat (m_vnet f)) + w f"
  shows "booked val w {#f#} xs (xs[nat (m_vnet f) := y])"
  using assms by (auto simp: booked_def nth_list_update)

lemma booked_packet [simp]:
  "(\<And>f. w (packet f) = w f) \<Longrightarrow> booked val w (image_mset packet A) = booked val w A"
  by (rule ext)+ (simp add: booked_def filter_mset_image_mset image_mset.compositionality comp_def)

lemma booked_count:
  "booked id (\<lambda>_. 1) A xs ys \<Longrightarrow> v < length xs \<Longrightarrow> ys ! v = xs ! v + size (filter_mset (\<lambda>f. m_vnet f = int v) A)"
  unfolding booked_def size_eq_sum_mset by simp

section \<open>The contract\<close>

definition mb_contents :: "MessageBuffer option \<Rightarrow> Message multiset" where
  "mb_contents mb = (case mb of None \<Rightarrow> {#} | Some b \<Rightarrow> image_mset content (mset (m_prio_heap b)))"

lemma mb_contents_simps [simp]:
  "mb_contents None = {#}" "mb_contents (Some b) = image_mset content (mset (m_prio_heap b))"
  by (simp_all add: mb_contents_def)

text \<open>\<open>A\<close> are the packets that appear, \<open>B\<close> the packets that leave.\<close>

definition ni_moves ::
    "flit multiset \<Rightarrow> flit multiset \<Rightarrow> NetworkInterface \<Rightarrow> env \<Rightarrow> NetworkInterface \<Rightarrow> env \<Rightarrow> bool" where
  "ni_moves A B n e n' e' \<longleftrightarrow>
     image_mset packet (ni_flits n' + link_flits e') + B = image_mset packet (ni_flits n + link_flits e) + A \<and>
     (\<forall>f \<in># A. m_type f = HEAD_TAIL) \<and>
     booked id (\<lambda>_. 1) A (m_packets_injected (stats e)) (m_packets_injected (stats e')) \<and>
     ((\<forall>f \<in># B. m_type f = HEAD_TAIL) \<longrightarrow>
        booked id (\<lambda>_. 1) B (m_packets_received (stats e)) (m_packets_received (stats e')) \<and>
        booked mb_contents (\<lambda>f. {#content (m_msg_ptr f)#}) B (outNode_ptr n) (outNode_ptr n')) \<and>
     drift e e' \<and> m_id_ni n' = m_id_ni n \<and> m_router_id n' = m_router_id n"

lemma ni_moves_trans:
  assumes "ni_moves A B n e n1 e1" "ni_moves A' B' n1 e1 n2 e2"
  shows "ni_moves (A + A') (B + B') n e n2 e2"
proof -
  let ?p = "\<lambda>n e. image_mset packet (ni_flits n + link_flits e)"
  have 1: "?p n1 e1 + B = ?p n e + A" and 2: "?p n2 e2 + B' = ?p n1 e1 + A'"
    using assms unfolding ni_moves_def by blast+
  have "?p n2 e2 + (B + B') = ?p n2 e2 + B' + B" by (simp only: ac_simps)
  also have "\<dots> = ?p n1 e1 + B + A'" unfolding 2 by (simp only: ac_simps)
  also have "\<dots> = ?p n e + (A + A')" unfolding 1 by (simp only: ac_simps)
  finally have p: "?p n2 e2 + (B + B') = ?p n e + (A + A')" .
  have rest: "\<forall>f\<in>#A + A'. m_type f = HEAD_TAIL" "drift e e2" "m_id_ni n2 = m_id_ni n" "m_router_id n2 = m_router_id n"
    using assms by (auto simp: ni_moves_def intro: drift_trans)
  have inj: "booked id (\<lambda>_. 1) (A + A') (m_packets_injected (stats e)) (m_packets_injected (stats e2))"
    by (rule booked_trans [of _ _ _ _ "m_packets_injected (stats e1)"]) (use assms in \<open>simp_all add: ni_moves_def\<close>)
  have rec: "booked id (\<lambda>_. 1) (B + B') (m_packets_received (stats e)) (m_packets_received (stats e2))"
    "booked mb_contents (\<lambda>f. {#content (m_msg_ptr f)#}) (B + B') (outNode_ptr n) (outNode_ptr n2)"
    if "\<forall>f\<in>#B + B'. m_type f = HEAD_TAIL"
    by (rule booked_trans [of _ _ _ _ "m_packets_received (stats e1)"] booked_trans [of _ _ _ _ "outNode_ptr n1"];
        use assms that in \<open>simp add: ni_moves_def\<close>)+
  show ?thesis unfolding ni_moves_def using p rest inj rec by blast
qed

text \<open>Steps that neither create nor remove a packet.\<close>

lemma ni_moves_quiet:
  assumes "image_mset packet (ni_flits n' + link_flits e') = image_mset packet (ni_flits n + link_flits e)"
    "map mb_contents (outNode_ptr n') = map mb_contents (outNode_ptr n)" "ctx e' = ctx e"
    "m_id_ni n' = m_id_ni n" "m_router_id n' = m_router_id n" "drift e e'"
  shows "ni_moves {#} {#} n e n' e'"
proof -
  have "length (outNode_ptr n') = length (outNode_ptr n)" using map_eq_imp_length_eq [OF assms(2)] .
  moreover have "mb_contents (outNode_ptr n' ! v) = mb_contents (outNode_ptr n ! v)" if "v < length (outNode_ptr n)" for v
    using arg_cong [OF assms(2), of "\<lambda>xs. xs ! v"] that calculation by simp
  ultimately have "booked mb_contents w {#} (outNode_ptr n) (outNode_ptr n')" for w by (rule booked_none)
  then show ?thesis using assms(1,3-6) by (simp add: ni_moves_def ctx_def)
qed

definition ni_flow :: "NetworkInterface \<Rightarrow> env \<Rightarrow> NetworkInterface \<Rightarrow> env \<Rightarrow> bool" where
  "ni_flow n e n' e' \<longleftrightarrow> (\<exists>A B. ni_moves A B n e n' e')"

lemma ni_flow_refl [simp]: "ni_flow n e n e"
  unfolding ni_flow_def by (intro exI, rule ni_moves_quiet) simp_all

lemma ni_flow_trans: "ni_flow n e n1 e1 \<Longrightarrow> ni_flow n1 e1 n2 e2 \<Longrightarrow> ni_flow n e n2 e2"
  unfolding ni_flow_def using ni_moves_trans by blast

lemma ni_flow_quiet:
  assumes "ni_flits n' = ni_flits n" "outNode_ptr n' = outNode_ptr n" "calm e e'"
    "m_id_ni n' = m_id_ni n" "m_router_id n' = m_router_id n"
  shows "ni_flow n e n' e'"
  unfolding ni_flow_def
  by (intro exI, rule ni_moves_quiet) (use assms calm_drift [OF assms(3)] in \<open>simp_all add: calm_def link_flits_def\<close>)

locale ni_method =
  fixes m :: "NetworkInterface \<Rightarrow> env \<Rightarrow> (NetworkInterface \<times> env) option"
  assumes flow: "m n e = Some (n', e') \<Longrightarrow> ni_flow n e n' e'"

lemma ni_method_loop:
  assumes "\<And>x. ni_method (\<lambda>n e. f x (n, e))" "for_each f xs (n, e) = Some (n', e')"
  shows "ni_flow n e n' e'"
proof -
  have step: "ni_flow n e (fst s') (snd s')" if "ni_flow n e (fst s) (snd s)" "f x s = Some s'" for x s s'
    using that(1) ni_method.flow [OF assms(1) [of x], of "fst s" "snd s" "fst s'" "snd s'"] that(2)
    by (auto intro: ni_flow_trans)
  have "ni_flow n e (fst (n', e')) (snd (n', e'))"
    using assms(2) by (rule for_each_inv [where P = "\<lambda>s. ni_flow n e (fst s) (snd s)"]) (use step in \<open>simp, blast\<close>)
  then show ?thesis by simp
qed

section \<open>Injection\<close>

lemma calc_vc_frame:
  assumes "calc_vc k vnet now n = Some (vc, n')"
  shows "\<exists>al busy. n' = n\<lparr>m_vc_allocator := al, vc_busy_counter := busy\<rparr>"
  using assms
proof (induction k vnet now n rule: calc_vc.induct)
  case (1 vnet now n)
  then obtain busy where "n' = n\<lparr>vc_busy_counter := busy\<rparr>" by (auto simp: bind_Some)
  then show ?case by (intro exI [of _ "m_vc_allocator n"] exI [of _ busy]) simp
next
  case (2 k vnet now n)
  then obtain delta al s where d: "vec_at (m_vc_allocator n) vnet = Some delta"
      "vec_set (m_vc_allocator n) vnet (if delta + 1 = m_vc_per_vnet_ni n then 0 else delta + 1) = Some al"
      "vec_at (m_out_vc_state n) (vnet * m_vc_per_vnet_ni n + delta) = Some s"
    by (auto simp: bind_Some Let_def)
  show ?case
  proof (cases "isInState s IDLE now")
    case True
    then obtain busy where "n' = n\<lparr>m_vc_allocator := al, vc_busy_counter := busy\<rparr>"
      using 2(2) d by (auto simp: bind_Some Let_def)
    then show ?thesis by blast
  next
    case False
    then have "calc_vc k vnet now (n\<lparr>m_vc_allocator := al\<rparr>) = Some (vc, n')" using 2(2) d by simp
    then obtain al' busy where "n' = n\<lparr>m_vc_allocator := al\<rparr>\<lparr>m_vc_allocator := al', vc_busy_counter := busy\<rparr>"
      using 2(1) [OF d(1,2) _ _ False] d(3) by auto
    then show ?thesis by (intro exI [of _ al'] exI [of _ busy]) simp
  qed
qed

lemma injection_vc_frame:
  assumes "injection_vc vnet n e = Some (vc, n')"
  shows "\<exists>al busy. n' = n\<lparr>m_vc_allocator := al, vc_busy_counter := busy\<rparr>"
proof -
  have "\<exists>v. calculateVC v (curCycle e) n = Some (vc, n')"
    using assms by (auto simp: injection_vc_def bind_Some split: if_splits)
  then show ?thesis using calc_vc_frame unfolding calculateVC_def by blast
qed

text \<open>One packet for one destination.\<close>

lemma inject_loop_frame:
  assumes "for_each (\<lambda>_ s. increment_injected_flits vnet s) xs s = Some s'"
  shows "m_packets_injected s' = m_packets_injected s \<and> m_packets_received s' = m_packets_received s"
  using assms by (rule for_each_inv [where P = "\<lambda>t. m_packets_injected t = m_packets_injected s \<and>
      m_packets_received t = m_packets_received s"]) (auto simp: increment_injected_flits_def bind_Some)

lemma inject_packet_Some:
  assumes "inject_packet router_of vnet vc destID msg new_msg n e = Some (n', e')"
  obtains f bs ts sts st where "m_vnet f = vnet" "m_vc f = vc" "m_type f = HEAD_TAIL" "m_msg_ptr f = new_msg"
    "dest_ni (m_route f) = destID" "0 \<le> vc" "vc < int (length (m_ni_out_vcs n))"
    "bs = (m_ni_out_vcs n)[nat vc := fb_insert (m_ni_out_vcs n ! nat vc) f]"
    "n' = n\<lparr>m_ni_out_vcs := bs, m_ni_out_vcs_enqueue_time := ts, m_out_vc_state := sts\<rparr>"
    "e' = e\<lparr>stats := st\<rparr>" "0 \<le> vnet" "vnet < int (length (m_packets_injected (stats e)))"
    "m_packets_injected st = (m_packets_injected (stats e))[nat vnet := m_packets_injected (stats e) ! nat vnet + 1]"
    "m_packets_received st = m_packets_received (stats e)"
proof -
  let ?fl = "\<lambda>rt dl. set_src_delay dl (flit_new 0 vc vnet \<lparr>route_vnet = vnet, net_dest = Destination new_msg,
    src_ni = m_id_ni n, src_router = m_router_id n, dest_ni = destID, dest_router = rt, hops_traversed = -1\<rparr>
    1 new_msg (curCycle e))"
  obtain rt s1 dl b bs k s2 ts st sts where run: "increment_injected_packets vnet (stats e) = Some s1"
      "vec_at (m_ni_out_vcs n) vc = Some b" "vec_set (m_ni_out_vcs n) vc (fb_insert b (?fl rt dl)) = Some bs"
      "for_each (\<lambda>_ s. increment_injected_flits vnet s) [0..int k - 1] s1 = Some s2"
    and res: "Some (n\<lparr>m_ni_out_vcs := bs, m_ni_out_vcs_enqueue_time := ts, m_out_vc_state := sts\<rparr>,
           e\<lparr>stats := s2\<rparr>) = Some (n', e')"
    using assms unfolding inject_packet_def Let_def bind_Some by (elim exE conjE) (rule that, assumption+)
  have bs: "0 \<le> vc" "vc < int (length (m_ni_out_vcs n))"
    "bs = (m_ni_out_vcs n)[nat vc := fb_insert (m_ni_out_vcs n ! nat vc) (?fl rt dl)]"
    using run(2,3) by (auto simp: vec_at_eq_Some vec_set_eq_Some)
  have f: "m_vnet (?fl rt dl) = vnet" "m_vc (?fl rt dl) = vc" "m_type (?fl rt dl) = HEAD_TAIL"
    "m_msg_ptr (?fl rt dl) = new_msg" "dest_ni (m_route (?fl rt dl)) = destID"
    by (simp_all add: flit_new_def set_src_delay_def)
  have res': "n' = n\<lparr>m_ni_out_vcs := bs, m_ni_out_vcs_enqueue_time := ts, m_out_vc_state := sts\<rparr>" "e' = e\<lparr>stats := s2\<rparr>"
    using res by simp_all
  have "0 \<le> vnet" "vnet < int (length (m_packets_injected (stats e)))"
    "m_packets_injected s2 = (m_packets_injected (stats e))[nat vnet := m_packets_injected (stats e) ! nat vnet + 1]"
    "m_packets_received s2 = m_packets_received (stats e)"
    using run(1) inject_loop_frame [OF run(4)]
    by (auto simp: increment_injected_packets_def bind_Some vec_add_eq_Some)
  then show thesis using that [OF f bs res'] by blast
qed

lemma inject_packet_flow:
  assumes "inject_packet router_of vnet vc destID msg new_msg n e = Some (n', e')"
  shows "ni_flow n e n' e'"
  using assms
proof (cases rule: inject_packet_Some)
  case (1 f bs ts sts st)
  have "ni_flits n' = add_mset f (ni_flits n)"
    using list_update_sum [of "nat vc" "m_ni_out_vcs n" fb_items "fb_insert (m_ni_out_vcs n ! nat vc) f"] 1
    by (simp add: ni_flits_def fb.items_insert)
  moreover have "booked id (\<lambda>_. 1) {#f#} (m_packets_injected (stats e)) (m_packets_injected st)"
    using booked_update [of f "m_packets_injected (stats e)" id "m_packets_injected (stats e) ! nat vnet + 1" "\<lambda>_. 1"] 1 by simp
  then have "booked id (\<lambda>_. 1) (image_mset packet {#f#}) (m_packets_injected (stats e)) (m_packets_injected st)"
    by (simp only: booked_packet)
  ultimately have "ni_moves {#packet f#} {#} n e n' e'"
    using 1 by (simp add: ni_moves_def link_flits_def)
  then show ?thesis unfolding ni_flow_def by blast
qed

lemma flitisize_dests_flow:
  assumes "flitisize_dests mc router_of vnet k ds msg n e = Some (ok, msg', n', e')"
  shows "ni_flow n e n' e'"
  using assms
proof (induction ds arbitrary: msg n e)
  case (Cons d ds)
  obtain vc n1 where v: "injection_vc vnet n e = Some (vc, n1)" using Cons.prems by (auto simp: bind_Some)
  have n1: "ni_flow n e n1 e" using injection_vc_frame [OF v] by (intro ni_flow_quiet) (auto simp: ni_flits_def)
  show ?case
  proof (cases "vc = -1")
    case True
    then show ?thesis using Cons.prems v n1 by simp
  next
    case False
    then obtain new_msg msg1 n2 e2 where run: "inject_packet router_of vnet vc d msg1 new_msg n1 e = Some (n2, e2)"
      "flitisize_dests mc router_of vnet k ds msg1 n2 e2 = Some (ok, msg', n', e')"
      using Cons.prems v by (auto simp: bind_Some)
    show ?thesis using ni_flow_trans [OF n1 ni_flow_trans [OF inject_packet_flow [OF run(1)] Cons.IH [OF run(2)]]] .
  qed
qed simp

interpretation accept: ni_method "\<lambda>n e. accept_message mc router_of vnet (n, e)" for mc router_of vnet
proof
  fix n e n' e'
  assume a: "accept_message mc router_of vnet (n, e) = Some (n', e')"
  then obtain mb where mb: "vec_at (inNode_ptr n) vnet = Some mb" by (auto simp: accept_message_def bind_Some)
  show "ni_flow n e n' e'"
  proof (cases "\<exists>b. mb = Some b \<and> mb_isReady (clockEdge e 0) b")
    case False
    then have "n' = n \<and> e' = e" using a mb by (auto simp: accept_message_def split: option.splits)
    then show ?thesis by simp
  next
    case True
    then obtain b where b: "mb = Some b" "mb_isReady (clockEdge e 0) b" by blast
    obtain msg ok msg1 n1 e1 b1 bs where run: "flitisizeMessage mc router_of msg vnet n e = Some (ok, msg1, n1, e1)"
        "(if ok then do { (_, _, b, e) \<leftarrow> mb_dequeue (clockEdge e1 0) True (b\<lparr>m_prio_heap := msg1 # tl (m_prio_heap b)\<rparr>) e1;
            Some (b, e) } else Some (b\<lparr>m_prio_heap := msg1 # tl (m_prio_heap b)\<rparr>, e1)) = Some (b1, e')"
        "n' = n1\<lparr>inNode_ptr := bs\<rparr>"
      using a mb b by (auto simp: accept_message_def bind_Some Let_def)
    have "ni_flow n e n1 e1"
      using run(1) flitisize_dests_flow by (fastforce simp: flitisizeMessage_def bind_Some)
    moreover have "calm e1 e'" using run(2) by (cases ok) (auto simp: bind_Some dest: mb_dequeue_calm)
    then have "ni_flow n1 e1 n' e'" using run(3) by (intro ni_flow_quiet) (simp_all add: ni_flits_def)
    ultimately show ?thesis by (rule ni_flow_trans)
  qed
qed

section \<open>The output link\<close>

lemma send_from_vc_flow:
  assumes "send_from_vc vc n e = Some (n', e')"
  shows "ni_flow n e n' e'"
proof -
  let ?t = "\<lambda>f. set_time (curCycle e + 1) f"
  let ?n1 = "\<lambda>f sts bs. n\<lparr>m_out_vc_state := sts, m_ni_out_vcs := bs, outFlitQueue := fb_insert (outFlitQueue n) (?t f)\<rparr>"
  obtain sts b0 f b bs e1 n2 where get: "vec_at (m_ni_out_vcs n) vc = Some b0" "fb_getTopFlit b0 = Some (f, b)"
      "vec_set (m_ni_out_vcs n) vc b = Some bs"
      "scheduleEventAbsolute (C_NetLink (outNetLink (?n1 f sts bs))) (clockEdge e 1) e = Some e1"
    and res: "(if m_type (?t f) = TAIL \<or> m_type (?t f) = HEAD_TAIL then do {
          ts \<leftarrow> vec_set (m_ni_out_vcs_enqueue_time (?n1 f sts bs)) vc INFINITE_TIME;
          Some ((?n1 f sts bs)\<lparr>m_ni_out_vcs_enqueue_time := ts\<rparr>) }
        else Some (?n1 f sts bs)) = Some n2" "Some (n2, e1) = Some (n', e')"
    using assms unfolding send_from_vc_def Let_def bind_Some split_paired_Ex prod.case
    by (elim exE conjE) (rule that, assumption+)
  have run: "0 \<le> vc" "vc < int (length (m_ni_out_vcs n))"
      "fb_getTopFlit (m_ni_out_vcs n ! nat vc) = Some (f, b)"
      "scheduleEventAbsolute (C_NetLink (outNetLink n)) (clockEdge e 1) e = Some e'"
    and n': "m_ni_out_vcs n' = (m_ni_out_vcs n)[nat vc := b]" "m_stall_queue n' = m_stall_queue n"
      "outFlitQueue n' = fb_insert (outFlitQueue n) (set_time (curCycle e + 1) f)" "outNode_ptr n' = outNode_ptr n"
      "m_id_ni n' = m_id_ni n" "m_router_id n' = m_router_id n"
    using get res by (auto simp: vec_at_eq_Some vec_set_eq_Some bind_Some split: if_splits)
  have vc: "nat vc < length (m_ni_out_vcs n)" using run(1,2) by simp
  have "(\<Sum>b\<leftarrow>m_ni_out_vcs n'. fb_items b) + fb_items (m_ni_out_vcs n ! nat vc) = (\<Sum>b\<leftarrow>m_ni_out_vcs n. fb_items b) + fb_items b"
    using list_update_sum [OF vc, of fb_items b] by (simp add: n')
  then have "(\<Sum>b\<leftarrow>m_ni_out_vcs n. fb_items b) = add_mset f (\<Sum>b\<leftarrow>m_ni_out_vcs n'. fb_items b)"
    using fb.items_pop [OF run(3)] by simp
  then have "image_mset packet (ni_flits n') = image_mset packet (ni_flits n)"
    by (simp add: ni_flits_def n' fb.items_insert)
  then have "ni_moves {#} {#} n e n' e'"
    using scheduleEventAbsolute_calm [OF run(4)] by (intro ni_moves_quiet) (simp_all add: n' calm_def link_flits_def calm_drift)
  then show ?thesis unfolding ni_flow_def by blast
qed

lemma try_vcs_flow: "try_vcs k vc n e = Some (n', e') \<Longrightarrow> ni_flow n e n' e'"
proof (induction k arbitrary: vc)
  case (Suc k)
  let ?vc = "if vc + 1 = m_num_vcs_ni n then 0 else vc + 1"
  obtain c where "(if c then send_from_vc ?vc n e else try_vcs k ?vc n e) = Some (n', e')"
    using Suc.prems unfolding try_vcs.simps Let_def bind_Some by blast
  then show ?case using Suc.IH send_from_vc_flow by (cases c) auto
qed simp

interpretation sched: ni_method scheduleOutputLink
proof
  fix n :: NetworkInterface and e n' e'
  let ?n = "n\<lparr>m_vc_round_robin := if m_vc_round_robin n + 1 = m_num_vcs_ni n then 0 else m_vc_round_robin n + 1\<rparr>"
  assume "scheduleOutputLink n e = Some (n', e')"
  then have "ni_flow ?n e n' e'" by (auto simp: scheduleOutputLink_def Let_def intro: try_vcs_flow)
  moreover have "ni_flow n e ?n e" by (rule ni_flow_quiet) (simp_all add: ni_flits_def)
  ultimately show "ni_flow n e n' e'" by (rule ni_flow_trans [rotated])
qed

lemma checkReschedule_calm: "checkReschedule n e = Some e' \<Longrightarrow> calm e e'"
  by (auto simp: checkReschedule_def split: if_splits dest: scheduleEvent_calm)

section \<open>Ejection\<close>

lemma incrementStats_Some:
  assumes "incrementStats f e = Some e'"
  shows "(\<exists>st. e' = e\<lparr>stats := st\<rparr>) \<and> m_packets_injected (stats e') = m_packets_injected (stats e) \<and>
    (m_type f = HEAD_TAIL \<longrightarrow> booked id (\<lambda>_. 1) {#f#} (m_packets_received (stats e)) (m_packets_received (stats e')))"
proof -
  note count_defs = increment_received_flits_def increment_flit_network_latency_def increment_flit_queueing_latency_def
    update_flit_latency_histogram_def update_flit_network_latency_histogram_def
    update_flit_queueing_latency_histogram_def update_network_latency_histogram_def
    increment_received_packets_def increment_packet_network_latency_def increment_packet_queueing_latency_def
    increment_total_hops_def
  obtain s1 d nd q s2 s3 s6 s7 where run: "increment_received_flits (m_vnet f) (stats e) = Some s1"
      "increment_flit_network_latency nd (m_vnet f) s1 = Some s2"
      "increment_flit_queueing_latency (src_delay f + q) (m_vnet f) s2 = Some s3"
      "update_network_latency_histogram nd (update_flit_queueing_latency_histogram (src_delay f + q)
         (update_flit_network_latency_histogram nd (update_flit_latency_histogram (src_delay f + q + nd) s3))) = Some s6"
    and tail: "(if m_type f = TAIL \<or> m_type f = HEAD_TAIL then do {
            s \<leftarrow> increment_received_packets (m_vnet f) s6;
            s \<leftarrow> increment_packet_network_latency nd (m_vnet f) s;
            increment_packet_queueing_latency (src_delay f + q) (m_vnet f) s }
          else Some s6) = Some s7"
    and res: "Some (e\<lparr>stats := increment_total_hops (hops_traversed (m_route f)) s7\<rparr>) = Some e'"
    using assms unfolding incrementStats_def Let_def bind_Some by (elim exE conjE) (rule that, assumption+)
  have s6: "m_packets_injected s6 = m_packets_injected (stats e)" "m_packets_received s6 = m_packets_received (stats e)"
    using run by (auto simp: count_defs bind_Some Let_def)
  have "m_packets_injected s7 = m_packets_injected s6"
    using tail by (auto simp: count_defs bind_Some split: if_splits)
  moreover have "booked id (\<lambda>_. 1) {#f#} (m_packets_received s6) (m_packets_received s7)" if "m_type f = HEAD_TAIL"
    using tail that booked_update [of f "m_packets_received s6" id _ "\<lambda>_. 1"]
    by (auto simp: increment_received_packets_def increment_packet_network_latency_def
        increment_packet_queueing_latency_def bind_Some vec_add_eq_Some)
  ultimately show ?thesis using res s6 by (auto simp: increment_total_hops_def)
qed

lemma mb_enqueue_calm:
  assumes "mb_enqueue sys m t d b e = Some (b', e')"
  shows "calm e e' \<and> mb_contents (Some b') = add_mset (content m) (mb_contents (Some b))"
  using assms by (rule mb_enqueue_heap) (simp add: mb_enqueue_env [OF assms])

lemma eject_Some:
  assumes "eject sys f mb n e = Some (n', e')" "mb_contents (outNode_ptr n ! nat (m_vnet f)) = mb_contents (Some mb)"
  shows "ni_flits n' = ni_flits n \<and> m_stall_queue n' = m_stall_queue n \<and> m_ni_out_vcs n' = m_ni_out_vcs n \<and>
    outFlitQueue n' = outFlitQueue n \<and> m_id_ni n' = m_id_ni n \<and> m_router_id n' = m_router_id n \<and>
    m_networklinks e' = m_networklinks e \<and> cfg e' = cfg e \<and> curCycle e' = curCycle e \<and> drift e e' \<and>
    m_packets_injected (stats e') = m_packets_injected (stats e) \<and>
    (m_type f = HEAD_TAIL \<longrightarrow>
      booked id (\<lambda>_. 1) {#f#} (m_packets_received (stats e)) (m_packets_received (stats e')) \<and>
      booked mb_contents (\<lambda>f. {#content (m_msg_ptr f)#}) {#f#} (outNode_ptr n) (outNode_ptr n'))"
proof -
  obtain mb' e1 n1 where run: "mb_enqueue sys (m_msg_ptr f) (clockEdge e 0) (cyclesToTicks e 1) mb e = Some (mb', e1)"
      "set_out_node (m_vnet f) mb' n = Some n1" "incrementStats f e1 = Some e'" "n' = sendCredit f True n1 e1"
    using assms(1) unfolding eject_def Let_def by (auto simp: bind_Some)
  have n1: "0 \<le> m_vnet f" "m_vnet f < int (length (outNode_ptr n))"
      "n1 = n\<lparr>outNode_ptr := (outNode_ptr n)[nat (m_vnet f) := Some mb']\<rparr>"
    using run(2) by (auto simp: set_out_node_def bind_Some vec_set_eq_Some)
  have e1: "calm e e1" "mb_contents (Some mb') = mb_contents (outNode_ptr n ! nat (m_vnet f)) + {#content (m_msg_ptr f)#}"
    using mb_enqueue_calm [OF run(1)] assms(2) by auto
  have "booked mb_contents (\<lambda>f. {#content (m_msg_ptr f)#}) {#f#} (outNode_ptr n) (outNode_ptr n')"
    using booked_update [OF n1(1,2), of mb_contents "Some mb'" "\<lambda>f. {#content (m_msg_ptr f)#}"] e1(2)
    by (simp add: run(4) n1(3) sendCredit_def)
  moreover have "cfg e' = cfg e \<and> curCycle e' = curCycle e \<and> m_networklinks e' = m_networklinks e \<and> drift e e' \<and>
      m_packets_injected (stats e') = m_packets_injected (stats e) \<and> (m_type f = HEAD_TAIL \<longrightarrow>
      booked id (\<lambda>_. 1) {#f#} (m_packets_received (stats e)) (m_packets_received (stats e')))"
    using incrementStats_Some [OF run(3)] calm_frame [OF e1(1)] calm_drift [OF e1(1)] by (auto simp: ctx_def)
  ultimately show ?thesis by (simp add: run(4) n1(3) sendCredit_def ni_flits_def)
qed

lemma set_out_node_quiet:
  assumes "set_out_node v mb n = Some n'" "mb_contents (Some mb) = mb_contents (outNode_ptr n ! nat v)"
  shows "ni_flow n e n' e" "n' = n\<lparr>outNode_ptr := (outNode_ptr n)[nat v := Some mb]\<rparr>"
proof -
  have v: "0 \<le> v" "v < int (length (outNode_ptr n))"
    and n': "n' = n\<lparr>outNode_ptr := (outNode_ptr n)[nat v := Some mb]\<rparr>"
    using assms(1) by (auto simp: set_out_node_def bind_Some vec_set_eq_Some)
  have "map mb_contents (outNode_ptr n') = map mb_contents (outNode_ptr n)"
    using v assms(2) by (simp add: n' map_update) (metis list_update_id nth_map nat_less_iff)
  then have "ni_moves {#} {#} n e n' e" by (intro ni_moves_quiet) (simp_all add: n' ni_flits_def)
  then show "ni_flow n e n' e" unfolding ni_flow_def by blast
  show "n' = n\<lparr>outNode_ptr := (outNode_ptr n)[nat v := Some mb]\<rparr>" by (rule n')
qed

lemma areNSlots_contents: "areNSlotsAvailable k t b = (r, b') \<Longrightarrow> mb_contents (Some b') = mb_contents (Some b)"
  by (auto simp: areNSlotsAvailable_def mb_getSize_def Let_def split: if_splits prod.splits)

text \<open>A packet leaves: \<open>n0\<close> and \<open>e0\<close> still hold it.\<close>

lemma eject_moves:
  assumes ej: "eject sys f mb n e = Some (n', e')" "mb_contents (outNode_ptr n ! nat (m_vnet f)) = mb_contents (Some mb)"
    and p: "image_mset packet (ni_flits n2 + link_flits e') + {#packet f#} = image_mset packet (ni_flits n0 + link_flits e0)"
    and n2: "outNode_ptr n2 = outNode_ptr n'" "m_id_ni n2 = m_id_ni n'" "m_router_id n2 = m_router_id n'"
    and n0: "outNode_ptr n0 = outNode_ptr n" "m_id_ni n0 = m_id_ni n" "m_router_id n0 = m_router_id n"
    and e0: "ctx e0 = ctx e" "drift e0 e"
  shows "ni_moves {#} {#packet f#} n0 e0 n2 e'"
proof -
  note s = eject_Some [OF ej]
  have b: "booked val w {#packet f#} = booked val w {#f#}" if "\<And>f. w (packet f) = w f" for val :: "'x \<Rightarrow> 'y::comm_monoid_add" and w
    using booked_packet [of w val "{#f#}"] that by simp
  have "booked id (\<lambda>_. 1) {#packet f#} (m_packets_received (stats e0)) (m_packets_received (stats e')) \<and>
      booked mb_contents (\<lambda>f. {#content (m_msg_ptr f)#}) {#packet f#} (outNode_ptr n0) (outNode_ptr n2)"
    if "m_type f = HEAD_TAIL"
    using s that b [of "\<lambda>_. 1" "id :: nat \<Rightarrow> nat"] b [of "\<lambda>f. {#content (m_msg_ptr f)#}" mb_contents] e0(1)
    by (simp add: n0 n2 ctx_def)
  moreover have "drift e0 e'" using s e0(2) drift_trans by blast
  ultimately show ?thesis using s p e0(1) n2 n0 by (simp add: ni_moves_def ctx_def)
qed

lemma unstall_flow:
  assumes "unstall sys kept fs n e = Some (b, n', e')" "m_stall_queue n = kept @ fs"
  shows "ni_flow n e n' e'"
  using assms
proof (induction fs arbitrary: kept n)
  case (Cons f fs)
  obtain mb where mb: "out_node n (m_vnet f) = Some mb" using Cons.prems(1) by (auto simp: bind_Some Let_def)
  have mb': "outNode_ptr n ! nat (m_vnet f) = Some mb" using mb by (auto simp: out_node_def bind_Some vec_at_eq_Some)
  obtain room mb1 where slots: "areNSlotsAvailable 1 (clockEdge e 0) mb = (room, mb1)" by (metis surj_pair)
  have c1: "mb_contents (outNode_ptr n ! nat (m_vnet f)) = mb_contents (Some mb1)"
    using areNSlots_contents [OF slots] mb' by simp
  show ?case
  proof (cases room)
    case True
    obtain n1 e1 counts and c :: int and n3 where run: "eject sys f mb1 n e = Some (n1, e1)"
        "(if c = 0 then do {
              mb \<leftarrow> out_node (n1\<lparr>m_stall_queue := kept @ fs, m_stall_count := counts\<rparr>) (m_vnet f);
              set_out_node (m_vnet f) (unregisterDequeueCallback mb) (n1\<lparr>m_stall_queue := kept @ fs, m_stall_count := counts\<rparr>) }
            else Some (n1\<lparr>m_stall_queue := kept @ fs, m_stall_count := counts\<rparr>)) = Some n3"
        "n' = n3" "e' = e1"
      using Cons.prems(1) True by (auto simp: mb slots [unfolded One_nat_def] Let_def bind_Some)
    let ?n2 = "n1\<lparr>m_stall_queue := kept @ fs, m_stall_count := counts\<rparr>"
    note s = eject_Some [OF run(1) c1]
    have "image_mset packet (ni_flits ?n2 + link_flits e1) + {#packet f#} = image_mset packet (ni_flits n + link_flits e)"
      using s Cons.prems(2) by (simp add: ni_flits_def link_flits_def)
    then have "ni_moves {#} {#packet f#} n e ?n2 e1" by (rule eject_moves [OF run(1) c1]) simp_all
    then have "ni_flow n e ?n2 e1" unfolding ni_flow_def by blast
    moreover have "ni_flow ?n2 e1 n' e'"
    proof (cases "c = 0")
      case True
      then obtain mb2 where "out_node ?n2 (m_vnet f) = Some mb2" "set_out_node (m_vnet f) (unregisterDequeueCallback mb2) ?n2 = Some n'"
        using run(2,3) by (auto simp: bind_Some)
      then show ?thesis using run(4) set_out_node_quiet(1)
        by (fastforce simp: out_node_def bind_Some vec_at_eq_Some unregisterDequeueCallback_def)
    qed (use run(2-4) in simp)
    ultimately show ?thesis by (rule ni_flow_trans)
  next
    case False
    obtain n1 where run: "set_out_node (m_vnet f) mb1 n = Some n1" "unstall sys (kept @ [f]) fs n1 e = Some (b, n', e')"
      using Cons.prems(1) False by (auto simp: mb slots [unfolded One_nat_def] Let_def bind_Some)
    note q = set_out_node_quiet [OF run(1) c1 [symmetric]]
    have "m_stall_queue n1 = (kept @ [f]) @ fs" using q(2) Cons.prems(2) by simp
    then show ?thesis using ni_flow_trans [OF q(1) Cons.IH [OF run(2)]] by blast
  qed
qed simp

interpretation credit: ni_method receive_credit
proof
  fix n e n' e'
  assume "receive_credit n e = Some (n', e')"
  then obtain sts cl where "n' = n \<and> e' = e \<or>
      n' = n\<lparr>m_out_vc_state := sts\<rparr> \<and> e' = e\<lparr>m_creditlinks := cl\<rparr> \<and> drained (m_creditlinks e) cl"
    by (auto simp: receive_credit_def bind_Some Let_def split: if_splits dest!: consumeLink_drained)
  then have "n' = n \<and> e' = e \<or> ni_moves {#} {#} n e n' e'"
    by (auto intro!: ni_moves_quiet simp: ni_flits_def link_flits_def drift_def)
  then show "ni_flow n e n' e'" unfolding ni_flow_def using ni_flow_refl [unfolded ni_flow_def] by auto
qed

lemma receive_flit_cases:
  assumes "receive_flit sys early f n e = Some (n', e')"
  obtains (eject) mb where "eject sys (set_dequeue_time (curCycle e) f) mb n e = Some (n', e')"
      "mb_contents (outNode_ptr n ! nat (m_vnet f)) = mb_contents (Some mb)"
  | (stall) counts mb where "set_out_node (m_vnet f) mb
        (n\<lparr>m_stall_queue := m_stall_queue n @ [set_dequeue_time (curCycle e) f], m_stall_count := counts\<rparr>) = Some n'"
      "mb_contents (Some mb) = mb_contents (outNode_ptr n ! nat (m_vnet f))" "e' = e"
  | (body) "m_type f \<noteq> HEAD_TAIL" "incrementStats (set_dequeue_time (curCycle e) f) e = Some e'"
      "n' = sendCredit (set_dequeue_time (curCycle e) f) False n e"
proof -
  let ?f = "set_dequeue_time (curCycle e) f"
  have type: "m_type ?f = m_type f" "m_vnet ?f = m_vnet f" by (simp_all add: set_dequeue_time_def)
  show thesis
  proof (cases "m_type f = TAIL \<or> m_type f = HEAD_TAIL")
    case False
    then show thesis using assms body by (auto simp: receive_flit_def type Let_def bind_Some)
  next
    case True
    then obtain mb where mb: "out_node n (m_vnet f) = Some mb" using assms by (auto simp: receive_flit_def type Let_def bind_Some)
    have mb': "mb_contents (outNode_ptr n ! nat (m_vnet f)) = mb_contents (Some mb)"
      using mb by (auto simp: out_node_def bind_Some vec_at_eq_Some)
    obtain room mb1 where slots: "(if early then (False, mb) else areNSlotsAvailable 1 (clockEdge e 0) mb) = (room, mb1)"
      by (metis surj_pair)
    have c: "mb_contents (Some mb1) = mb_contents (Some mb)"
      using slots areNSlots_contents [of 1 "clockEdge e 0" mb room mb1] by (simp split: if_splits)
    have run: "(if room then eject sys ?f mb1 n e
       else do {
         counts \<leftarrow> vec_add (m_stall_count n) (m_vnet f) 1;
         n \<leftarrow> set_out_node (m_vnet f) (registerDequeueCallback (C_NI (m_id_ni n)) mb1)
            (n\<lparr>m_stall_queue := m_stall_queue n @ [?f], m_stall_count := counts\<rparr>);
         Some (n, e) }) = Some (n', e')"
      using assms True unfolding receive_flit_def Let_def type mb slots by (cases room) (simp_all add: mb slots)
    show thesis
    proof (cases room)
      case True
      then show thesis using run eject mb' c by simp
    next
      case False
      then show thesis using run stall mb' c by (auto simp: bind_Some registerDequeueCallback_def)
    qed
  qed
qed

interpretation receive: ni_method "receive_from_link sys early" for sys early
proof
  fix n e n' e'
  assume r: "receive_from_link sys early n e = Some (n', e')"
  show "ni_flow n e n' e'"
  proof (cases "(n', e') = (n, e)")
    case False
    then obtain l f l' ls where link: "vec_at (m_networklinks e) (inNetLink n) = Some l" "consumeLink l = Some (f, l')"
        "vec_set (m_networklinks e) (inNetLink n) l' = Some ls"
        "receive_flit sys early f n (e\<lparr>m_networklinks := ls\<rparr>) = Some (n', e')"
      using r by (auto simp: receive_from_link_def bind_Some split: if_splits)
    let ?e = "e\<lparr>m_networklinks := ls\<rparr>" and ?f = "set_dequeue_time (curCycle e) f"
    have fl: "link_flits e = add_mset f (link_flits ?e)" using consumeLink_flits [OF link(1-3)] .
    have dr: "drift e ?e" using consumeLink_drained [OF link(1-3)] by (simp add: drift_def)
    show ?thesis using link(4)
    proof (cases rule: receive_flit_cases)
      case (eject mb)
      have c: "mb_contents (outNode_ptr n ! nat (m_vnet ?f)) = mb_contents (Some mb)"
        using eject(2) by (simp add: set_dequeue_time_def)
      have ej: "eject sys ?f mb n ?e = Some (n', e')" using eject(1) by simp
      have "image_mset packet (ni_flits n' + link_flits e') + {#packet ?f#} = image_mset packet (ni_flits n + link_flits e)"
        using eject_Some [OF ej c] fl by (simp add: link_flits_def)
      then have "ni_moves {#} {#packet ?f#} n e n' e'" by (rule eject_moves [OF ej c]) (simp_all add: dr)
      then show ?thesis unfolding ni_flow_def by blast
    next
      case (stall counts mb)
      let ?n = "n\<lparr>m_stall_queue := m_stall_queue n @ [?f], m_stall_count := counts\<rparr>"
      have "ni_moves {#} {#} n e ?n ?e" by (rule ni_moves_quiet) (simp_all add: ni_flits_def fl dr)
      then have "ni_flow n e ?n ?e" unfolding ni_flow_def by blast
      moreover have "ni_flow ?n ?e n' ?e" using stall(1,2) by (intro set_out_node_quiet(1) [where v = "m_vnet f" and mb = mb]) simp_all
      ultimately show ?thesis using stall(3) ni_flow_trans by blast
    next
      case body
      have e': "\<exists>st. e' = ?e\<lparr>stats := st\<rparr>" "m_packets_injected (stats e') = m_packets_injected (stats e)"
        using incrementStats_Some [OF body(2)] by auto
      have "m_networklinks e' = ls" "drift e e'" using e'(1) dr by auto
      then have "ni_moves {#} {#packet f#} n e n' e'"
        using body(1,3) e'(2) fl by (simp add: ni_moves_def sendCredit_def ni_flits_def link_flits_def)
      then show ?thesis unfolding ni_flow_def by blast
    qed
  qed simp
qed

section \<open>A wake-up\<close>

interpretation ni_wake: ni_method "NetworkInterface_wakeup sys mc router_of" for sys mc router_of
proof
  fix n e n' e'
  assume "NetworkInterface_wakeup sys mc router_of n e = Some (n', e')"
  then obtain n1 e1 n2 e2 e3 b n4 e4 n5 e5 e6 where run:
      "for_each (accept_message mc router_of) [0..int (length (inNode_ptr n)) - 1] (n, e) = Some (n1, e1)"
      "scheduleOutputLink n1 e1 = Some (n2, e2)" "checkReschedule n2 e2 = Some e3"
      "checkStallQueue sys n2 e3 = Some (b, n4, e4)" "receive_from_link sys b n4 e4 = Some (n5, e5)"
      "receive_credit n5 e5 = Some (n', e6)"
      "(if fb_getSize (outCreditQueue n') > 0
          then scheduleEventAbsolute (C_CreditLink (outCreditLink n')) (clockEdge e6 1) e6 else Some e6) = Some e'"
    unfolding NetworkInterface_wakeup_def bind_Some split_paired_Ex prod.case option.inject prod.inject
    by (elim exE conjE) (rule that, simp_all only:)
  have "ni_flow n e n1 e1" using ni_method_loop [OF accept.ni_method_axioms run(1)] .
  moreover have "ni_flow n1 e1 n2 e2" by (rule sched.flow [OF run(2)])
  moreover have "ni_flow n2 e2 n2 e3" by (rule ni_flow_quiet) (simp_all add: checkReschedule_calm [OF run(3)])
  moreover have "ni_flow n2 e3 n4 e4" using unstall_flow run(4) by (simp add: checkStallQueue_def)
  moreover have "ni_flow n4 e4 n5 e5" by (rule receive.flow [OF run(5)])
  moreover have "ni_flow n5 e5 n' e6" by (rule credit.flow [OF run(6)])
  moreover have "calm e6 e'" using run(7) by (auto split: if_splits dest: scheduleEventAbsolute_calm)
  then have "ni_flow n' e6 n' e'" by (rule ni_flow_quiet [OF refl refl _ refl refl])
  ultimately show "ni_flow n e n' e'" using ni_flow_trans by meson
qed

section \<open>The choice of an injection channel\<close>

definition ni_idle :: "NetworkInterface \<Rightarrow> Cycles \<Rightarrow> int \<Rightarrow> bool" where
  "ni_idle n now vc = isInState (m_out_vc_state n ! nat vc) IDLE now"

text \<open>The vectors of an interface have an entry for virtual network \<open>vnet\<close> and for each of its channels.\<close>

definition ni_vnet_ok :: "NetworkInterface \<Rightarrow> int \<Rightarrow> bool" where
  "ni_vnet_ok n vnet \<longleftrightarrow> 0 \<le> vnet \<and> vnet < int (length (m_vc_allocator n)) \<and> vnet < int (length (vc_busy_counter n)) \<and>
     0 < m_vc_per_vnet_ni n \<and> (vnet + 1) * m_vc_per_vnet_ni n \<le> int (length (m_out_vc_state n)) \<and>
     0 \<le> m_vc_allocator n ! nat vnet \<and> m_vc_allocator n ! nat vnet < m_vc_per_vnet_ni n"

text \<open>\<open>j\<close> rounds of the loop look at the \<open>j\<close> channels from the round-robin position on.\<close>

definition calc_vc_ends :: "nat \<Rightarrow> int \<Rightarrow> Cycles \<Rightarrow> NetworkInterface \<Rightarrow> bool" where
  "calc_vc_ends j vnet now n \<longleftrightarrow>
     (let k = m_vc_per_vnet_ni n; d = m_vc_allocator n ! nat vnet; busy = vc_busy_counter n; pos = (\<lambda>i. vnet * k + (d + int i) mod k)
      in if \<exists>i < j. ni_idle n now (pos i)
         then \<exists>i < j. \<exists>al. ni_idle n now (pos i) \<and>
           calc_vc j vnet now n = Some (pos i, n\<lparr>m_vc_allocator := al, vc_busy_counter := busy[nat vnet := 0]\<rparr>)
         else \<exists>al. calc_vc j vnet now n =
           (if m_deadlock_threshold n < busy ! nat vnet + 1 then None
            else Some (-1, n\<lparr>m_vc_allocator := al, vc_busy_counter := busy[nat vnet := busy ! nat vnet + 1]\<rparr>)))"

lemma calc_vc_spec: "ni_vnet_ok n vnet \<Longrightarrow> calc_vc_ends j vnet now n"
proof (induction j arbitrary: n)
  case 0
  then show ?case
    by (auto simp: calc_vc_ends_def ni_vnet_ok_def Let_def vec_add_def vec_at_def vec_set_def cassert_def intro!: exI [of _ "m_vc_allocator n"])
next
  case (Suc j)
  let ?k = "m_vc_per_vnet_ni n" and ?d = "m_vc_allocator n ! nat vnet"
  define d' where "d' = (if ?d + 1 = ?k then 0 else ?d + 1)"
  let ?al = "(m_vc_allocator n)[nat vnet := d']"
  let ?n = "n\<lparr>m_vc_allocator := ?al\<rparr>"
  have ok: "0 \<le> vnet" "vnet < int (length (m_vc_allocator n))" "vnet < int (length (vc_busy_counter n))" "0 < ?k" "0 \<le> ?d" "?d < ?k"
    "(vnet + 1) * ?k \<le> int (length (m_out_vc_state n))"
    using Suc.prems by (auto simp: ni_vnet_ok_def)
  have b: "0 \<le> vnet * ?k" "vnet * ?k + ?k \<le> int (length (m_out_vc_state n))" using ok by (simp_all add: algebra_simps)
  have d': "d' = (?d + 1) mod ?k" "0 \<le> d'" "d' < ?k" using ok by (auto simp: d'_def)
  have n: "ni_vnet_ok ?n vnet" using Suc.prems d' ok by (simp add: ni_vnet_ok_def)
  have step: "(d' + int i) mod ?k = (?d + int (Suc i)) mod ?k" for i
    unfolding d'(1) mod_add_left_eq by (simp add: ac_simps)
  have run: "calc_vc (Suc j) vnet now n =
      (if ni_idle n now (vnet * ?k + ?d)
       then Some (vnet * ?k + ?d, ?n\<lparr>vc_busy_counter := (vc_busy_counter n)[nat vnet := 0]\<rparr>) else calc_vc j vnet now ?n)"
    using ok b by (simp add: vec_at_def vec_set_def ni_idle_def d'_def)
  show ?case
  proof (cases "ni_idle n now (vnet * ?k + ?d)")
    case True
    have "(?d + int 0) mod ?k = ?d" using ok by simp
    then show ?thesis using True run unfolding calc_vc_ends_def Let_def by (auto intro!: exI [of _ 0])
  next
    case False
    have ex: "(\<exists>i < Suc j. ni_idle n now (vnet * ?k + (?d + int i) mod ?k)) \<longleftrightarrow>
        (\<exists>i < j. ni_idle n now (vnet * ?k + (d' + int i) mod ?k))"
      using False ok by (auto simp: step less_Suc_eq_0_disj)
    have "calc_vc_ends j vnet now ?n" using Suc.IH [OF n] .
    then show ?thesis using False run ok unfolding calc_vc_ends_def Let_def ex
      by (auto simp: ni_idle_def step split: if_splits)
  qed
qed
section \<open>Splitting a multicast\<close>

lemma NetDest_clear_elems [simp]: "dest_elems (NetDest_clear d) = {}"
  by (auto simp: NetDest_clear_def dest_elems_def)

definition in_range_of :: "machine_cfg \<Rightarrow> int \<Rightarrow> int \<Rightarrow> bool" where
  "in_range_of mc node m \<longleftrightarrow> MachineType_base_number mc m \<le> node \<and> node < MachineType_base_number mc (m + 1)"

lemma base_number_mono:
  assumes "mc_ok mc" "0 \<le> m" "m \<le> m'" "m' \<le> MachineType_NUM mc"
  shows "MachineType_base_number mc m \<le> MachineType_base_number mc m'"
  using assms(3,4)
proof (induction m' rule: int_ge_induct)
  case (step i)
  then have "MachineType_base_number mc (i + 1) = MachineType_base_number mc i + MachineType_base_count mc i"
    "0 \<le> MachineType_base_count mc i" using assms(1,2) by (auto simp: mc_ok_def)
  then show ?case using step by simp
qed simp

lemma in_range_of_unique:
  assumes "mc_ok mc" "in_range_of mc node m" "in_range_of mc node m'" "m \<in> {0..<MachineType_NUM mc}" "m' \<in> {0..<MachineType_NUM mc}"
  shows "m = m'"
proof (rule ccontr)
  assume "m \<noteq> m'"
  then consider "m + 1 \<le> m'" | "m' + 1 \<le> m" by linarith
  then show False
  proof cases
    case 1
    then show False using base_number_mono [OF assms(1) _ 1] assms(2-5) by (simp add: in_range_of_def)
  next
    case 2
    then show False using base_number_mono [OF assms(1) _ 2] assms(2-5) by (simp add: in_range_of_def)
  qed
qed

lemma personal_dest_spec:
  assumes "personal_dest mc node ms d = Some (p, found)"
  shows "if found then \<exists>m \<in> set ms. in_range_of mc node m \<and>
      dest_elems p = {(nat (MachineType_base_level mc m), nat (node - MachineType_base_number mc m))}
    else \<forall>m \<in> set ms. \<not> in_range_of mc node m"
  using assms
proof (induction ms)
  case (Cons m ms)
  show ?case
  proof (cases "in_range_of mc node m")
    case True
    then obtain r where "NetDest_add mc (NetDest_clear d) \<lparr>mid_type = m, mid_num = node - MachineType_base_number mc m\<rparr> = Some r"
      "p = r" "found" using Cons.prems by (auto simp: bind_Some in_range_of_def)
    then show ?thesis using True NetDest_add_elems by fastforce
  next
    case False
    then have "personal_dest mc node ms d = Some (p, found)"
      using Cons.prems unfolding in_range_of_def by (auto simp del: not_le not_less split: if_splits)
    then show ?thesis using Cons.IH False by auto
  qed
qed simp

text \<open>The node number of machine \<open>j\<close> of type \<open>i\<close>, and a destination set sized for the machines there are.\<close>

definition node_of :: "machine_cfg \<Rightarrow> nat \<times> nat \<Rightarrow> int" where
  "node_of mc = (\<lambda>(i, j). MachineType_base_number mc (int i) + int j)"

definition dest_ok :: "machine_cfg \<Rightarrow> NetDest \<Rightarrow> bool" where
  "dest_ok mc d \<longleftrightarrow> int (length (m_bits d)) = MachineType_NUM mc \<and>
     (\<forall>i < length (m_bits d). set_ok (m_bits d ! i) \<and> m_nSize (m_bits d ! i) = MachineType_base_count mc (int i))"

lemma dest_ok_range:
  assumes "mc_ok mc" "dest_ok mc d" "p \<in> dest_elems d"
  shows "in_range_of mc (node_of mc p) (int (fst p)) \<and> int (fst p) \<in> {0..<MachineType_NUM mc}"
proof -
  obtain i j where p: "p = (i, j)" "i < length (m_bits d)" "j \<in> set_elems (m_bits d ! i)" using assms(3) by (auto simp: dest_elems_def)
  then have "set_ok (m_bits d ! i)" "m_nSize (m_bits d ! i) = MachineType_base_count mc (int i)"
    using assms(2) by (auto simp: dest_ok_def)
  then have "j < nat (MachineType_base_count mc (int i))" using p(3) by (auto simp: set_ok_def)
  then show ?thesis using p assms(1,2) by (auto simp: in_range_of_def node_of_def dest_ok_def mc_ok_def)
qed

lemma node_of_inj:
  assumes "mc_ok mc" "dest_ok mc d" "p \<in> dest_elems d" "q \<in> dest_elems d" "node_of mc p = node_of mc q"
  shows "p = q"
proof -
  have "fst p = fst q"
    using in_range_of_unique [OF assms(1), of "node_of mc p" "int (fst p)" "int (fst q)"]
      dest_ok_range [OF assms(1-3)] dest_ok_range [OF assms(1,2,4)] assms(5) by simp
  then show ?thesis using assms(5) by (auto simp: node_of_def prod_eq_iff split: prod.splits)
qed

lemma split_dest_spec:
  assumes mc: "mc_ok mc" and p: "in_range_of mc (node_of mc p) (int (fst p))" "int (fst p) \<in> {0..<MachineType_NUM mc}"
    and s: "split_dest mc (node_of mc p) k msg = Some (new, msg')" "1 < k"
  shows "dest_elems (Destination new) = {p} \<and> dest_elems (Destination msg') = dest_elems (Destination msg) - {p}"
proof -
  obtain d q found r where run: "personal_dest mc (node_of mc p) [0..MachineType_NUM mc - 1] d = Some (q, found)"
    "NetDest_removeNetDest (Destination msg) q = Some r" "new = (if found then msg\<lparr>Destination := q\<rparr> else msg)"
    "msg' = msg\<lparr>Destination := r\<rparr>"
    using s by (auto simp: split_dest_def bind_Some Let_def)
  have found: "found" using personal_dest_spec [OF run(1)] p by (auto split: if_splits)
  then obtain m where m: "m \<in> {0..<MachineType_NUM mc}" "in_range_of mc (node_of mc p) m"
    "dest_elems q = {(nat (MachineType_base_level mc m), nat (node_of mc p - MachineType_base_number mc m))}"
    using personal_dest_spec [OF run(1)] by auto
  have "m = int (fst p)" using in_range_of_unique [OF mc m(2) p(1) m(1) p(2)] .
  then have "dest_elems q = {p}" using m(3) mc p(2) by (auto simp: mc_ok_def node_of_def split: prod.splits)
  then show ?thesis using run(3,4) found removeNetDest_elems [OF run(2)] by simp
qed
lemma calc_vc_idle:
  assumes "calc_vc k vnet now n = Some (vc, n')" "vc \<noteq> -1"
  shows "0 \<le> vc \<and> vc < int (length (m_out_vc_state n)) \<and> ni_idle n now vc"
  using assms
proof (induction k vnet now n rule: calc_vc.induct)
  case (2 k vnet now n)
  then obtain delta al s where d: "vec_at (m_vc_allocator n) vnet = Some delta"
      "vec_set (m_vc_allocator n) vnet (if delta + 1 = m_vc_per_vnet_ni n then 0 else delta + 1) = Some al"
      "vec_at (m_out_vc_state n) (vnet * m_vc_per_vnet_ni n + delta) = Some s"
    by (auto simp: bind_Some Let_def)
  show ?case
  proof (cases "isInState s IDLE now")
    case True
    then have "vc = vnet * m_vc_per_vnet_ni n + delta" using 2(2) d by (auto simp: bind_Some Let_def)
    then show ?thesis using d(3) True by (auto simp: vec_at_eq_Some ni_idle_def)
  next
    case False
    then have "calc_vc k vnet now (n\<lparr>m_vc_allocator := al\<rparr>) = Some (vc, n')" using 2(2) d by simp
    then show ?thesis using 2(1) [OF d(1,2) _ _ False] d(3) 2(3) by (auto simp: ni_idle_def)
  qed
qed (auto simp: bind_Some)

lemma injection_vc_idle:
  assumes "injection_vc vnet n e = Some (vc, n')" "vc \<noteq> -1"
  shows "0 \<le> vc \<and> vc < int (length (m_out_vc_state n)) \<and> ni_idle n (curCycle e) vc"
proof -
  have "\<exists>v. calculateVC v (curCycle e) n = Some (vc, n')"
    using assms(1) by (auto simp: injection_vc_def bind_Some split: if_splits)
  then show ?thesis using calc_vc_idle assms(2) unfolding calculateVC_def by blast
qed

lemma inject_packet_state:
  assumes "inject_packet router_of vnet vc destID msg new_msg n e = Some (n', e')"
  shows "m_out_vc_state n' = (m_out_vc_state n)[nat vc := ovs_setState ACTIVE (curCycle e) (m_out_vc_state n ! nat vc)]"
proof -
  obtain bs ts st sts s where "vec_at (m_out_vc_state n) vc = Some st"
      "vec_set (m_out_vc_state n) vc (ovs_setState ACTIVE (curCycle e) st) = Some sts"
      "Some (n\<lparr>m_ni_out_vcs := bs, m_ni_out_vcs_enqueue_time := ts, m_out_vc_state := sts\<rparr>, e\<lparr>stats := s\<rparr>) = Some (n', e')"
    using assms unfolding inject_packet_def Let_def bind_Some by (elim exE conjE) (rule that, assumption+)
  then show ?thesis by (auto simp: vec_at_eq_Some vec_set_eq_Some)
qed

text \<open>The packets for the first destinations of \<open>ps\<close>.\<close>

definition injected_for ::
    "machine_cfg \<Rightarrow> int \<Rightarrow> nat \<Rightarrow> (nat \<times> nat) list \<Rightarrow> flit list \<Rightarrow> Message \<Rightarrow> NetworkInterface \<Rightarrow> Cycles \<Rightarrow>
       Message \<Rightarrow> NetworkInterface \<Rightarrow> bool" where
  "injected_for mc vnet k ps fs msg n now msg' n' \<longleftrightarrow>
     ni_flits n' = ni_flits n + mset fs \<and> map (\<lambda>f. dest_ni (m_route f)) fs = map (node_of mc) ps \<and>
     (\<forall>f \<in> set fs. m_type f = HEAD_TAIL \<and> m_vnet f = vnet \<and> 0 \<le> m_vc f \<and> ni_idle n now (m_vc f)) \<and> distinct (map m_vc fs) \<and>
     (1 < k \<longrightarrow> map (\<lambda>f. dest_elems (Destination (m_msg_ptr f))) fs = map (\<lambda>p. {p}) ps \<and>
        dest_elems (Destination msg') = dest_elems (Destination msg) - set ps)"

lemma injected_for_none [simp]: "ni_flits n' = ni_flits n \<Longrightarrow> injected_for mc vnet k [] [] msg n now msg n'"
  by (simp add: injected_for_def)

lemma injected_for_Cons:
  assumes "injected_for mc vnet k ps fs msg1 n2 now msg' n'"
    and f: "ni_flits n2 = add_mset f (ni_flits n)" "dest_ni (m_route f) = node_of mc p" "m_type f = HEAD_TAIL" "m_vnet f = vnet"
      "0 \<le> m_vc f" "m_vc f < int (length (m_out_vc_state n))" "ni_idle n now (m_vc f)"
      "m_out_vc_state n2 = (m_out_vc_state n)[nat (m_vc f) := ovs_setState ACTIVE now (m_out_vc_state n ! nat (m_vc f))]"
    and d: "1 < k \<longrightarrow> dest_elems (Destination (m_msg_ptr f)) = {p} \<and>
      dest_elems (Destination msg1) = dest_elems (Destination msg) - {p}"
  shows "injected_for mc vnet k (p # ps) (f # fs) msg n now msg' n'"
proof -
  have g: "m_vc g \<noteq> m_vc f \<and> ni_idle n now (m_vc g)" if "g \<in> set fs" for g
  proof -
    have g: "0 \<le> m_vc g" "ni_idle n2 now (m_vc g)" using assms(1) that by (auto simp: injected_for_def)
    have "\<not> ni_idle n2 now (m_vc f)" using f(5,6,8) by (simp add: ni_idle_def isInState_def ovs_setState_def)
    then have ne: "m_vc g \<noteq> m_vc f" using g by auto
    then have "nat (m_vc g) \<noteq> nat (m_vc f)" using g(1) f(5) by simp
    then show ?thesis using ne g(2) f(8) by (simp add: ni_idle_def)
  qed
  have "m_vc f \<notin> m_vc ` set fs" "\<forall>g \<in> set fs. ni_idle n now (m_vc g)" by (auto simp: image_iff dest: g)
  then show ?thesis using assms(1) f d by (auto simp: injected_for_def)
qed

lemma flitisize_dests_packets:
  assumes "flitisize_dests mc router_of vnet k (map (node_of mc) ps) msg n e = Some (ok, msg', n', e')" "mc_ok mc"
    "\<forall>p \<in> set ps. in_range_of mc (node_of mc p) (int (fst p)) \<and> int (fst p) \<in> {0..<MachineType_NUM mc}"
  shows "\<exists>fs j. j \<le> length ps \<and> (ok \<longleftrightarrow> j = length ps) \<and> injected_for mc vnet k (take j ps) fs msg n (curCycle e) msg' n'"
  using assms(1,3)
proof (induction ps arbitrary: msg n e)
  case Nil
  then show ?case by (auto intro!: exI [of _ "[]"])
next
  case (Cons p ps)
  obtain vc n1 where v: "injection_vc vnet n e = Some (vc, n1)" using Cons.prems by (auto simp: bind_Some)
  then obtain al busy where n1: "n1 = n\<lparr>m_vc_allocator := al, vc_busy_counter := busy\<rparr>" using injection_vc_frame by blast
  show ?case
  proof (cases "vc = -1")
    case True
    then have "\<not> ok" "msg' = msg" "n' = n1" using Cons.prems v by auto
    then show ?thesis by (auto intro!: exI [of _ "[]"] exI [of _ 0] simp: n1 ni_flits_def)
  next
    case False
    then obtain new_msg msg1 n2 e2 where run: "split_dest mc (node_of mc p) k msg = Some (new_msg, msg1)"
      "inject_packet router_of vnet vc (node_of mc p) msg1 new_msg n1 e = Some (n2, e2)"
      "flitisize_dests mc router_of vnet k (map (node_of mc) ps) msg1 n2 e2 = Some (ok, msg', n', e')"
      using Cons.prems v by (auto simp: bind_Some)
    obtain f bs ts sts st where f: "m_vnet f = vnet" "m_vc f = vc" "m_type f = HEAD_TAIL" "m_msg_ptr f = new_msg"
        "dest_ni (m_route f) = node_of mc p" "0 \<le> vc" "vc < int (length (m_ni_out_vcs n1))"
        "bs = (m_ni_out_vcs n1)[nat vc := fb_insert (m_ni_out_vcs n1 ! nat vc) f]"
        "n2 = n1\<lparr>m_ni_out_vcs := bs, m_ni_out_vcs_enqueue_time := ts, m_out_vc_state := sts\<rparr>" "e2 = e\<lparr>stats := st\<rparr>"
      using run(2) by (rule inject_packet_Some) (rule that)
    have "ni_flits n2 = add_mset f (ni_flits n)"
      using list_update_sum [of "nat vc" "m_ni_out_vcs n" fb_items "fb_insert (m_ni_out_vcs n ! nat vc) f"] f n1
      by (simp add: ni_flits_def fb.items_insert)
    moreover obtain fs j where j: "j \<le> length ps" "ok \<longleftrightarrow> j = length ps"
      "injected_for mc vnet k (take j ps) fs msg1 n2 (curCycle e) msg' n'"
      using Cons.IH [OF run(3)] Cons.prems(2) f(10) by auto
    moreover have "1 < k \<longrightarrow> dest_elems (Destination new_msg) = {p} \<and>
        dest_elems (Destination msg1) = dest_elems (Destination msg) - {p}"
      using split_dest_spec [OF assms(2) _ _ run(1)] Cons.prems(2) by simp
    ultimately have "injected_for mc vnet k (p # take j ps) (f # fs) msg n (curCycle e) msg' n'"
      using f inject_packet_state [OF run(2)] injection_vc_idle [OF v False] n1
      by (intro injected_for_Cons [OF j(3)]) simp_all
    then show ?thesis using j(1,2) by (intro exI [of _ "f # fs"] exI [of _ "Suc j"]) simp
  qed
qed
lemma distinct_rows: "distinct xs \<Longrightarrow> (\<And>i. distinct (r i)) \<Longrightarrow> distinct (concat (map (\<lambda>i. map (Pair i) (r i)) xs))"
  by (induction xs) (auto simp: distinct_map inj_on_def)

lemma getAllDest_nodes:
  assumes "NetDest_getAllDest mc d = Some ds" "\<forall>s \<in> set (m_bits d). set_ok s"
  shows "\<exists>ps. distinct ps \<and> set ps = dest_elems d \<and> ds = map (node_of mc) ps"
proof (intro exI conjI)
  let ?row = "\<lambda>i. filter (\<lambda>j. j \<in> set_elems (m_bits d ! i)) [0..<nat (m_nSize (m_bits d ! i))]"
  let ?ps = "concat (map (\<lambda>i. map (Pair i) (?row i)) [0..<length (m_bits d)])"
  have row: "set (?row i) = set_elems (m_bits d ! i)" if "i < length (m_bits d)" for i
  proof -
    have "set_ok (m_bits d ! i)" using assms(2) that by simp
    then show ?thesis by (auto simp: set_ok_def)
  qed
  show "distinct ?ps" by (rule distinct_rows) simp_all
  show "set ?ps = dest_elems d" using row by (auto simp: dest_elems_def)
  show "ds = map (node_of mc) ?ps" unfolding getAllDest_eq [OF assms(1)] by (simp add: map_concat node_of_def o_def)
qed

section \<open>Properties\<close>

text \<open>C10. Injection of a message, multicast or not: one single-flit packet is made for each destination that finds a free channel, in an
  idle channel of its own, addressed to that machine alone; the message is finished exactly when all destinations are
  served, and a multicast that runs out of channels keeps precisely the destinations that are not.\<close>

theorem multicast_serves_each_destination_once:
  assumes "mc_ok mc" "dest_ok mc (Destination msg)" "flitisizeMessage mc router_of msg vnet n e = Some (ok, msg', n', e')"
  shows "\<exists>ps fs. distinct ps \<and> set ps \<subseteq> dest_elems (Destination msg) \<and> (ok \<longleftrightarrow> set ps = dest_elems (Destination msg)) \<and>
    ni_flits n' = ni_flits n + mset fs \<and> map (\<lambda>f. dest_ni (m_route f)) fs = map (node_of mc) ps \<and>
    (\<forall>f \<in> set fs. m_type f = HEAD_TAIL \<and> m_vnet f = vnet \<and> ni_idle n (curCycle e) (m_vc f)) \<and> distinct (map m_vc fs) \<and>
    (1 < card (dest_elems (Destination msg)) \<longrightarrow>
       map (\<lambda>f. dest_elems (Destination (m_msg_ptr f))) fs = map (\<lambda>p. {p}) ps \<and>
       dest_elems (Destination msg') = dest_elems (Destination msg) - set ps)"
proof -
  obtain ds where ds: "NetDest_getAllDest mc (Destination msg) = Some ds"
    "flitisize_dests mc router_of vnet (length ds) ds msg n e = Some (ok, msg', n', e')"
    using assms(3) by (auto simp: flitisizeMessage_def bind_Some)
  have "\<forall>s \<in> set (m_bits (Destination msg)). set_ok s" using assms(2) by (auto simp: dest_ok_def in_set_conv_nth)
  then obtain ps where ps: "distinct ps" "set ps = dest_elems (Destination msg)" "ds = map (node_of mc) ps"
    using getAllDest_nodes [OF ds(1)] by blast
  have k: "length ds = card (dest_elems (Destination msg))" using ps distinct_card by fastforce
  have "\<forall>p \<in> set ps. in_range_of mc (node_of mc p) (int (fst p)) \<and> int (fst p) \<in> {0..<MachineType_NUM mc}"
    using dest_ok_range [OF assms(1,2)] ps(2) by blast
  then obtain fs j where j: "j \<le> length ps" "ok \<longleftrightarrow> j = length ps"
    "injected_for mc vnet (length ds) (take j ps) fs msg n (curCycle e) msg' n'"
    using flitisize_dests_packets [OF ds(2) [unfolded ps(3)] assms(1)] ps(3) by auto
  have "set (take j ps) = set ps \<longleftrightarrow> j = length ps"
    using j(1) distinct_card [OF ps(1)] distinct_card [OF distinct_take [OF ps(1)], of j]
    by (auto simp: min_def split: if_splits)
  then show ?thesis
    using j ps(1,2) k set_take_subset [of j ps] by (intro exI [of _ "take j ps"] exI [of _ fs]) (auto simp: injected_for_def)
qed

text \<open>C24. \<^verbatim>\<open>calculateVC\<close> returns an idle channel of the virtual network whenever there is one, wherever the round-robin pointer
  stands, and resets the busy counter; otherwise it counts up, returns -1, and stops the simulation as a possible
  deadlock exactly when the count passes the threshold.\<close>

theorem calculateVC_finds_idle:
  assumes "ni_vnet_ok n vnet"
  shows "if \<exists>vc \<in> {vnet * m_vc_per_vnet_ni n..<(vnet + 1) * m_vc_per_vnet_ni n}. ni_idle n now vc
    then \<exists>vc n'. calculateVC vnet now n = Some (vc, n') \<and> ni_idle n now vc \<and>
      vc \<in> {vnet * m_vc_per_vnet_ni n..<(vnet + 1) * m_vc_per_vnet_ni n} \<and> vc_busy_counter n' = (vc_busy_counter n)[nat vnet := 0]
    else if m_deadlock_threshold n < vc_busy_counter n ! nat vnet + 1 then calculateVC vnet now n = None
    else \<exists>n'. calculateVC vnet now n = Some (-1, n') \<and>
      vc_busy_counter n' = (vc_busy_counter n)[nat vnet := vc_busy_counter n ! nat vnet + 1]"
proof -
  let ?k = "m_vc_per_vnet_ni n" and ?d = "m_vc_allocator n ! nat vnet"
  have k: "0 < ?k" "0 \<le> ?d" "?d < ?k" using assms by (auto simp: ni_vnet_ok_def)
  have reach: "(\<exists>i < nat ?k. ni_idle n now (vnet * ?k + (?d + int i) mod ?k)) \<longleftrightarrow>
      (\<exists>vc \<in> {vnet * ?k..<(vnet + 1) * ?k}. ni_idle n now vc)" (is "?L \<longleftrightarrow> ?R")
  proof
    assume ?L
    then obtain i where i: "ni_idle n now (vnet * ?k + (?d + int i) mod ?k)" by blast
    have "0 \<le> (?d + int i) mod ?k" "(?d + int i) mod ?k < ?k" using k(1) by simp_all
    then show ?R using i by (intro bexI [of _ "vnet * ?k + (?d + int i) mod ?k"]) (auto simp: algebra_simps)
  next
    assume ?R
    then obtain vc where vc: "ni_idle n now vc" "vnet * ?k \<le> vc" "vc < vnet * ?k + ?k" by (auto simp: algebra_simps)
    let ?i = "nat ((vc - vnet * ?k - ?d) mod ?k)"
    have "int ?i = (vc - vnet * ?k - ?d) mod ?k" "?i < nat ?k" using k(1) by simp_all
    then have "(?d + int ?i) mod ?k = vc - vnet * ?k" using vc(2,3) by (simp add: mod_add_right_eq)
    then show ?L using vc(1) \<open>?i < nat ?k\<close> by (intro exI [of _ ?i]) simp
  qed
  have in_range: "vnet * ?k + (?d + int i) mod ?k \<in> {vnet * ?k..<(vnet + 1) * ?k}" for i using k(1) by (simp add: algebra_simps)
  show ?thesis
    using calc_vc_spec [OF assms, of "nat ?k" now] in_range
    unfolding calculateVC_def calc_vc_ends_def Let_def reach
    by (cases "calc_vc (nat ?k) vnet now n") (auto split: if_splits)
qed

text \<open>An interface with two channels and a message for both machines of a system.\<close>

definition sample_ni :: NetworkInterface where
  "sample_ni = (NetworkInterface_new 0 1 2 10)\<lparr>m_out_vc_state :=
     [\<lparr>m_id_ovs = 0, m_time_ovs = 0, m_vc_state_ovs = IDLE, m_credit_count = 1, m_max_credit_count = 1\<rparr>,
      \<lparr>m_id_ovs = 1, m_time_ovs = 0, m_vc_state_ovs = IDLE, m_credit_count = 1, m_max_credit_count = 1\<rparr>]\<rparr>"

theorem calculateVC_finds_idle_witness:
  "ni_vnet_ok sample_ni 0 \<and> (\<exists>vc n'. calculateVC 0 5 sample_ni = Some (vc, n') \<and> ni_idle sample_ni 5 vc \<and> vc \<in> {0..<2})"
proof -
  have ok: "ni_vnet_ok sample_ni 0" by (simp add: ni_vnet_ok_def sample_ni_def NetworkInterface_new_def)
  have k: "m_vc_per_vnet_ni sample_ni = 2" by (simp add: sample_ni_def NetworkInterface_new_def)
  have idle: "\<exists>vc \<in> {0 * m_vc_per_vnet_ni sample_ni..<(0 + 1) * m_vc_per_vnet_ni sample_ni}. ni_idle sample_ni 5 vc"
    by (intro bexI [of _ 0]) (simp_all add: ni_idle_def isInState_def sample_ni_def NetworkInterface_new_def)
  show ?thesis using calculateVC_finds_idle [OF ok, of 5, unfolded if_P [OF idle]] ok k by auto
qed

definition sample_multicast :: Message where
  "sample_multicast = Message_new 0 (sample_dest 3) Control"

lemmas flitisize_run_defs = flitisizeMessage_def NetDest_getAllDest_def Set_isElement_def bs_ok_def num_flits_of_def
  injection_vc_def calculateVC_def isInState_def split_dest_def inject_packet_def increment_injected_packets_def
  increment_injected_flits_def flit_new_def flit_updates flit_uninit_def fb_insert_def cyc_sub_def ovs_setState_def

lemma sample_three_bits: "bit (3 :: 256 word) i \<Longrightarrow> i < 2"
proof -
  have three: "(3 :: 256 word) = mask 2" by (simp add: mask_eq_exp_minus_1)
  show "bit (3 :: 256 word) i \<Longrightarrow> i < 2" unfolding three bit_mask_iff by blast
qed

lemma sample_multicast_run:
  "\<exists>n' e' msg'. flitisizeMessage sample_mc (\<lambda>_. Some 0) sample_multicast 0 sample_ni (sample_env 5) = Some (True, msg', n', e')"
  by (simp add: flitisize_run_defs sample_multicast_def sample_mc_def sample_dest_def sample_ni_def NetworkInterface_new_def
      sample_env_def sample_cfg_def Message_new_def net_stats_init_def heap_one flitBuffer_new_def ticksToCycles_def
      NetDest_resize_def NetDest_removeNetDest_def NetDest_add_def NetDest_clear_def Set_setSize_def Set_add_def Set_clear_def
      Set_removeSet_def vecIndex_def Let_def upto.simps numeral_2_eq_2 Suc_less_eq)

theorem multicast_serves_each_destination_once_witness:
  "\<exists>n' ps fs. distinct ps \<and> set ps = dest_elems (sample_dest 3) \<and> ni_flits n' = ni_flits sample_ni + mset fs \<and>
     map (\<lambda>f. dest_ni (m_route f)) fs = map (node_of sample_mc) ps \<and> distinct (map m_vc fs)"
proof -
  have d: "Destination sample_multicast = sample_dest 3" by (simp add: sample_multicast_def Message_new_def)
  have ok: "mc_ok sample_mc" "dest_ok sample_mc (Destination sample_multicast)"
    unfolding d using sample_three_bits
    by (auto simp: mc_ok_def sample_mc_def dest_ok_def sample_dest_def set_ok_def set_elems_def)
  obtain n' e' msg' where
    run: "flitisizeMessage sample_mc (\<lambda>_. Some 0) sample_multicast 0 sample_ni (sample_env 5) = Some (True, msg', n', e')"
    using sample_multicast_run by blast
  show ?thesis using multicast_serves_each_destination_once [OF ok run] unfolding d by blast
qed

end
