(* ===== verification/Event_Queue.thy ===== *)
theory Event_Queue
  imports Std_Heap "HOL-Library.Product_Lexorder"
begin

text \<open>
  \<^verbatim>\<open>class EventQueue\<close> (sim/eventq.hh, eventq_impl.hh, eventq.cc), as a single-threaded simulation uses
  it. The linked structure is a list of bins, ordered by time and priority and linked by \<^verbatim>\<open>nextBin\<close>; a
  bin is a stack of events with the same time and priority, linked by \<^verbatim>\<open>nextInBin\<close>, written as its top
  and the events below. A stale \<^verbatim>\<open>nextBin\<close> of an event that is not a top is never read, so it has no
  counterpart.

  Shown: the structure refines a sorted list in which a new event goes in front of the events with
  the same time and priority, so events are served by time, then priority, and last in, first
  out within both.
\<close>

record 'a event =
  ev_obj :: 'a
  ev_when :: Tick
  ev_priority :: int
  ev_squashed :: bool

definition event_lt :: "'a event \<Rightarrow> 'a event \<Rightarrow> bool" where
  "event_lt l r \<longleftrightarrow> ev_when l < ev_when r \<or> ev_when l = ev_when r \<and> ev_priority l < ev_priority r"

definition event_le :: "'a event \<Rightarrow> 'a event \<Rightarrow> bool" where
  "event_le l r \<longleftrightarrow> ev_when l < ev_when r \<or> ev_when l = ev_when r \<and> ev_priority l \<le> ev_priority r"

definition event_eq :: "'a event \<Rightarrow> 'a event \<Rightarrow> bool" where
  "event_eq l r \<longleftrightarrow> ev_when l = ev_when r \<and> ev_priority l = ev_priority r"

type_synonym 'a bins = "('a event \<times> 'a event list) list"

record 'a EventQueue =
  eq_head :: "'a bins"
  eq_curTick :: Tick

section \<open>Operations\<close>

fun insertBefore :: "'a event \<Rightarrow> 'a bins \<Rightarrow> 'a bins" where
  "insertBefore event [] = [(event, [])]"
| "insertBefore event ((cur, below) # next) =
     (if event_lt event cur then (event, []) # (cur, below) # next
      else (event, cur # below) # next)"

text \<open>The test on the head, and then the loop over \<^verbatim>\<open>nextBin\<close> while \<^verbatim>\<open>*curr < *event\<close>.\<close>

fun insert_after :: "'a event \<Rightarrow> 'a bins \<Rightarrow> 'a bins" where
  "insert_after event [] = insertBefore event []"
| "insert_after event ((cur, below) # next) =
     (if event_lt cur event then (cur, below) # insert_after event next
      else insertBefore event ((cur, below) # next))"

definition ev_insert :: "'a bins \<Rightarrow> 'a event \<Rightarrow> 'a bins" where
  "ev_insert q event =
     (case q of
        [] \<Rightarrow> insertBefore event []
      | (front, below) # next \<Rightarrow>
          if event_le event front then insertBefore event ((front, below) # next)
          else (front, below) # insert_after event next)"

text \<open>\<^verbatim>\<open>removeItem\<close> takes an event out of one stack; the result is the bin that replaces it, if any.\<close>

fun remove_below :: "'a event \<Rightarrow> 'a event list \<Rightarrow> 'a event list option" where
  "remove_below event [] = None"
| "remove_below event (next # rest) =
     (if event = next then Some rest
      else do { rest \<leftarrow> remove_below event rest; Some (next # rest) })"

fun removeItem :: "'a event \<Rightarrow> 'a event \<times> 'a event list \<Rightarrow> 'a bins option" where
  "removeItem event (front, below) =
     (if event = front
      then (case below of [] \<Rightarrow> Some [] | next # rest \<Rightarrow> Some [(next, rest)])
      else do { below \<leftarrow> remove_below event below; Some [(front, below)] })"

fun remove_after :: "'a event \<Rightarrow> 'a bins \<Rightarrow> 'a bins option" where
  "remove_after event [] = None"
| "remove_after event ((cur, below) # next) =
     (if event_lt cur event then do { next \<leftarrow> remove_after event next; Some ((cur, below) # next) }
      else if event_eq cur event then do { b \<leftarrow> removeItem event (cur, below); Some (b @ next) }
      else None)"

definition ev_remove :: "'a event \<Rightarrow> 'a bins \<Rightarrow> 'a bins option" where
  "ev_remove event q =
     (case q of
        [] \<Rightarrow> None
      | (front, below) # next \<Rightarrow>
          if event_eq front event then do { b \<leftarrow> removeItem event (front, below); Some (b @ next) }
          else do { next \<leftarrow> remove_after event next; Some ((front, below) # next) })"

text \<open>The event taken off the queue, in \<^verbatim>\<open>serviceOne\<close>; the call on an empty queue is a null dereference.\<close>

fun ev_pop :: "'a bins \<Rightarrow> ('a event \<times> 'a bins) option" where
  "ev_pop [] = None"
| "ev_pop ((event, []) # next) = Some (event, next)"
| "ev_pop ((event, e # rest) # next) = Some (event, (e, rest) # next)"

text \<open>\<^verbatim>\<open>serviceOne\<close> up to the call of \<^verbatim>\<open>process()\<close>: the object to process, unless it was squashed.\<close>

definition serviceOne :: "'a EventQueue \<Rightarrow> ('a option \<times> 'a EventQueue) option" where
  "serviceOne q = do {
     (event, bins) \<leftarrow> ev_pop (eq_head q);
     if \<not> ev_squashed event then Some (Some (ev_obj event), q\<lparr>eq_head := bins, eq_curTick := ev_when event\<rparr>)
     else Some (None, q\<lparr>eq_head := bins\<rparr>) }"

definition ev_schedule :: "'a event \<Rightarrow> Tick \<Rightarrow> 'a EventQueue \<Rightarrow> 'a EventQueue option" where
  "ev_schedule event when q = do {
     cassert (when \<ge> eq_curTick q);
     Some (q\<lparr>eq_head := ev_insert (eq_head q) (event\<lparr>ev_when := when\<rparr>)\<rparr>) }"

definition deschedule :: "'a event \<Rightarrow> 'a EventQueue \<Rightarrow> 'a EventQueue option" where
  "deschedule event q = do {
     bins \<leftarrow> ev_remove event (eq_head q);
     Some (q\<lparr>eq_head := bins\<rparr>) }"

text \<open>\<open>scheduled\<close> is the event's flag: it is set while the event is in the queue.\<close>

definition reschedule :: "bool \<Rightarrow> 'a event \<Rightarrow> Tick \<Rightarrow> bool \<Rightarrow> 'a EventQueue \<Rightarrow> 'a EventQueue option" where
  "reschedule scheduled event when always q = do {
     cassert (when \<ge> eq_curTick q);
     cassert (always \<or> scheduled);
     q \<leftarrow> (if scheduled then deschedule event q else Some q);
     Some (q\<lparr>eq_head := ev_insert (eq_head q) (event\<lparr>ev_when := when, ev_squashed := False\<rparr>)\<rparr>) }"

section \<open>The queue as a sorted list\<close>

definition ev_key :: "'a event \<Rightarrow> Tick \<times> int" where
  "ev_key e = (ev_when e, ev_priority e)"

lemma event_order_key:
  "event_lt l r \<longleftrightarrow> ev_key l < ev_key r" "event_le l r \<longleftrightarrow> ev_key l \<le> ev_key r"
  "event_eq l r \<longleftrightarrow> ev_key l = ev_key r"
  by (auto simp: event_lt_def event_le_def event_eq_def ev_key_def less_prod_def less_eq_prod_def)

definition bin_events :: "'a event \<times> 'a event list \<Rightarrow> 'a event list" where
  "bin_events b = fst b # snd b"

text \<open>The events in the order in which they will be served.\<close>

definition events :: "'a bins \<Rightarrow> 'a event list" where
  "events q = concat (map bin_events q)"

lemma events_simps [simp]:
  "events [] = []" "events ((e, below) # q) = e # below @ events q" "events (p @ q) = events p @ events q"
  by (simp_all add: events_def bin_events_def)

fun bins_ok :: "'a bins \<Rightarrow> bool" where
  "bins_ok [] \<longleftrightarrow> True"
| "bins_ok ((e, below) # q) \<longleftrightarrow> (\<forall>x \<in> set below. ev_key x = ev_key e) \<and>
     (\<forall>x \<in> set (events q). ev_key e < ev_key x) \<and> bins_ok q"

lemma bins_ok_sorted: "bins_ok q \<Longrightarrow> sorted (map ev_key (events q))"
proof (induction q rule: bins_ok.induct)
  case (2 e below q)
  have "map ev_key below = replicate (length below) (ev_key e)"
    using 2(2) by (intro replicate_eqI) auto
  moreover have "\<forall>x \<in> set (events q). ev_key e \<le> ev_key x" using 2(2) by (auto simp: less_imp_le)
  ultimately show ?case using 2 by (auto simp: sorted_append)
qed simp

text \<open>\<^verbatim>\<open>insert\<close>: into the sorted list, in front of its equals.\<close>

lemma insort_before: "(\<forall>y \<in> set ys. f x \<le> f y) \<Longrightarrow> insort_key f x ys = x # ys"
  by (cases ys) simp_all

lemma insort_after:
  "(\<forall>y \<in> set xs. f y < f x) \<Longrightarrow> insort_key f x (xs @ ys) = xs @ insort_key f x ys"
  by (induction xs) (auto simp: not_le)

lemma insertBefore_events:
  assumes "bins_ok ((c, b) # q)" "ev_key e \<le> ev_key c"
  shows "events (insertBefore e ((c, b) # q)) = insort_key ev_key e (events ((c, b) # q)) \<and> bins_ok (insertBefore e ((c, b) # q))"
proof -
  have "\<forall>y \<in> set (events ((c, b) # q)). ev_key e \<le> ev_key y" using assms by fastforce
  then have "insort_key ev_key e (events ((c, b) # q)) = e # events ((c, b) # q)" by (rule insort_before)
  then show ?thesis using assms by (fastforce simp: event_order_key)
qed

lemma set_insort_events: "set (insort_key f x ys) = insert x (set ys)"
  by (induction ys) auto

lemma insert_after_events:
  "bins_ok q \<Longrightarrow> events (insert_after e q) = insort_key ev_key e (events q) \<and> bins_ok (insert_after e q)"
proof (induction e q rule: insert_after.induct)
  case (2 e c b q)
  show ?case
  proof (cases "event_lt c e")
    case True
    then have "\<forall>y \<in> set (c # b). ev_key y < ev_key e" using 2(2) by (auto simp: event_order_key)
    then have "insort_key ev_key e ((c # b) @ events q) = (c # b) @ insort_key ev_key e (events q)" by (rule insort_after)
    then show ?thesis using 2 True by (auto simp: event_order_key set_insort_events)
  next
    case False
    then have "insert_after e ((c, b) # q) = insertBefore e ((c, b) # q)" "ev_key e \<le> ev_key c"
      by (simp_all add: event_order_key)
    then show ?thesis using insertBefore_events [OF 2(2)] by simp
  qed
qed simp

lemma ev_insert_events:
  assumes "bins_ok q"
  shows "events (ev_insert q e) = insort_key ev_key e (events q) \<and> bins_ok (ev_insert q e)"
proof (cases q)
  case (Cons p q')
  obtain c b where p: "p = (c, b)" by (cases p)
  show ?thesis
  proof (cases "event_le e c")
    case True
    then show ?thesis using assms insertBefore_events [of c b q' e] by (simp add: Cons p ev_insert_def event_order_key)
  next
    case False
    then have "ev_insert q e = insert_after e q" by (auto simp: Cons p ev_insert_def event_order_key)
    then show ?thesis using insert_after_events [OF assms] by simp
  qed
qed (simp add: ev_insert_def)

text \<open>\<^verbatim>\<open>serviceOne\<close> takes the first event.\<close>

lemma ev_pop_Some: "ev_pop q = Some (e, q') \<Longrightarrow> events q = e # events q'"
  by (cases q rule: ev_pop.cases) auto

lemma ev_pop_None: "ev_pop q = None \<longleftrightarrow> events q = []"
  by (cases q rule: ev_pop.cases) auto

lemma ev_pop_ok: "bins_ok q \<Longrightarrow> ev_pop q = Some (e, q') \<Longrightarrow> bins_ok q'"
  by (cases q rule: ev_pop.cases) auto

text \<open>\<^verbatim>\<open>remove\<close> finds an event exactly when it is there.\<close>

lemma remove_below_eq: "remove_below e xs = (if e \<in> set xs then Some (remove1 e xs) else None)"
  by (induction e xs rule: remove_below.induct) auto

lemma removeItem_events:
  "removeItem e (c, b) = None \<longleftrightarrow> e \<notin> set (c # b)"
  "removeItem e (c, b) = Some bs \<Longrightarrow> events bs = remove1 e (c # b) \<and> (\<forall>q. bins_ok ((c, b) # q) \<longrightarrow> bins_ok (bs @ q))"
  by (auto simp: remove_below_eq split: list.splits if_splits dest: notin_set_remove1)
    (metis notin_set_remove1)

lemma remove_after_events:
  assumes "bins_ok q"
  shows "(remove_after e q = None \<longleftrightarrow> e \<notin> set (events q)) \<and>
    (\<forall>q'. remove_after e q = Some q' \<longrightarrow> events q' = remove1 e (events q) \<and> bins_ok q')"
  using assms
proof (induction e q rule: remove_after.induct)
  case (2 e c b q)
  have key: "x \<in> set (c # b) \<Longrightarrow> ev_key x = ev_key c" "x \<in> set (events q) \<Longrightarrow> ev_key c < ev_key x" and q: "bins_ok q" for x
    using 2(2) by auto
  consider (lt) "ev_key c < ev_key e" | (eq) "ev_key c = ev_key e" | (gt) "ev_key e < ev_key c" by force
  then show ?case
  proof cases
    case lt
    then have out: "e \<notin> set (c # b)" using key(1) [of e] by auto
    have step: "remove_after e ((c, b) # q) = map_option (\<lambda>q'. (c, b) # q') (remove_after e q)"
      using lt by (cases "remove_after e q") (simp_all add: event_order_key)
    have IH: "remove_after e q = None \<longleftrightarrow> e \<notin> set (events q)"
      "remove_after e q = Some q' \<Longrightarrow> events q' = remove1 e (events q) \<and> bins_ok q'" for q'
      using 2(1) lt q by (auto simp: event_order_key)
    have "bins_ok ((c, b) # q')" if "remove_after e q = Some q'" for q'
      using IH(2) [OF that] 2(2) set_remove1_subset [of e "events q"] by auto
    then show ?thesis using IH out unfolding step by (auto simp: remove1_append)
  next
    case eq
    then have "e \<notin> set (events q)" using key(2) [of e] by auto
    moreover have step: "remove_after e ((c, b) # q) = map_option (\<lambda>bs. bs @ q) (removeItem e (c, b))"
      using eq by (cases "removeItem e (c, b)") (simp_all add: event_order_key)
    ultimately show ?thesis using removeItem_events [of e c b] 2(2) unfolding step by (auto simp: remove1_append simp del: removeItem.simps)
  next
    case gt
    then have "e \<notin> set (events ((c, b) # q))" using key(1) [of e] key(2) [of e] by auto
    moreover have "remove_after e ((c, b) # q) = None" using gt by (auto simp: event_order_key)
    ultimately show ?thesis by simp
  qed
qed simp

lemma ev_remove_events:
  assumes "bins_ok q"
  shows "ev_remove e q = None \<longleftrightarrow> e \<notin> set (events q)"
    and "ev_remove e q = Some q' \<Longrightarrow> events q' = remove1 e (events q) \<and> bins_ok q'"
proof -
  have "ev_remove e q = remove_after e q"
  proof (cases q)
    case (Cons p r)
    obtain c b where p: "p = (c, b)" by (cases p)
    have "remove_after e r = None" if "ev_key e < ev_key c"
    proof -
      have "\<forall>x \<in> set (events r). ev_key e < ev_key x" using assms that Cons p by force
      then have "e \<notin> set (events r)" by blast
      then show ?thesis using remove_after_events [of r e] assms Cons p by simp
    qed
    then show ?thesis by (auto simp: Cons p ev_remove_def event_order_key not_less)
  qed (simp add: ev_remove_def)
  then show "ev_remove e q = None \<longleftrightarrow> e \<notin> set (events q)"
    and "ev_remove e q = Some q' \<Longrightarrow> events q' = remove1 e (events q) \<and> bins_ok q'"
    using remove_after_events [OF assms, of e] by auto
qed

text \<open>The queue is an instance of the interface of time-ordered buffers.\<close>

lemma mset_insertBefore: "mset (events (insertBefore e q)) = add_mset e (mset (events q))"
  by (cases "(e, q)" rule: insertBefore.cases) simp_all

lemma mset_insert_after: "mset (events (insert_after e q)) = add_mset e (mset (events q))"
  by (induction e q rule: insert_after.induct) (simp_all del: insertBefore.simps add: mset_insertBefore)

lemma mset_ev_insert: "mset (events (ev_insert q e)) = add_mset e (mset (events q))"
  by (auto simp: ev_insert_def mset_insertBefore mset_insert_after split: list.splits simp del: insertBefore.simps)

interpretation evq: prio_buffer "\<lambda>l r. event_lt r l" "\<lambda>q. mset (events q)" bins_ok ev_insert ev_pop
proof
  show "mset (events (ev_insert q e)) = add_mset e (mset (events q))" for q and e :: "'a event" by (rule mset_ev_insert)
  show "bins_ok q \<Longrightarrow> bins_ok (ev_insert q e)" for q and e :: "'a event" using ev_insert_events by blast
  show "ev_pop q = None \<longleftrightarrow> mset (events q) = {#}" for q :: "'a bins" by (simp add: ev_pop_None)
  show "ev_pop q = Some (e, q') \<Longrightarrow> mset (events q) = add_mset e (mset (events q'))" for q q' and e :: "'a event"
    using ev_pop_Some [of q e q'] by simp
  show "bins_ok q \<Longrightarrow> ev_pop q = Some (e, q') \<Longrightarrow> bins_ok q'" for q q' and e :: "'a event" by (rule ev_pop_ok)
  show "\<not> event_lt y e" if "bins_ok q" "ev_pop q = Some (e, q')" "y \<in># mset (events q)" for q q' and e y :: "'a event"
    using bins_ok_sorted [OF that(1)] ev_pop_Some [OF that(2)] that(3) by (auto simp: event_order_key not_less)
qed

lemma drain_events: "drain ev_pop n q = take n (events q)"
proof (induction n arbitrary: q)
  case (Suc n)
  show ?case
  proof (cases "ev_pop q")
    case None
    then show ?thesis using ev_pop_None [of q] by simp
  next
    case (Some p)
    then obtain e q' where "ev_pop q = Some (e, q')" by (cases p) auto
    then show ?thesis using Suc ev_pop_Some by fastforce
  qed
qed simp

lemma schedule_all_events:
  "bins_ok q \<Longrightarrow> events (foldl ev_insert q es) = foldr (insort_key ev_key) (rev es) (events q) \<and> bins_ok (foldl ev_insert q es)"
proof (induction es arbitrary: q)
  case (Cons e es)
  then show ?case using ev_insert_events [OF Cons.prems, of e] by simp
qed simp

text \<open>Time only moves forward.\<close>

definition eq_ok :: "'a EventQueue \<Rightarrow> bool" where
  "eq_ok q \<longleftrightarrow> bins_ok (eq_head q) \<and> (\<forall>e \<in> set (events (eq_head q)). eq_curTick q \<le> ev_when e)"

lemma ev_schedule_ok: "eq_ok q \<Longrightarrow> ev_schedule e t q = Some q' \<Longrightarrow> eq_ok q' \<and> eq_curTick q' = eq_curTick q"
  using ev_insert_events [of "eq_head q" "e\<lparr>ev_when := t\<rparr>"]
  by (auto simp: ev_schedule_def eq_ok_def bind_Some set_insort_events)

lemma deschedule_ok: "eq_ok q \<Longrightarrow> deschedule e q = Some q' \<Longrightarrow> eq_ok q' \<and> eq_curTick q' = eq_curTick q"
  using ev_remove_events(2) [of "eq_head q" e] set_remove1_subset [of e "events (eq_head q)"]
  by (fastforce simp: deschedule_def eq_ok_def bind_Some)

lemma reschedule_ok:
  assumes "eq_ok q" "reschedule s e t always q = Some q'"
  shows "eq_ok q' \<and> eq_curTick q' = eq_curTick q"
proof -
  obtain q1 where q1: "eq_curTick q \<le> t" "(if s then deschedule e q else Some q) = Some q1"
      "q' = q1\<lparr>eq_head := ev_insert (eq_head q1) (e\<lparr>ev_when := t, ev_squashed := False\<rparr>)\<rparr>"
    using assms(2) by (auto simp: reschedule_def bind_Some)
  have "eq_ok q1 \<and> eq_curTick q1 = eq_curTick q" using q1(2) assms(1) deschedule_ok by (cases s) auto
  then show ?thesis using q1(1,3) ev_insert_events [of "eq_head q1" "e\<lparr>ev_when := t, ev_squashed := False\<rparr>"]
    by (auto simp: eq_ok_def set_insort_events)
qed

lemma serviceOne_ok:
  assumes "eq_ok q" "serviceOne q = Some (ob, q')"
  shows "eq_ok q' \<and> eq_curTick q \<le> eq_curTick q'"
proof -
  obtain e bs where p: "ev_pop (eq_head q) = Some (e, bs)" using assms(2) by (auto simp: serviceOne_def bind_Some)
  have ok: "bins_ok bs" "events (eq_head q) = e # events bs" "\<forall>y \<in> set (events bs). ev_when e \<le> ev_when y"
    using ev_pop_ok [OF _ p] ev_pop_Some [OF p] evq.pop_least [OF _ p] assms(1)
    by (auto simp: eq_ok_def event_lt_def not_less) 
  then show ?thesis using assms p by (auto simp: serviceOne_def eq_ok_def split: if_splits)
qed

section \<open>Properties\<close>

text \<open>C19. The event queue serves pending events by time, then by priority, and the last scheduled first among
  equals: emptying a queue that was filled with \<open>es\<close> gives the stable sort of \<open>es\<close> reversed.\<close>

theorem event_service_order:
  "drain ev_pop (length es) (foldl ev_insert [] es) = sort_key ev_key (rev es)"
proof -
  have "events (foldl ev_insert [] es) = sort_key ev_key (rev es)"
    using schedule_all_events [of "[]" es] by (simp add: sort_key_def)
  then show ?thesis by (simp add: drain_events)
qed

text \<open>C18. \<^verbatim>\<open>EventQueue::remove\<close> finds an event exactly when it is pending (otherwise it panics) and takes out
  that event alone, without changing the order of the others; \<^verbatim>\<open>insert\<close> puts an event in front of
  the events with the same time and priority.\<close>

theorem event_queue_refines_sorted_list:
  assumes "bins_ok q"
  shows "events (ev_insert q e) = insort_key ev_key e (events q) \<and>
    map_option events (ev_remove e q) = (if e \<in> set (events q) then Some (remove1 e (events q)) else None) \<and>
    map_option (map_prod id events) (ev_pop q) = (case events q of [] \<Rightarrow> None | x # xs \<Rightarrow> Some (x, xs))"
proof (intro conjI)
  show "events (ev_insert q e) = insort_key ev_key e (events q)" using ev_insert_events [OF assms] by blast
  show "map_option events (ev_remove e q) = (if e \<in> set (events q) then Some (remove1 e (events q)) else None)"
    using ev_remove_events [OF assms, of e] by (cases "ev_remove e q") auto
  show "map_option (map_prod id events) (ev_pop q) = (case events q of [] \<Rightarrow> None | x # xs \<Rightarrow> Some (x, xs))"
    by (cases q rule: ev_pop.cases) simp_all
qed

definition sample_event :: "nat \<Rightarrow> Tick \<Rightarrow> nat event" where
  "sample_event i t = \<lparr>ev_obj = i, ev_when = t, ev_priority = 0, ev_squashed = False\<rparr>"

theorem event_queue_refines_sorted_list_witness:
  "let q = [(sample_event 2 5, [sample_event 1 5])]; e = sample_event 1 5 in
     bins_ok q \<and> events (ev_insert q e) = insort_key ev_key e (events q) \<and>
     map_option events (ev_remove e q) = (if e \<in> set (events q) then Some (remove1 e (events q)) else None) \<and>
     map_option (map_prod id events) (ev_pop q) = (case events q of [] \<Rightarrow> None | x # xs \<Rightarrow> Some (x, xs))"
proof -
  have ok: "bins_ok [(sample_event 2 5, [sample_event 1 5])]" by (simp add: sample_event_def ev_key_def)
  show ?thesis using ok event_queue_refines_sorted_list [OF ok, of "sample_event 1 5"] by (simp only: Let_def simp_thms)
qed

text \<open>C20. Simulated time never runs backwards: as long as events are scheduled no earlier than the current
  tick, which \<^verbatim>\<open>schedule\<close> and \<^verbatim>\<open>reschedule\<close> assert, every operation keeps all pending events at or after the
  current tick, and \<^verbatim>\<open>serviceOne\<close> moves the current tick forward only.\<close>

theorem event_time_monotone:
  assumes "eq_ok q"
  shows "(\<forall>e t q'. ev_schedule e t q = Some q' \<longrightarrow> eq_ok q' \<and> eq_curTick q' = eq_curTick q) \<and>
    (\<forall>e q'. deschedule e q = Some q' \<longrightarrow> eq_ok q' \<and> eq_curTick q' = eq_curTick q) \<and>
    (\<forall>s e t a q'. reschedule s e t a q = Some q' \<longrightarrow> eq_ok q' \<and> eq_curTick q' = eq_curTick q) \<and>
    (\<forall>ob q'. serviceOne q = Some (ob, q') \<longrightarrow> eq_ok q' \<and> eq_curTick q \<le> eq_curTick q')"
  using assms ev_schedule_ok deschedule_ok reschedule_ok serviceOne_ok by blast

definition sample_eq :: "nat EventQueue" where
  "sample_eq = \<lparr>eq_head = [(sample_event 2 5, [sample_event 1 5])], eq_curTick = 3\<rparr>"

theorem event_time_monotone_witness:
  "eq_ok sample_eq \<and> serviceOne sample_eq = Some (Some 2, \<lparr>eq_head = [(sample_event 1 5, [])], eq_curTick = 5\<rparr>) \<and>
   eq_ok \<lparr>eq_head = [(sample_event 1 5, [])], eq_curTick = 5\<rparr>"
proof -
  have ok: "eq_ok sample_eq" by (simp add: eq_ok_def sample_eq_def sample_event_def ev_key_def)
  have s: "serviceOne sample_eq = Some (Some 2, \<lparr>eq_head = [(sample_event 1 5, [])], eq_curTick = 5\<rparr>)"
    by (simp add: serviceOne_def sample_eq_def sample_event_def)
  show ?thesis using ok s event_time_monotone [OF ok] by blast
qed

end
