(* ===== verification/Wake_Queue.thy ===== *)
theory Wake_Queue
  imports Garnet_Env Event_Queue
begin

text \<open>
  The wake-ups that consumers have asked for (Garnet_Env), as events of the simulator's event queue (Event_Queue), and
  the clock that follows the event being served.
\<close>

text \<open>The pending wake-ups as the simulator's event queue: all of them have the default priority.\<close>

definition wake_event :: "Tick \<times> consumer \<Rightarrow> consumer event" where
  "wake_event p = \<lparr>ev_obj = snd p, ev_when = fst p, ev_priority = 0, ev_squashed = False\<rparr>"

definition pending :: "env \<Rightarrow> consumer bins" where
  "pending e = foldl ev_insert [] (map wake_event (event_queue e))"

text \<open>\<^verbatim>\<open>Clocked::update\<close>: the cycle counter follows the current tick, rounded up to a clock edge.\<close>

definition clock_update :: "Tick \<Rightarrow> env \<Rightarrow> env" where
  "clock_update t e = e\<lparr>curCycle := max (curCycle e) (ticksToCycles e t)\<rparr>"

lemma ticksToCycles_edge:
  assumes "0 < clockPeriod (cfg e)"
  shows "t \<le> ticksToCycles e t * clockPeriod (cfg e)"
proof -
  let ?p = "clockPeriod (cfg e)"
  have "t + ?p - 1 < ((t + ?p - 1) div ?p + 1) * ?p" using dividend_less_div_times [OF assms] by (simp add: algebra_simps)
  then show ?thesis using assms by (simp add: ticksToCycles_def algebra_simps)
qed

text \<open>Taking an event off the queue and moving the clock to it.\<close>

lemma served_cycle:
  assumes "0 < clockPeriod (cfg e)"
  shows "curCycle e \<le> curCycle (clock_update t (e\<lparr>event_queue := q\<rparr>))"
    "t \<le> curCycle (clock_update t (e\<lparr>event_queue := q\<rparr>)) * clockPeriod (cfg e)"
proof -
  let ?e = "clock_update t (e\<lparr>event_queue := q\<rparr>)"
  have c: "curCycle ?e = max (curCycle e) (ticksToCycles e t)" by (simp add: clock_update_def ticksToCycles_def)
  then show "curCycle e \<le> curCycle ?e" by simp
  have "ticksToCycles e t * clockPeriod (cfg e) \<le> curCycle ?e * clockPeriod (cfg e)" unfolding c by (rule mult_le_mono1) simp
  then show "t \<le> curCycle ?e * clockPeriod (cfg e)" using ticksToCycles_edge [OF assms, of t] by linarith
qed

lemma served_sched_ok:
  assumes "sched_ok e" "0 < clockPeriod (cfg e)"
  shows "sched_ok (clock_update t (e\<lparr>event_queue := remove1 (t, c) (event_queue e)\<rparr>))" (is "sched_ok ?e")
proof -
  have same: "cfg ?e = cfg e" "m_scheduled_wakeups ?e = m_scheduled_wakeups e"
    "event_queue ?e = remove1 (t, c) (event_queue e)" by (simp_all add: clock_update_def)
  have q: "set (event_queue ?e) = set (event_queue e) - {(t, c)}" "distinct (event_queue ?e)"
    using assms(1) unfolding same(3) sched_ok_def by simp_all
  have "clockEdge e 0 \<le> clockEdge ?e 0" "t \<le> clockEdge ?e 0"
    using served_cycle [OF assms(2)] same(1) by (simp_all add: clockEdge_def)
  then show ?thesis using assms(1) q unfolding sched_ok_def same(2) by fastforce
qed

end
