(* ===== verification/Net_Run.thy ===== *)
theory Net_Run
  imports Packet_Conservation Ni_Flow Wake_Queue
begin

text \<open>
  The network as a running system: the event loop takes the next wake-up off the event queue
  (\<^verbatim>\<open>EventQueue::serviceOne\<close>), sets the time and calls the consumer; between two events the
  coherence protocol puts messages into the buffers of network interfaces and takes messages out of them.

  Shown: every step keeps the ledger of packets. For each virtual network, the packets counted as
  injected are the packets counted as received and the packets that are somewhere in the network
  (in a virtual channel, a crossbar or output buffer, on a link, in an interface), and this
  holds in every reachable state, swaps and stalled ejections included.
\<close>

section \<open>Steps\<close>

definition service :: "ruby_system \<Rightarrow> machine_cfg \<Rightarrow> GarnetNetwork \<Rightarrow> GarnetNetwork option" where
  "service sys mc n = do {
     (ev, _) \<leftarrow> ev_pop (pending (n_env n));
     let e = clock_update (ev_when ev)
       ((n_env n)\<lparr>event_queue := remove1 (ev_when ev, ev_obj ev) (event_queue (n_env n))\<rparr>);
     dispatch sys mc (ev_obj ev) (n\<lparr>n_env := e\<rparr>) }"

text \<open>What the protocol does at the buffers of interface \<open>i\<close>.\<close>

definition protocol_send ::
    "ruby_system \<Rightarrow> int \<Rightarrow> int \<Rightarrow> Message \<Rightarrow> Tick \<Rightarrow> GarnetNetwork \<Rightarrow> GarnetNetwork option" where
  "protocol_send sys i vnet msg delta n = on_ni i (\<lambda>ni e. do {
     mb \<leftarrow> vec_at (inNode_ptr ni) vnet;
     b \<leftarrow> mb;
     (b, e) \<leftarrow> mb_enqueue sys msg (clockEdge e 0) delta b e;
     bs \<leftarrow> vec_set (inNode_ptr ni) vnet (Some b);
     Some (ni\<lparr>inNode_ptr := bs\<rparr>, e) }) n"

definition protocol_take :: "int \<Rightarrow> int \<Rightarrow> GarnetNetwork \<Rightarrow> GarnetNetwork option" where
  "protocol_take i vnet n = on_ni i (\<lambda>ni e. do {
     b \<leftarrow> out_node ni vnet;
     (_, _, b, e) \<leftarrow> mb_dequeue (clockEdge e 0) True b e;
     ni \<leftarrow> set_out_node vnet b ni;
     Some (ni, e) }) n"

inductive net_step :: "ruby_system \<Rightarrow> machine_cfg \<Rightarrow> GarnetNetwork \<Rightarrow> GarnetNetwork \<Rightarrow> bool" for sys mc where
  event: "service sys mc n = Some n' \<Longrightarrow> net_step sys mc n n'"
| send: "protocol_send sys i vnet msg delta n = Some n' \<Longrightarrow> net_step sys mc n n'"
| take: "protocol_take i vnet n = Some n' \<Longrightarrow> net_step sys mc n n'"

inductive_cases net_stepE: "net_step sys mc n n'"

section \<open>Every step moves packets\<close>

definition net_moves :: "flit multiset \<Rightarrow> flit multiset \<Rightarrow> GarnetNetwork \<Rightarrow> GarnetNetwork \<Rightarrow> bool" where
  "net_moves A B n n' \<longleftrightarrow> net_packets n' + B = net_packets n + A \<and> (\<forall>f \<in># A. m_type f = HEAD_TAIL) \<and>
     booked id (\<lambda>_. 1) A (m_packets_injected (stats (n_env n))) (m_packets_injected (stats (n_env n'))) \<and>
     ((\<forall>f \<in># B. m_type f = HEAD_TAIL) \<longrightarrow>
        booked id (\<lambda>_. 1) B (m_packets_received (stats (n_env n))) (m_packets_received (stats (n_env n')))) \<and>
     cfg (n_env n') = cfg (n_env n)"

lemma net_moves_keeps: "net_packets n' = net_packets n \<Longrightarrow> ctx (n_env n') = ctx (n_env n) \<Longrightarrow> net_moves {#} {#} n n'"
  by (simp add: net_moves_def ctx_def)

lemma on_ni_moves:
  assumes "on_ni i m n = Some n'"
    and flow: "\<And>ni e ni' e'. m ni e = Some (ni', e') \<Longrightarrow> ni_flow ni e ni' e'"
  shows "\<exists>A B. net_moves A B n n'"
proof -
  obtain ni' e' where m: "0 \<le> i" "i < int (length (m_nis n))" "m (m_nis n ! nat i) (n_env n) = Some (ni', e')"
      "n' = n\<lparr>n_env := e', m_nis := (m_nis n)[nat i := ni']\<rparr>"
    using assms(1) by (auto simp: on_ni_def bind_Some vec_at_eq_Some vec_set_eq_Some)
  let ?ni = "m_nis n ! nat i" and ?p = "image_mset packet"
  have i: "nat i < length (m_nis n)" using m(1,2) by simp
  obtain A B where AB: "ni_moves A B ?ni (n_env n) ni' e'" using flow [OF m(3)] unfolding ni_flow_def by blast
  have ps: "?p (\<Sum>x\<leftarrow>xs. ni_flits x) = (\<Sum>x\<leftarrow>xs. ?p (ni_flits x))" for xs by (induction xs) simp_all
  have s: "(\<Sum>x\<leftarrow>m_nis n'. ?p (ni_flits x)) + ?p (ni_flits ?ni) = (\<Sum>x\<leftarrow>m_nis n. ?p (ni_flits x)) + ?p (ni_flits ni')"
    using list_update_sum [OF i, of "\<lambda>x. ?p (ni_flits x)" ni'] by (simp add: m(4))
  have mv: "?p (ni_flits ni' + link_flits e') + B = ?p (ni_flits ?ni + link_flits (n_env n)) + A"
    using AB by (simp add: ni_moves_def)
  have "(\<Sum>x\<leftarrow>m_nis n'. ?p (ni_flits x)) + (?p (link_flits e') + B) = (\<Sum>x\<leftarrow>m_nis n. ?p (ni_flits x)) + (?p (link_flits (n_env n)) + A)"
    by (rule mset_exchange [OF s]) (use mv in \<open>simp add: ac_simps\<close>)
  then have "net_packets n' + B = net_packets n + A"
    by (simp add: net_packets_def ps m(4) ac_simps)
  then have "net_moves A B n n'" using AB by (simp add: net_moves_def ni_moves_def drift_def m(4))
  then show ?thesis by blast
qed

lemma dispatch_moves:
  assumes "dispatch sys mc c n = Some n'" "m_num_cols (cfg (n_env n)) \<noteq> 0"
  shows "\<exists>A B. net_moves A B n n'"
proof (cases c)
  case (C_Router i)
  then have "net_packets n' = net_packets n \<and> net_frame n n'" using assms Router_wakeup_keeps by simp
  then show ?thesis using net_moves_keeps by (auto simp: net_frame_def)
next
  case (C_NI i)
  then show ?thesis using assms(1) on_ni_moves [OF _ ni_wake.flow] by (simp add: ni_wakeup_def)
next
  case (C_NetLink j)
  then show ?thesis using assms(1) netlink_wakeup_keeps net_moves_keeps by fastforce
next
  case (C_CreditLink j)
  then show ?thesis using assms(1) creditlink_wakeup_keeps net_moves_keeps by fastforce
next
  case (C_Controller i)
  then show ?thesis using assms(1) net_moves_keeps [of n n] by auto
qed (use assms(1) in simp_all)

lemma service_moves:
  assumes "service sys mc n = Some n'" "m_num_cols (cfg (n_env n)) \<noteq> 0"
  shows "\<exists>A B. net_moves A B n n'"
proof -
  obtain ev :: "consumer event" where "dispatch sys mc (ev_obj ev) (n\<lparr>n_env := clock_update (ev_when ev)
       ((n_env n)\<lparr>event_queue := remove1 (ev_when ev, ev_obj ev) (event_queue (n_env n))\<rparr>)\<rparr>) = Some n'"
    using assms(1) unfolding service_def bind_Some Let_def split_paired_Ex prod.case by blast
  then obtain A B where "net_moves A B (n\<lparr>n_env := clock_update (ev_when ev)
       ((n_env n)\<lparr>event_queue := remove1 (ev_when ev, ev_obj ev) (event_queue (n_env n))\<rparr>)\<rparr>) n'"
    using dispatch_moves assms(2) by (fastforce simp: clock_update_def)
  then have "net_moves A B n n'" by (simp add: net_moves_def clock_update_def net_packets_def link_flits_def)
  then show ?thesis by blast
qed

lemma protocol_send_moves:
  assumes "protocol_send sys i vnet msg delta n = Some n'"
  shows "\<exists>A B. net_moves A B n n'"
  using assms unfolding protocol_send_def
proof (rule on_ni_moves)
  fix ni :: NetworkInterface and e ni' e'
  assume "do { mb \<leftarrow> vec_at (inNode_ptr ni) vnet; b \<leftarrow> mb;
     (b, e) \<leftarrow> mb_enqueue sys msg (clockEdge e 0) delta b e; bs \<leftarrow> vec_set (inNode_ptr ni) vnet (Some b);
     Some (ni\<lparr>inNode_ptr := bs\<rparr>, e) } = Some (ni', e')"
  then obtain b b' bs where "mb_enqueue sys msg (clockEdge e 0) delta b e = Some (b', e')" "ni' = ni\<lparr>inNode_ptr := bs\<rparr>"
    by (auto simp: bind_Some)
  then show "ni_flow ni e ni' e'" using mb_enqueue_calm by (intro ni_flow_quiet) (auto simp: ni_flits_def)
qed

text \<open>The protocol only empties its own buffer.\<close>

lemma protocol_take_moves:
  assumes "protocol_take i vnet n = Some n'"
  shows "\<exists>A B. net_moves A B n n'"
proof -
  obtain b d m b' e' ni' where r: "0 \<le> i" "i < int (length (m_nis n))"
      "mb_dequeue (clockEdge (n_env n) 0) True b (n_env n) = Some (d, m, b', e')"
      "set_out_node vnet b' (m_nis n ! nat i) = Some ni'" "n' = n\<lparr>n_env := e', m_nis := (m_nis n)[nat i := ni']\<rparr>"
    using assms by (auto simp: protocol_take_def on_ni_def bind_Some vec_at_eq_Some vec_set_eq_Some)
  have c: "calm (n_env n) e'" using mb_dequeue_calm [OF r(3)] .
  have "ni_flits ni' = ni_flits (m_nis n ! nat i)" using r(4) by (auto simp: set_out_node_def bind_Some ni_flits_def)
  then have "net_packets n' = net_packets n"
    using list_update_sum_same [of "nat i" "m_nis n" ni_flits ni'] r(1,2,5) c
    by (simp add: net_packets_def calm_def link_flits_def)
  moreover have "ctx (n_env n') = ctx (n_env n)" using c r(5) by (simp add: calm_def)
  ultimately show ?thesis using net_moves_keeps by blast
qed

lemma net_step_moves:
  assumes "net_step sys mc n n'" "m_num_cols (cfg (n_env n)) \<noteq> 0"
  shows "\<exists>A B. net_moves A B n n'"
  using assms by (elim net_stepE) (blast intro: service_moves protocol_send_moves protocol_take_moves)+

section \<open>The ledger\<close>

definition in_flight :: "GarnetNetwork \<Rightarrow> int \<Rightarrow> nat" where
  "in_flight n v = size (filter_mset (\<lambda>f. m_vnet f = v) (net_packets n))"

definition net_ledger :: "GarnetNetwork \<Rightarrow> bool" where
  "net_ledger n \<longleftrightarrow> (\<forall>f \<in># net_packets n. m_type f = HEAD_TAIL \<and> 0 \<le> m_vnet f \<and>
       m_vnet f < int (length (m_packets_injected (stats (n_env n))))) \<and>
     length (m_packets_received (stats (n_env n))) = length (m_packets_injected (stats (n_env n))) \<and>
     (\<forall>v < length (m_packets_injected (stats (n_env n))).
        m_packets_injected (stats (n_env n)) ! v = m_packets_received (stats (n_env n)) ! v + in_flight n (int v))"

lemma net_moves_ledger:
  assumes "net_moves A B n n'" "net_ledger n"
  shows "net_ledger n'"
proof -
  let ?inj = "m_packets_injected (stats (n_env n))" and ?inj' = "m_packets_injected (stats (n_env n'))"
  let ?rec = "m_packets_received (stats (n_env n))" and ?rec' = "m_packets_received (stats (n_env n'))"
  let ?on = "\<lambda>v C. size (filter_mset (\<lambda>f. m_vnet f = int v) C)"
  have mv: "net_packets n' + B = net_packets n + A" and A: "\<forall>f \<in># A. m_type f = HEAD_TAIL" "booked id (\<lambda>_. 1) A ?inj ?inj'"
    using assms(1) by (auto simp: net_moves_def)
  have sub: "f \<in># net_packets n \<or> f \<in># A" if "f \<in># net_packets n' \<or> f \<in># B" for f
    using that mv by (metis union_iff)
  then have "\<forall>f \<in># B. m_type f = HEAD_TAIL" using A(1) assms(2) by (auto simp: net_ledger_def)
  then have B: "booked id (\<lambda>_. 1) B ?rec ?rec'" using assms(1) by (simp add: net_moves_def)
  have len: "length ?inj' = length ?inj" "length ?rec' = length ?rec" "length ?rec = length ?inj"
    using A(2) B assms(2) by (auto simp: booked_def net_ledger_def)
  have "?inj' ! v = ?rec' ! v + in_flight n' (int v)" if "v < length ?inj" for v
  proof -
    have "?on v (net_packets n' + B) = ?on v (net_packets n + A)" by (simp only: mv)
    moreover have "?inj' ! v = ?inj ! v + ?on v A" "?rec' ! v = ?rec ! v + ?on v B"
      using booked_count [OF A(2), of v] booked_count [OF B, of v] that len by simp_all
    moreover have "?inj ! v = ?rec ! v + ?on v (net_packets n)" using assms(2) that by (simp add: net_ledger_def in_flight_def)
    ultimately show ?thesis by (simp add: in_flight_def)
  qed
  moreover have "m_type f = HEAD_TAIL \<and> 0 \<le> m_vnet f \<and> m_vnet f < int (length ?inj)" if "f \<in># net_packets n'" for f
    using sub [of f] that A assms(2) by (auto simp: net_ledger_def booked_def)
  ultimately show ?thesis using len by (simp add: net_ledger_def)
qed

lemma net_run_ledger:
  assumes "(net_step sys mc)\<^sup>*\<^sup>* n0 n" "net_ledger n0" "m_num_cols (cfg (n_env n0)) \<noteq> 0"
  shows "net_ledger n \<and> m_num_cols (cfg (n_env n)) \<noteq> 0"
  using assms(1)
proof induction
  case (step n n')
  then obtain A B where "net_moves A B n n'" using net_step_moves by blast
  then have "net_ledger n'" "cfg (n_env n') = cfg (n_env n)" using step.IH net_moves_ledger by (blast, simp add: net_moves_def)
  then show ?case using step.IH by simp
qed (use assms(2,3) in simp)

section \<open>Properties\<close>

text \<open>C1. No packet is lost, duplicated or invented. Start from any state whose ledger is right (an empty network, for
  example) and let the event loop and the protocol run in any order, as long as nothing fails: for every
  virtual network the number of packets injected is the number received plus the number that are in
  virtual channels, crossbars, output buffers, links and interfaces, and every packet in flight is a
  single flit of an existing virtual network.\<close>

theorem packets_are_accounted_for:
  assumes "(net_step sys mc)\<^sup>*\<^sup>* n0 n" "net_ledger n0" "m_num_cols (cfg (n_env n0)) \<noteq> 0"
  shows "(\<forall>v < length (m_packets_injected (stats (n_env n))).
      m_packets_injected (stats (n_env n)) ! v = m_packets_received (stats (n_env n)) ! v + in_flight n (int v)) \<and>
    (\<forall>f \<in># net_packets n. m_type f = HEAD_TAIL \<and> 0 \<le> m_vnet f \<and>
      m_vnet f < int (length (m_packets_injected (stats (n_env n)))))"
  using net_run_ledger [OF assms] by (simp add: net_ledger_def)

text \<open>
  A network of one interface whose output link leads back to its own input. The protocol hands it a
  message for itself; three events later the message is delivered.
\<close>

definition loop_mc :: machine_cfg where
  "loop_mc = \<lparr>MachineType_NUM = 1, MachineType_base_level = id, MachineType_base_number = id, MachineType_base_count = (\<lambda>_. 1)\<rparr>"

definition loop_msg :: Message where
  "loop_msg = Message_new 0 \<lparr>m_bits = [\<lparr>m_nSize = 1, bits = 1\<rparr>]\<rparr> Control"

definition loop_ni :: NetworkInterface where
  "loop_ni = (NetworkInterface_new 0 1 1 50000)\<lparr>m_router_id := 0, inNetLink := 0, outNetLink := 0, inCreditLink := 0,
     outCreditLink := 0, inNode_ptr := [Some (sample_mb 0)], outNode_ptr := [Some (sample_mb 0)],
     m_out_vc_state := [\<lparr>m_id_ovs = 0, m_time_ovs = 0, m_vc_state_ovs = IDLE, m_credit_count = 1, m_max_credit_count = 1\<rparr>]\<rparr>"

definition loop_net :: GarnetNetwork where
  "loop_net = \<lparr>n_env = (sample_env 0)\<lparr>
     m_networklinks := [setSourceQueue (Q_NIFlit 0) (setLinkConsumer (C_NI 0) (NetworkLink_new 0 1 1 1))],
     m_creditlinks := [setSourceQueue (Q_NICredit 0) (setLinkConsumer (C_NI 0) (NetworkLink_new 0 1 1 1))]\<rparr>,
     m_routers = [], m_nis = [loop_ni], m_nodes = 1\<rparr>"

lemmas loop_defs = loop_net_def loop_ni_def loop_msg_def loop_mc_def NetworkInterface_new_def sample_mb_defs net_stats_init_def
  NetworkLink_new_def setSourceQueue_def setLinkConsumer_def flitBuffer_new_def

lemmas mb_run_defs = mb_enqueue_def arrival_of_def count_enqueue_def updateDelayedTicks_def heap_one mb_isReady_def peekMsgPtr_def
  mb_dequeue_def areNSlotsAvailable_def mb_getSize_def

lemmas event_run_defs = scheduleEventAbsolute_def scheduleEvent_def alreadyScheduled_def insertScheduledWakeupTime_def
  service_def pending_def wake_event_def ev_insert_def clock_update_def ticksToCycles_def

lemmas inject_run_defs = ni_wakeup_def NetworkInterface_wakeup_def accept_message_def
  get_router_id_def flitisize_run_defs

lemmas send_run_defs = scheduleOutputLink_def is_candidate_vc_def fb_isReady_def fb_peekTopFlit_def fb_isEmpty_def ovs_has_credit_def
  ni_get_vnet_def isVNetOrdered_def send_from_vc_def ovs_decrement_credit_def fb_getTopFlit_def checkReschedule_def
  checkStallQueue_def receive_from_link_def link_isReady_def receive_credit_def fb_getSize_def INFINITE_TIME_def
  netlink_wakeup_def get_flit_queue_def set_flit_queue_def NetworkLink_wakeup_def

lemmas receive_run_defs = consumeLink_def receive_flit_def out_node_def eject_def set_out_node_def sendCredit_def
  Credit_new_def flit.defs credit.defs incrementStats_def increment_received_flits_def increment_flit_network_latency_def
  increment_flit_queueing_latency_def update_flit_latency_histogram_def update_flit_network_latency_histogram_def
  update_flit_queueing_latency_histogram_def update_network_latency_histogram_def increment_received_packets_def
  increment_packet_network_latency_def increment_packet_queueing_latency_def increment_total_hops_def cyclesToTicks_def

lemma loop_run:
  "\<exists>n1 n2 n3 n4. protocol_send sample_sys 0 0 loop_msg 1 loop_net = Some n1 \<and> service sample_sys loop_mc n1 = Some n2 \<and>
     m_packets_injected (stats (n_env n2)) = [1] \<and> m_packets_received (stats (n_env n2)) = [0] \<and>
     service sample_sys loop_mc n2 = Some n3 \<and> service sample_sys loop_mc n3 = Some n4 \<and>
     m_packets_injected (stats (n_env n4)) = [1] \<and> m_packets_received (stats (n_env n4)) = [1]"
  by (simp add: protocol_send_def on_ni_def loop_defs mb_run_defs event_run_defs inject_run_defs send_run_defs receive_run_defs Let_def)

theorem packets_are_accounted_for_witness:
  "net_ledger loop_net \<and> (\<exists>n2 n4. (net_step sample_sys loop_mc)\<^sup>*\<^sup>* loop_net n2 \<and> in_flight n2 0 = 1 \<and>
     (net_step sample_sys loop_mc)\<^sup>*\<^sup>* loop_net n4 \<and> m_packets_received (stats (n_env n4)) = [1] \<and> in_flight n4 0 = 0)"
proof -
  have l0: "net_ledger loop_net" "m_num_cols (cfg (n_env loop_net)) \<noteq> 0"
    by (simp_all add: net_ledger_def in_flight_def net_packets_def link_flits_def ni_flits_def fb_items_def loop_defs)
  obtain n1 n2 n3 n4 where run: "protocol_send sample_sys 0 0 loop_msg 1 loop_net = Some n1" "service sample_sys loop_mc n1 = Some n2"
      "service sample_sys loop_mc n2 = Some n3" "service sample_sys loop_mc n3 = Some n4"
    and c: "m_packets_injected (stats (n_env n2)) = [1]" "m_packets_received (stats (n_env n2)) = [0]"
      "m_packets_injected (stats (n_env n4)) = [1]" "m_packets_received (stats (n_env n4)) = [1]"
    using loop_run by blast
  have s: "(net_step sample_sys loop_mc)\<^sup>*\<^sup>* loop_net n2" "(net_step sample_sys loop_mc)\<^sup>*\<^sup>* loop_net n4"
    using net_step.send [OF run(1)] net_step.event [OF run(2)] net_step.event [OF run(3)] net_step.event [OF run(4)]
    by (meson rtranclp.rtrancl_into_rtrancl rtranclp.rtrancl_refl)+
  have "in_flight n2 0 = 1" using packets_are_accounted_for [OF s(1) l0] c(1,2) by simp
  moreover have "in_flight n4 0 = 0" using packets_are_accounted_for [OF s(2) l0] c(3,4) by simp
  ultimately show ?thesis using s c l0(1) by blast
qed

end
