(* ===== verification/Wake_Ups.thy ===== *)
theory Wake_Ups
  imports Net_Run
begin

text \<open>
  Wake-ups and the links. A consumer (\<^verbatim>\<open>Consumer::scheduleEventAbsolute\<close>) remembers the times it asked for and does not ask
  twice; a link (\<^verbatim>\<open>NetworkLink::wakeup\<close>) stamps a flit with the cycle in which it becomes available and asks for a wake-up
  of its consumer at that cycle, once.

  Shown: in every reachable state of the running network no wake-up is pending twice, none that was asked for has been
  dropped, and every flit and credit on a link that is still on its way has a wake-up of the link's consumer pending
  for exactly the tick at which it arrives; so the de-duplication never strands anything on a link.
\<close>

section \<open>The invariant\<close>

definition arrival_pending :: "env \<Rightarrow> 'a flit_scheme NetworkLink \<Rightarrow> bool" where
  "arrival_pending e l \<longleftrightarrow> (\<forall>f \<in># fb_items (linkBuffer l). curCycle e < m_time f \<longrightarrow>
     (\<exists>c. link_consumer l = Some c \<and> (m_time f * clockPeriod (cfg e), c) \<in> set (event_queue e)))"

definition wake_inv :: "env \<Rightarrow> bool" where
  "wake_inv e \<longleftrightarrow> sched_ok e \<and> (\<forall>l \<in> set (m_networklinks e). arrival_pending e l) \<and>
     (\<forall>l \<in> set (m_creditlinks e). arrival_pending e l)"

lemma arrival_pending_wakes:
  assumes "arrival_pending e l" "wakes e e'" "cfg e' = cfg e" "curCycle e' = curCycle e"
    "link_consumer l' = link_consumer l" "fb_items (linkBuffer l') \<subseteq># fb_items (linkBuffer l)"
  shows "arrival_pending e' l'"
  using assms mset_subset_eqD [OF assms(6)] unfolding arrival_pending_def wakes_def by (metis subsetD)

lemma drained_pending:
  assumes "drained ls ls'" "\<forall>l \<in> set ls. arrival_pending e l" "wakes e e'" "cfg e' = cfg e" "curCycle e' = curCycle e"
  shows "\<forall>l \<in> set ls'. arrival_pending e' l"
proof
  fix l' assume "l' \<in> set ls'"
  then obtain i where i: "i < length ls'" "l' = ls' ! i" by (auto simp: in_set_conv_nth)
  then have "ls ! i \<in> set ls" "link_consumer l' = link_consumer (ls ! i)"
    "fb_items (linkBuffer l') \<subseteq># fb_items (linkBuffer (ls ! i))"
    using assms(1) by (auto simp: drained_def list_all2_conv_all_nth)
  then show "arrival_pending e' l'" using arrival_pending_wakes [OF _ assms(3-5)] assms(2) by blast
qed

lemma drift_wake_inv:
  assumes "drift e e'" "wake_inv e"
  shows "wake_inv e'"
proof -
  have w: "wakes e e'" "cfg e' = cfg e" "curCycle e' = curCycle e" "sched_ok e'"
    using assms by (auto simp: drift_def wake_inv_def wakes_def)
  have "\<forall>l \<in> set (m_networklinks e'). arrival_pending e' l"
    by (rule drained_pending [OF _ _ w(1-3), of "m_networklinks e"]) (use assms in \<open>simp_all add: drift_def wake_inv_def\<close>)
  moreover have "\<forall>l \<in> set (m_creditlinks e'). arrival_pending e' l"
    by (rule drained_pending [OF _ _ w(1-3), of "m_creditlinks e"]) (use assms in \<open>simp_all add: drift_def wake_inv_def\<close>)
  ultimately show ?thesis using w(4) by (simp add: wake_inv_def)
qed

section \<open>Links\<close>

lemma NetworkLink_wakeup_arrival:
  assumes run: "NetworkLink_wakeup q l e = Some (q', l', e')" and ok: "sched_ok e" "arrival_pending e l"
    and pos: "0 < clockPeriod (cfg e)"
  shows "arrival_pending e' l'"
proof (cases "fb_isReady q (curCycle e)")
  case True
  let ?t = "curCycle e + m_latency_l l"
  obtain f q1 c where r: "link_consumer l = Some c" "scheduleEventAbsolute c (clockEdge e (m_latency_l l)) e = Some e'"
    "linkBuffer l' = fb_insert (linkBuffer l) (set_time ?t f)" "link_consumer l' = link_consumer l"
    using run True by (auto simp: NetworkLink_wakeup_def bind_Some Let_def)
  have e': "cfg e' = cfg e" "curCycle e' = curCycle e" "wakes e e'"
    using scheduleEventAbsolute_frame [OF r(2)] scheduleEventAbsolute_wakes [OF r(2)] by auto
  have old: "arrival_pending e' l" by (rule arrival_pending_wakes [OF ok(2) e'(3,1,2)]) simp_all
  have "(?t * clockPeriod (cfg e), c) \<in> set (event_queue e')" if "curCycle e < ?t"
    using scheduleEventAbsolute_pending [OF r(2) ok(1)] that pos by (simp add: clockEdge_def)
  then show ?thesis using old r(1,3,4) e' by (auto simp: arrival_pending_def fb.items_insert set_time_def)
next
  case False
  then show ?thesis using run ok(2) by (simp add: NetworkLink_wakeup_def)
qed

lemma link_update_pending:
  assumes "\<forall>l \<in> set ls. arrival_pending e l" "arrival_pending e' l'" "wakes e e'" "cfg e' = cfg e" "curCycle e' = curCycle e"
    "vec_set ls j l' = Some ls'"
  shows "\<forall>l \<in> set ls'. arrival_pending e' l"
  using drained_pending [OF drained_refl assms(1,3-5)] assms(2,6)
  by (auto simp: vec_set_eq_Some dest!: subsetD [OF set_update_subset_insert])

lemma arrival_pending_links [simp]:
  "arrival_pending (e\<lparr>m_networklinks := ls\<rparr>) = arrival_pending e" "arrival_pending (e\<lparr>m_creditlinks := cs\<rparr>) = arrival_pending e"
  by (simp_all add: arrival_pending_def fun_eq_iff)

lemma netlink_wakeup_wake_inv:
  assumes "netlink_wakeup j n = Some n'" "wake_inv (n_env n)" "0 < clockPeriod (cfg (n_env n))"
  shows "wake_inv (n_env n')"
proof -
  obtain l q b b' l' e ls where run: "vec_at (m_networklinks (n_env n)) j = Some l"
      "NetworkLink_wakeup b l (n_env n) = Some (b', l', e)" "vec_set (m_networklinks e) j l' = Some ls"
      "set_flit_queue q b' (n\<lparr>n_env := e\<lparr>m_networklinks := ls\<rparr>\<rparr>) = Some n'" "get_flit_queue q n = Some b"
    using assms(1) unfolding netlink_wakeup_def bind_Some split_paired_Ex prod.case by blast
  have c: "calm (n_env n) e" using NetworkLink_wakeup_calm [OF run(2)] .
  have "get_flit_queue q (n\<lparr>n_env := e\<lparr>m_networklinks := ls\<rparr>\<rparr>) = Some b"
    using run(5) by (simp add: get_flit_queue_def split: queue_ref.splits)
  then have e: "n_env n' = e\<lparr>m_networklinks := ls\<rparr>" using set_flit_queue_packets [OF _ run(4)] by simp
  have "arrival_pending (n_env n) l" using run(1) assms(2) by (auto simp: wake_inv_def vec_at_eq_Some)
  then have "arrival_pending e l'" using NetworkLink_wakeup_arrival [OF run(2) _ _ assms(3)] assms(2) by (simp add: wake_inv_def)
  then have "\<forall>l \<in> set ls. arrival_pending e l"
    using link_update_pending [OF _ _ _ _ _ run(3)] assms(2) c calm_frame [OF c] by (auto simp: wake_inv_def calm_def)
  moreover have "wake_inv e" using drift_wake_inv [OF calm_drift [OF c] assms(2)] .
  ultimately show ?thesis unfolding e wake_inv_def by simp
qed

lemma creditlink_wakeup_wake_inv:
  assumes "creditlink_wakeup j n = Some n'" "wake_inv (n_env n)" "0 < clockPeriod (cfg (n_env n))"
  shows "wake_inv (n_env n')"
proof -
  obtain l q b b' l' e ls where run: "vec_at (m_creditlinks (n_env n)) j = Some l"
      "NetworkLink_wakeup b l (n_env n) = Some (b', l', e)" "vec_set (m_creditlinks e) j l' = Some ls"
      "set_credit_queue q b' (n\<lparr>n_env := e\<lparr>m_creditlinks := ls\<rparr>\<rparr>) = Some n'"
    using assms(1) unfolding creditlink_wakeup_def bind_Some split_paired_Ex prod.case by blast
  have c: "calm (n_env n) e" using NetworkLink_wakeup_calm [OF run(2)] .
  have e: "n_env n' = e\<lparr>m_creditlinks := ls\<rparr>" using set_credit_queue_packets [OF run(4)] by simp
  have "arrival_pending (n_env n) l" using run(1) assms(2) by (auto simp: wake_inv_def vec_at_eq_Some)
  then have "arrival_pending e l'" using NetworkLink_wakeup_arrival [OF run(2) _ _ assms(3)] assms(2) by (simp add: wake_inv_def)
  then have "\<forall>l \<in> set ls. arrival_pending e l"
    using link_update_pending [OF _ _ _ _ _ run(3)] assms(2) c calm_frame [OF c] by (auto simp: wake_inv_def calm_def)
  moreover have "wake_inv e" using drift_wake_inv [OF calm_drift [OF c] assms(2)] .
  ultimately show ?thesis unfolding e wake_inv_def by simp
qed

section \<open>Steps of the network\<close>

lemma on_ni_drift:
  assumes "on_ni i m n = Some n'" "\<And>ni e ni' e'. m ni e = Some (ni', e') \<Longrightarrow> drift e e'"
  shows "drift (n_env n) (n_env n')"
  using assms by (auto simp: on_ni_def bind_Some)

lemma dispatch_wake_inv:
  assumes "dispatch sys mc c n = Some n'" "wake_inv (n_env n)" "0 < clockPeriod (cfg (n_env n))" "m_num_cols (cfg (n_env n)) \<noteq> 0"
  shows "wake_inv (n_env n')"
proof (cases c)
  case (C_Router i)
  then have "net_frame n n'" using assms(1,4) Router_wakeup_keeps by simp
  then show ?thesis using drift_wake_inv assms(2) by (auto simp: net_frame_def)
next
  case (C_NI i)
  have "drift e e'" if "NetworkInterface_wakeup sys mc r ni e = Some (ni', e')" for r ni e ni' e'
    using ni_wake.flow [OF that] by (auto simp: ni_flow_def ni_moves_def)
  then have "drift (n_env n) (n_env n')" using C_NI assms(1) by (intro on_ni_drift [of i _ n n']) (auto simp: ni_wakeup_def)
  then show ?thesis using drift_wake_inv assms(2) by blast
qed (use assms netlink_wakeup_wake_inv creditlink_wakeup_wake_inv in auto)

text \<open>Taking an event off the queue and moving the clock to it.\<close>

lemma served_arrival:
  assumes "arrival_pending e l" "curCycle e \<le> curCycle e'" "t \<le> curCycle e' * clockPeriod (cfg e)" "0 < clockPeriod (cfg e)"
    "cfg e' = cfg e" "set (event_queue e) - {(t, c)} \<subseteq> set (event_queue e')"
  shows "arrival_pending e' l"
  unfolding arrival_pending_def assms(5)
proof (intro ballI impI)
  let ?p = "clockPeriod (cfg e)"
  fix f assume f: "f \<in># fb_items (linkBuffer l)" "curCycle e' < m_time f"
  then have "curCycle e < m_time f" using assms(2) by simp
  then obtain c' where "link_consumer l = Some c'" "(m_time f * ?p, c') \<in> set (event_queue e)"
    using assms(1) f(1) unfolding arrival_pending_def by blast
  moreover have "curCycle e' * ?p < m_time f * ?p" using f(2) assms(4) by simp
  then have "m_time f * ?p \<noteq> t" using assms(3) by linarith
  ultimately show "\<exists>c'. link_consumer l = Some c' \<and> (m_time f * ?p, c') \<in> set (event_queue e')" using assms(6) by blast
qed

lemma served_wake_inv:
  assumes "wake_inv e" "0 < clockPeriod (cfg e)"
  shows "wake_inv (clock_update t (e\<lparr>event_queue := remove1 (t, c) (event_queue e)\<rparr>))" (is "wake_inv ?e")
proof -
  let ?p = "clockPeriod (cfg e)"
  have same: "cfg ?e = cfg e" "m_scheduled_wakeups ?e = m_scheduled_wakeups e" "m_networklinks ?e = m_networklinks e"
    "m_creditlinks ?e = m_creditlinks e" "event_queue ?e = remove1 (t, c) (event_queue e)"
    "curCycle ?e = max (curCycle e) (ticksToCycles e t)"
    by (simp_all add: clock_update_def ticksToCycles_def)
  have cyc: "curCycle e \<le> curCycle ?e" "t \<le> curCycle ?e * ?p" using served_cycle [OF assms(2)] by simp_all
  have q: "set (event_queue ?e) = set (event_queue e) - {(t, c)}" "distinct (event_queue ?e)"
    using assms(1) unfolding same(5) wake_inv_def sched_ok_def by simp_all
  have "sched_ok ?e" using assms by (simp add: wake_inv_def served_sched_ok)
  moreover have "\<forall>l \<in> set (m_networklinks e). arrival_pending ?e l" "\<forall>l \<in> set (m_creditlinks e). arrival_pending ?e l"
    using assms(1) q(1) unfolding wake_inv_def by (blast intro: served_arrival [OF _ cyc assms(2) same(1)])+
  ultimately show ?thesis unfolding wake_inv_def same(3,4) by blast
qed

lemma service_wake_inv:
  assumes "service sys mc n = Some n'" "wake_inv (n_env n)" "0 < clockPeriod (cfg (n_env n))" "m_num_cols (cfg (n_env n)) \<noteq> 0"
  shows "wake_inv (n_env n')"
proof -
  obtain ev :: "consumer event" where "dispatch sys mc (ev_obj ev) (n\<lparr>n_env := clock_update (ev_when ev)
       ((n_env n)\<lparr>event_queue := remove1 (ev_when ev, ev_obj ev) (event_queue (n_env n))\<rparr>)\<rparr>) = Some n'"
    using assms(1) unfolding service_def bind_Some Let_def split_paired_Ex prod.case by blast
  then show ?thesis by (rule dispatch_wake_inv) (use served_wake_inv [OF assms(2,3)] assms(3,4) in \<open>simp_all add: clock_update_def\<close>)
qed

lemma protocol_send_drift:
  assumes "protocol_send sys i vnet msg delta n = Some n'"
  shows "drift (n_env n) (n_env n')"
proof -
  obtain b b' where "mb_enqueue sys msg (clockEdge (n_env n) 0) delta b (n_env n) = Some (b', n_env n')"
    using assms by (auto simp: protocol_send_def on_ni_def bind_Some)
  then show ?thesis using mb_enqueue_calm calm_drift by blast
qed

lemma protocol_take_drift:
  assumes "protocol_take i vnet n = Some n'"
  shows "drift (n_env n) (n_env n')"
proof -
  obtain b d m b' where "mb_dequeue (clockEdge (n_env n) 0) True b (n_env n) = Some (d, m, b', n_env n')"
    using assms by (auto simp: protocol_take_def on_ni_def bind_Some)
  then show ?thesis using mb_dequeue_calm calm_drift by blast
qed

lemma net_step_wake_inv:
  assumes "net_step sys mc n n'" "wake_inv (n_env n)" "0 < clockPeriod (cfg (n_env n))" "m_num_cols (cfg (n_env n)) \<noteq> 0"
  shows "wake_inv (n_env n') \<and> cfg (n_env n') = cfg (n_env n)"
proof
  show "wake_inv (n_env n')"
    using assms(1) by (rule net_stepE) (use assms(2-4) service_wake_inv drift_wake_inv protocol_send_drift protocol_take_drift in blast)+
  show "cfg (n_env n') = cfg (n_env n)" using net_step_moves [OF assms(1,4)] by (auto simp: net_moves_def)
qed

section \<open>Properties\<close>

text \<open>C3. Nothing is stranded on a link. Start from a state in which every wake-up asked for is pending (a network at rest, for
  example) and let the event loop and the protocol run in any order, as long as nothing fails. Then no wake-up is
  pending twice, and for every flit and every credit that is still travelling on a link a wake-up of the component
  that reads the link is pending for exactly the tick at which it arrives.\<close>

theorem travelling_flits_have_a_wake_up:
  assumes "(net_step sys mc)\<^sup>*\<^sup>* n0 n" "wake_inv (n_env n0)" "0 < clockPeriod (cfg (n_env n0))" "m_num_cols (cfg (n_env n0)) \<noteq> 0"
  shows "distinct (event_queue (n_env n)) \<and>
    (\<forall>l \<in> set (m_networklinks (n_env n)). \<forall>f \<in># fb_items (linkBuffer l). curCycle (n_env n) < m_time f \<longrightarrow>
       (\<exists>c. link_consumer l = Some c \<and> (m_time f * clockPeriod (cfg (n_env n)), c) \<in> set (event_queue (n_env n)))) \<and>
    (\<forall>l \<in> set (m_creditlinks (n_env n)). \<forall>f \<in># fb_items (linkBuffer l). curCycle (n_env n) < m_time f \<longrightarrow>
       (\<exists>c. link_consumer l = Some c \<and> (m_time f * clockPeriod (cfg (n_env n)), c) \<in> set (event_queue (n_env n))))"
proof -
  have "wake_inv (n_env n) \<and> cfg (n_env n) = cfg (n_env n0)"
    using assms(1) by induction (use assms(2-4) net_step_wake_inv in \<open>auto simp del: split_paired_All\<close>)
  then show ?thesis unfolding wake_inv_def arrival_pending_def sched_ok_def by blast
qed

lemma loop_link_run:
  "\<exists>n1 n2 n3 l f. protocol_send sample_sys 0 0 loop_msg 1 loop_net = Some n1 \<and> service sample_sys loop_mc n1 = Some n2 \<and>
     service sample_sys loop_mc n2 = Some n3 \<and> l \<in> set (m_networklinks (n_env n3)) \<and> f \<in># fb_items (linkBuffer l) \<and>
     curCycle (n_env n3) < m_time f"
  by (simp add: protocol_send_def on_ni_def loop_defs mb_run_defs event_run_defs inject_run_defs send_run_defs fb_items_def Let_def)

theorem travelling_flits_have_a_wake_up_witness:
  "\<exists>n l f c. (net_step sample_sys loop_mc)\<^sup>*\<^sup>* loop_net n \<and> l \<in> set (m_networklinks (n_env n)) \<and> f \<in># fb_items (linkBuffer l) \<and>
     link_consumer l = Some c \<and> (m_time f * clockPeriod (cfg (n_env n)), c) \<in> set (event_queue (n_env n))"
proof -
  obtain n1 n2 n3 l f where run: "protocol_send sample_sys 0 0 loop_msg 1 loop_net = Some n1"
      "service sample_sys loop_mc n1 = Some n2" "service sample_sys loop_mc n2 = Some n3"
    and lf: "l \<in> set (m_networklinks (n_env n3))" "f \<in># fb_items (linkBuffer l)" "curCycle (n_env n3) < m_time f"
    using loop_link_run by blast
  have r: "(net_step sample_sys loop_mc)\<^sup>*\<^sup>* loop_net n3"
    using run by (blast intro: net_step.intros rtranclp.rtrancl_into_rtrancl)
  have w: "wake_inv (n_env loop_net)" "0 < clockPeriod (cfg (n_env loop_net))" "m_num_cols (cfg (n_env loop_net)) \<noteq> 0"
    by (simp_all add: wake_inv_def sched_ok_def arrival_pending_def loop_defs sample_env_def sample_cfg_def fb_items_def)
  show ?thesis using travelling_flits_have_a_wake_up [OF r w] r lf by blast
qed

end
