(* ===== verification/Functional_Write.thy ===== *)
theory Functional_Write
  imports Packet_Conservation
begin

text \<open>
  Functional writes: the simulator updates a cache line everywhere at once, without simulated time, by offering the write to every
  message in the network (\<^verbatim>\<open>functionalWrite\<close> of GarnetNetwork.cc, Router.cc, InputUnit.cc, VirtualChannel.cc,
  CrossbarSwitch.cc, OutputUnit.hh, NetworkLink.cc, NetworkInterface.cc, flitBuffer.cc, flit.cc).

  Shown: every component offers the write to each of its flits once and returns the number of messages that took it; the
  network reaches all flits except those in the stall queues of the interfaces, which the code forgets.
\<close>

section \<open>The contract of a component\<close>

text \<open>The number of flits whose message takes the write, and a flit after it.\<close>

definition fw_hits :: "func_write \<Rightarrow> flit multiset \<Rightarrow> nat" where
  "fw_hits fw fs = size (filter_mset (\<lambda>f. fst (fw (m_msg_ptr f))) fs)"

definition written :: "func_write \<Rightarrow> flit \<Rightarrow> flit" where
  "written fw f = f\<lparr>m_msg_ptr := snd (fw (m_msg_ptr f))\<rparr>"

lemma fw_hits_add [simp]: "fw_hits fw (a + b) = fw_hits fw a + fw_hits fw b" "fw_hits fw {#} = 0"
  by (simp_all add: fw_hits_def)

locale writable =
  fixes w :: "func_write \<Rightarrow> 'c \<Rightarrow> nat \<times> 'c" and flits :: "'c \<Rightarrow> flit multiset"
  assumes hits: "fst (w fw c) = fw_hits fw (flits c)"
    and wrote: "flits (snd (w fw c)) = image_mset (written fw) (flits c)"
begin

text \<open>A vector of such components.\<close>

lemma vector_hits: "fst (sum_functionalWrite (w fw) cs) = fw_hits fw (\<Sum>c\<leftarrow>cs. flits c)"
  by (induction cs) (simp_all add: hits case_prod_beta)

lemma vector_wrote:
  "(\<Sum>c\<leftarrow>snd (sum_functionalWrite (w fw) cs). flits c) = image_mset (written fw) (\<Sum>c\<leftarrow>cs. flits c)"
  by (induction cs) (simp_all add: wrote case_prod_beta)

end

section \<open>Every component keeps it\<close>

interpretation fb_w: writable fb_functionalWrite fb_items
  by unfold_locales (simp_all add: fb_functionalWrite_def flits_functionalWrite_count fw_hits_def fb_items_def written_def
      flip: mset_filter mset_map cong: multiset.map_cong)

interpretation vc_w: writable vc_functionalWrite vc_flits
  by unfold_locales (simp_all add: vc_functionalWrite_def vc_flits_def case_prod_beta fb_w.hits fb_w.wrote)

interpretation iu_w: writable iu_functionalWrite iu_flits
  by unfold_locales (simp_all add: iu_functionalWrite_def iu_flits_def case_prod_beta vc_w.vector_hits vc_w.vector_wrote)

interpretation ou_w: writable ou_functionalWrite "\<lambda>u. fb_items (m_out_buffer u)"
  by unfold_locales (simp_all add: ou_functionalWrite_def case_prod_beta fb_w.hits fb_w.wrote)

interpretation xbar_w: writable xbar_functionalWrite "\<lambda>x. \<Sum>b\<leftarrow>m_switch_buffer x. fb_items b"
  by unfold_locales (simp_all add: xbar_functionalWrite_def case_prod_beta fb_w.vector_hits fb_w.vector_wrote)

interpretation router_w: writable Router_functionalWrite router_flits
  by unfold_locales
    (simp_all add: Router_functionalWrite_def router_flits_def vc_part_def xbar_part_def out_part_def case_prod_beta Let_def
      xbar_w.hits xbar_w.wrote iu_w.vector_hits iu_w.vector_wrote ou_w.vector_hits ou_w.vector_wrote)

interpretation link_w: writable link_functionalWrite "\<lambda>l. fb_items (linkBuffer l)"
  by unfold_locales (simp_all add: link_functionalWrite_def case_prod_beta fb_w.hits fb_w.wrote)

text \<open>An interface, its stall queue apart.\<close>

definition ni_sending :: "NetworkInterface \<Rightarrow> flit multiset" where
  "ni_sending n = (\<Sum>b\<leftarrow>m_ni_out_vcs n. fb_items b) + fb_items (outFlitQueue n)"

interpretation ni_w: writable ni_functionalWrite ni_sending
  by unfold_locales (simp_all add: ni_functionalWrite_def ni_sending_def case_prod_beta Let_def
      fb_w.hits fb_w.wrote fb_w.vector_hits fb_w.vector_wrote)

lemma ni_functionalWrite_stalled [simp]: "m_stall_queue (snd (ni_functionalWrite fw n)) = m_stall_queue n"
  by (simp add: ni_functionalWrite_def case_prod_beta Let_def)

lemma sum_functionalWrite_map: "snd (sum_functionalWrite w cs) = map (\<lambda>c. snd (w c)) cs"
  by (induction cs) (simp_all add: case_prod_beta)

section \<open>Properties\<close>

text \<open>The flits that wait in the stall queues, and all others.\<close>

definition stalled_flits :: "GarnetNetwork \<Rightarrow> flit multiset" where
  "stalled_flits n = (\<Sum>ni\<leftarrow>m_nis n. mset (m_stall_queue ni))"

definition moving_flits :: "GarnetNetwork \<Rightarrow> flit multiset" where
  "moving_flits n = (\<Sum>r\<leftarrow>m_routers n. router_flits r) + link_flits (n_env n) + (\<Sum>ni\<leftarrow>m_nis n. ni_sending ni)"

text \<open>C16. A functional write to the network is offered to every flit in a router, on a link or in the injection buffers and the output
  queue of an interface exactly once, the result is the number of messages that took it, and the flits in the stall
  queues, which together with those are all flits of the network, are not written.\<close>

theorem functional_write_reaches_all_but_stalled:
  "fst (GarnetNetwork_functionalWrite fw n) = fw_hits fw (moving_flits n) \<and>
   moving_flits (snd (GarnetNetwork_functionalWrite fw n)) = image_mset (written fw) (moving_flits n) \<and>
   stalled_flits (snd (GarnetNetwork_functionalWrite fw n)) = stalled_flits n \<and>
   net_packets n = image_mset packet (moving_flits n + stalled_flits n)"
proof (intro conjI)
  show "fst (GarnetNetwork_functionalWrite fw n) = fw_hits fw (moving_flits n)"
    by (simp add: GarnetNetwork_functionalWrite_def moving_flits_def link_flits_def case_prod_beta Let_def
        router_w.vector_hits link_w.vector_hits ni_w.vector_hits)
  show "moving_flits (snd (GarnetNetwork_functionalWrite fw n)) = image_mset (written fw) (moving_flits n)"
    by (simp add: GarnetNetwork_functionalWrite_def moving_flits_def link_flits_def case_prod_beta Let_def
        router_w.vector_wrote link_w.vector_wrote ni_w.vector_wrote)
  show "stalled_flits (snd (GarnetNetwork_functionalWrite fw n)) = stalled_flits n"
    by (simp add: GarnetNetwork_functionalWrite_def stalled_flits_def case_prod_beta Let_def sum_functionalWrite_map o_def)
  have "(\<Sum>ni\<leftarrow>nis. ni_flits ni) = (\<Sum>ni\<leftarrow>nis. ni_sending ni) + (\<Sum>ni\<leftarrow>nis. mset (m_stall_queue ni))" for nis
    by (induction nis) (simp_all add: ni_flits_def ni_sending_def)
  then show "net_packets n = image_mset packet (moving_flits n + stalled_flits n)"
    by (simp add: net_packets_def moving_flits_def stalled_flits_def)
qed

end
