(* ===== verification/Simple_Network.thy ===== *)
theory Simple_Network
  imports Complex_Main Message_Buffer
begin

text \<open>
  The simple network (src/gem5/src/mem/ruby/network/simple): \<^verbatim>\<open>PerfectSwitch\<close>, \<^verbatim>\<open>Throttle\<close>, \<^verbatim>\<open>Switch\<close> and
  \<^verbatim>\<open>SimpleNetwork\<close>, with the queue tables of the base class \<^verbatim>\<open>Network\<close> (network/Network.cc).

  A perfect switch moves messages from its input buffers to one intermediate buffer per output link and virtual
  network; a throttle per output link moves them on, limited by the bandwidth of the link, into the input buffer of
  the next switch or of a controller. The buffers are shared between these objects, so they live in one store
  \<open>sn_buffers\<close>: a \<^verbatim>\<open>MessageBuffer*\<close> is a position in it, the null pointer is \<open>None\<close>. A switch is named by its position
  in \<^verbatim>\<open>m_switches\<close>, a throttle by its switch and its node number, which is its position in \<^verbatim>\<open>m_throttles\<close>. The utilisation
  ratio of a throttle, a \<^verbatim>\<open>double\<close> in the code, is read as a real number.

  This theory has the operations and the termination of their loops; Simple_Delivery has the properties.
\<close>

unbundle bit_operations_syntax

type_synonym mb_ptr = "int option"

record LinkOrder =
  lo_link :: int
  lo_value :: int

record PerfectSwitch =
  ps_in :: "mb_ptr list list"
  ps_out :: "mb_ptr list list"
  ps_routing_table :: "NetDest list"
  ps_link_order :: "LinkOrder list"
  ps_virtual_networks :: int
  ps_round_robin_start :: int
  ps_wakeups_wo_switch :: int
  ps_pending_message_count :: "int list"

record Throttle =
  th_in :: "mb_ptr list"
  th_out :: "mb_ptr list"
  th_vnets :: int
  th_units_remaining :: "int list"
  th_node :: int
  th_link_bandwidth_multiplier :: int
  th_link_latency :: Cycles
  th_wakeups_wo_switch :: int
  th_endpoint_bandwidth :: int
  th_msg_counts :: "MessageSizeType \<Rightarrow> int \<Rightarrow> nat"
  th_link_utilization_proxy :: real

record Switch =
  sw_perfect_switch :: PerfectSwitch
  sw_throttles :: "Throttle list"
  sw_port_buffers :: "int list"
  sw_num_connected_buffers :: int

record SimpleNetwork =
  sn_switches :: "Switch list"
  sn_int_link_buffers :: "int list"
  sn_num_connected_buffers :: int
  sn_endpoint_bandwidth :: int
  sn_adaptive_routing :: bool
  sn_virtual_networks :: int
  sn_nodes :: int
  sn_ordered :: "bool list"
  sn_vnet_type_names :: "string list"
  sn_toNetQueues :: "mb_ptr list list"
  sn_fromNetQueues :: "mb_ptr list list"
  sn_buffers :: "MessageBuffer list"
  sn_env :: env

section \<open>The store of buffers\<close>

definition deref :: "SimpleNetwork \<Rightarrow> mb_ptr \<Rightarrow> MessageBuffer option" where
  "deref n p = do { i \<leftarrow> p; vec_at (sn_buffers n) i }"

definition put_buf :: "mb_ptr \<Rightarrow> MessageBuffer \<Rightarrow> SimpleNetwork \<Rightarrow> SimpleNetwork option" where
  "put_buf p b n = do { i \<leftarrow> p; bs \<leftarrow> vec_set (sn_buffers n) i b; Some (n\<lparr>sn_buffers := bs\<rparr>) }"

definition get_ps :: "int \<Rightarrow> SimpleNetwork \<Rightarrow> PerfectSwitch option" where
  "get_ps sid n = map_option sw_perfect_switch (vec_at (sn_switches n) sid)"

definition on_ps ::
    "int \<Rightarrow> (PerfectSwitch \<Rightarrow> PerfectSwitch option) \<Rightarrow> SimpleNetwork \<Rightarrow> SimpleNetwork option" where
  "on_ps sid f n = do {
     sw \<leftarrow> vec_at (sn_switches n) sid;
     ps \<leftarrow> f (sw_perfect_switch sw);
     sws \<leftarrow> vec_set (sn_switches n) sid (sw\<lparr>sw_perfect_switch := ps\<rparr>);
     Some (n\<lparr>sn_switches := sws\<rparr>) }"

definition get_th :: "int \<Rightarrow> int \<Rightarrow> SimpleNetwork \<Rightarrow> Throttle option" where
  "get_th sid k n = do { sw \<leftarrow> vec_at (sn_switches n) sid; vec_at (sw_throttles sw) k }"

definition on_th ::
    "int \<Rightarrow> int \<Rightarrow> (Throttle \<Rightarrow> Throttle option) \<Rightarrow> SimpleNetwork \<Rightarrow> SimpleNetwork option" where
  "on_th sid k f n = do {
     sw \<leftarrow> vec_at (sn_switches n) sid;
     th \<leftarrow> vec_at (sw_throttles sw) k;
     th \<leftarrow> f th;
     ths \<leftarrow> vec_set (sw_throttles sw) k th;
     sws \<leftarrow> vec_set (sn_switches n) sid (sw\<lparr>sw_throttles := ths\<rparr>);
     Some (n\<lparr>sn_switches := sws\<rparr>) }"

text \<open>
  The virtual \<^verbatim>\<open>storeEventInfo\<close>: only the perfect switch overrides it, to count the messages that wait for it.
\<close>

fun storeEventInfo :: "consumer \<Rightarrow> int \<Rightarrow> SimpleNetwork \<Rightarrow> SimpleNetwork option" where
  "storeEventInfo (C_Switch sid) info n = on_ps sid (\<lambda>ps. do {
     c \<leftarrow> vec_add (ps_pending_message_count ps) info 1;
     Some (ps\<lparr>ps_pending_message_count := c\<rparr>) }) n"
| "storeEventInfo _ info n = Some n"

text \<open>\<^verbatim>\<open>MessageBuffer::enqueue\<close> on a buffer of the store, with its last statement, the call of \<^verbatim>\<open>storeEventInfo\<close>.\<close>

definition sn_enqueue ::
    "ruby_system \<Rightarrow> mb_ptr \<Rightarrow> Message \<Rightarrow> Tick \<Rightarrow> Tick \<Rightarrow> SimpleNetwork \<Rightarrow> SimpleNetwork option" where
  "sn_enqueue sys p msg t delta n = do {
     b \<leftarrow> deref n p;
     (b, e) \<leftarrow> mb_enqueue sys msg t delta b (sn_env n);
     n \<leftarrow> put_buf p b (n\<lparr>sn_env := e\<rparr>);
     c \<leftarrow> m_consumer b;
     storeEventInfo c (m_vnet_id b) n }"

definition sn_dequeue :: "mb_ptr \<Rightarrow> Tick \<Rightarrow> SimpleNetwork \<Rightarrow> (Message \<times> SimpleNetwork) option" where
  "sn_dequeue p t n = do {
     b \<leftarrow> deref n p;
     (_, msg, b, e) \<leftarrow> mb_dequeue t True b (sn_env n);
     n \<leftarrow> put_buf p b (n\<lparr>sn_env := e\<rparr>);
     Some (msg, n) }"

definition sn_slots :: "mb_ptr \<Rightarrow> Tick \<Rightarrow> SimpleNetwork \<Rightarrow> (bool \<times> SimpleNetwork) option" where
  "sn_slots p t n = do {
     b \<leftarrow> deref n p;
     let (ok, b) = areNSlotsAvailable 1 t b;
     n \<leftarrow> put_buf p b n;
     Some (ok, n) }"

definition sn_scheduleEvent :: "consumer \<Rightarrow> Cycles \<Rightarrow> SimpleNetwork \<Rightarrow> SimpleNetwork option" where
  "sn_scheduleEvent c d n = do { e \<leftarrow> scheduleEvent c d (sn_env n); Some (n\<lparr>sn_env := e\<rparr>) }"

section \<open>class PerfectSwitch\<close>

definition PerfectSwitch_new :: "int \<Rightarrow> PerfectSwitch" where
  "PerfectSwitch_new virt_nets =
     \<lparr>ps_in = [], ps_out = [], ps_routing_table = [], ps_link_order = [], ps_virtual_networks = virt_nets,
      ps_round_robin_start = 0, ps_wakeups_wo_switch = 0, ps_pending_message_count = []\<rparr>"

definition PerfectSwitch_init :: "PerfectSwitch \<Rightarrow> PerfectSwitch" where
  "PerfectSwitch_init ps = ps\<lparr>ps_pending_message_count :=
     ps_pending_message_count ps @ replicate (nat (ps_virtual_networks ps)) 0\<rparr>"

text \<open>The buffers of a new input port learn their consumer, port and virtual network.\<close>

definition PerfectSwitch_addInPort :: "int \<Rightarrow> mb_ptr list \<Rightarrow> SimpleNetwork \<Rightarrow> SimpleNetwork option" where
  "PerfectSwitch_addInPort sid inp n = do {
     ps \<leftarrow> get_ps sid n;
     let port = int (length (ps_in ps));
     n \<leftarrow> on_ps sid (\<lambda>ps. Some (ps\<lparr>ps_in := ps_in ps @ [inp]\<rparr>)) n;
     for_each (\<lambda>i n. do {
         p \<leftarrow> vec_at inp i;
         if p = None then Some n
         else do {
           b \<leftarrow> deref n p;
           b \<leftarrow> setConsumer (C_Switch sid) b;
           put_buf p (mb_setVnet i (mb_setIncomingLink port b)) n } })
       [0..int (length inp) - 1] n }"

definition PerfectSwitch_addOutPort :: "mb_ptr list \<Rightarrow> NetDest \<Rightarrow> PerfectSwitch \<Rightarrow> PerfectSwitch" where
  "PerfectSwitch_addOutPort out routing_table_entry ps =
     ps\<lparr>ps_link_order := ps_link_order ps @ [\<lparr>lo_link = int (length (ps_out ps)), lo_value = 0\<rparr>],
        ps_out := ps_out ps @ [out],
        ps_routing_table := ps_routing_table ps @ [routing_table_entry]\<rparr>"

subsection \<open>Choosing the links\<close>

text \<open>
  The order in which links are tried. With adaptive routing it follows the lengths of the outgoing queues, with a
  random low byte; \<^verbatim>\<open>std::sort\<close> leaves links of equal value in their order, as it does for the few links of a switch.
\<close>

definition out_queue_length :: "PerfectSwitch \<Rightarrow> int \<Rightarrow> Tick \<Rightarrow> SimpleNetwork \<Rightarrow> (int \<times> SimpleNetwork) option" where
  "out_queue_length ps out t n =
     for_each (\<lambda>v (len, n). do {
         p \<leftarrow> mat_at (ps_out ps) out v;
         b \<leftarrow> deref n p;
         let (k, b) = mb_getSize t b;
         n \<leftarrow> put_buf p b n;
         Some (len + int k, n) })
       [0..ps_virtual_networks ps - 1] (0, n)"

definition set_link_order :: "int \<Rightarrow> int \<Rightarrow> int \<Rightarrow> SimpleNetwork \<Rightarrow> SimpleNetwork option" where
  "set_link_order sid out value = on_ps sid (\<lambda>ps. do {
     lo \<leftarrow> vec_set (ps_link_order ps) out \<lparr>lo_link = out, lo_value = value\<rparr>;
     Some (ps\<lparr>ps_link_order := lo\<rparr>) })"

definition measure_link :: "int \<Rightarrow> PerfectSwitch \<Rightarrow> Tick \<Rightarrow> int \<Rightarrow> SimpleNetwork \<Rightarrow> SimpleNetwork option" where
  "measure_link sid ps t out n = do {
     (len, n) \<leftarrow> out_queue_length ps out t n;
     let (r, e) = random_range 0 255 (sn_env n);
     set_link_order sid out (push_bit 8 len OR int r) (n\<lparr>sn_env := e\<rparr>) }"

definition order_links :: "int \<Rightarrow> int \<Rightarrow> Tick \<Rightarrow> SimpleNetwork \<Rightarrow> SimpleNetwork option" where
  "order_links sid vnet t n =
     (if \<not> sn_adaptive_routing n then Some n
      else do {
        ps \<leftarrow> get_ps sid n;
        ordered \<leftarrow> vec_at (sn_ordered n) vnet;
        if ordered
        then for_each (\<lambda>out. set_link_order sid out 0) [0..int (length (ps_out ps)) - 1] n
        else do {
          n \<leftarrow> for_each (measure_link sid ps t) [0..int (length (ps_out ps)) - 1] n;
          on_ps sid (\<lambda>ps. Some (ps\<lparr>ps_link_order := sort_key lo_value (ps_link_order ps)\<rparr>)) n } })"

text \<open>
  The loop over the routing table: a link that reaches some of the destinations still to be served takes them.
\<close>

definition route_step :: "PerfectSwitch \<Rightarrow> int \<Rightarrow> int list \<times> NetDest list \<times> NetDest \<Rightarrow>
    (int list \<times> NetDest list \<times> NetDest) option" where
  "route_step ps i = (\<lambda>(output_links, output_link_destinations, msg_dsts). do {
     lo \<leftarrow> vec_at (ps_link_order ps) i;
     dst \<leftarrow> vec_at (ps_routing_table ps) (lo_link lo);
     b \<leftarrow> NetDest_intersectionIsNotEmpty msg_dsts dst;
     if \<not> b then Some (output_links, output_link_destinations, msg_dsts)
     else do {
       d \<leftarrow> NetDest_AND msg_dsts dst;
       msg_dsts \<leftarrow> NetDest_removeNetDest msg_dsts dst;
       Some (output_links @ [lo_link lo], output_link_destinations @ [d], msg_dsts) } })"

definition route_links :: "PerfectSwitch \<Rightarrow> NetDest \<Rightarrow> (int list \<times> NetDest list \<times> NetDest) option" where
  "route_links ps msg_dsts =
     for_each (route_step ps) [0..int (length (ps_routing_table ps)) - 1] ([], [], msg_dsts)"

definition route_message :: "PerfectSwitch \<Rightarrow> NetDest \<Rightarrow> (int list \<times> NetDest list) option" where
  "route_message ps msg_dsts = do {
     (output_links, output_link_destinations, rest) \<leftarrow> route_links ps msg_dsts;
     cassert (NetDest_count rest = 0);
     Some (output_links, output_link_destinations) }"

subsection \<open>Moving messages\<close>

definition check_slots ::
    "PerfectSwitch \<Rightarrow> int list \<Rightarrow> int \<Rightarrow> Tick \<Rightarrow> SimpleNetwork \<Rightarrow> (bool \<times> SimpleNetwork) option" where
  "check_slots ps output_links vnet t n =
     for_each (\<lambda>outgoing (enough, n). do {
         p \<leftarrow> mat_at (ps_out ps) outgoing vnet;
         (ok, n) \<leftarrow> sn_slots p t n;
         Some (enough \<and> ok, n) }) output_links (True, n)"

text \<open>The dequeued message goes down the first link, private copies of the unmodified one down the others.\<close>

definition send_copies ::
    "ruby_system \<Rightarrow> PerfectSwitch \<Rightarrow> int list \<Rightarrow> NetDest list \<Rightarrow> int \<Rightarrow> Tick \<Rightarrow> Message \<Rightarrow> Message \<Rightarrow>
       SimpleNetwork \<Rightarrow> SimpleNetwork option" where
  "send_copies sys ps output_links output_link_destinations vnet t msg unmodified_msg n =
     for_each (\<lambda>i n. do {
         outgoing \<leftarrow> vec_at output_links i;
         d \<leftarrow> vec_at output_link_destinations i;
         p \<leftarrow> mat_at (ps_out ps) outgoing vnet;
         let m = (if i > 0 then unmodified_msg else msg)\<lparr>Destination := d\<rparr>;
         sn_enqueue sys p m t (cyclesToTicks (sn_env n) 1) n })
       [0..int (length output_links) - 1] n"

definition take_pending :: "int \<Rightarrow> mb_ptr \<Rightarrow> int \<Rightarrow> Tick \<Rightarrow> SimpleNetwork \<Rightarrow> (Message \<times> SimpleNetwork) option" where
  "take_pending sid p vnet t n = do {
     (msg, n) \<leftarrow> sn_dequeue p t n;
     n \<leftarrow> on_ps sid (\<lambda>ps. do {
         c \<leftarrow> vec_add (ps_pending_message_count ps) vnet (- 1);
         Some (ps\<lparr>ps_pending_message_count := c\<rparr>) }) n;
     Some (msg, n) }"

text \<open>One turn of the loop of \<^verbatim>\<open>operateMessageBuffer\<close> on a ready buffer; \<open>False\<close> is the \<^verbatim>\<open>break\<close> of a blocked message.\<close>

definition operate_one ::
    "ruby_system \<Rightarrow> int \<Rightarrow> mb_ptr \<Rightarrow> int \<Rightarrow> Tick \<Rightarrow> SimpleNetwork \<Rightarrow> (bool \<times> SimpleNetwork) option" where
  "operate_one sys sid p vnet t n = do {
     b \<leftarrow> deref n p;
     msg \<leftarrow> peekMsgPtr b;
     ps \<leftarrow> get_ps sid n;
     cassert (length (ps_link_order ps) = length (ps_routing_table ps));
     cassert (length (ps_link_order ps) = length (ps_out ps));
     n \<leftarrow> order_links sid vnet t n;
     ps \<leftarrow> get_ps sid n;
     (output_links, output_link_destinations) \<leftarrow> route_message ps (Destination msg);
     (enough, n) \<leftarrow> check_slots ps output_links vnet t n;
     if \<not> enough
     then do { n \<leftarrow> sn_scheduleEvent (C_Switch sid) 1 n; Some (False, n) }
     else do {
       (msg', n) \<leftarrow> take_pending sid p vnet t n;
       n \<leftarrow> send_copies sys ps output_links output_link_destinations vnet t msg' msg n;
       Some (True, n) } }"

section \<open>class Throttle, one transfer\<close>

definition MESSAGE_SIZE_MULTIPLIER :: int where
  "MESSAGE_SIZE_MULTIPLIER = 1000"

text \<open>\<^verbatim>\<open>BROADCAST_SCALING\<close> is 1, so the branch that scales broadcast messages is never taken.\<close>

definition network_message_to_size :: "garnet_cfg \<Rightarrow> Message \<Rightarrow> int option" where
  "network_message_to_size c m = do {
     size \<leftarrow> MessageSizeType_to_int c (MessageSize m);
     Some (int size * MESSAGE_SIZE_MULTIPLIER) }"

definition getLinkBandwidth :: "Throttle \<Rightarrow> int" where
  "getLinkBandwidth th = th_endpoint_bandwidth th * th_link_bandwidth_multiplier th"

definition set_units :: "int \<Rightarrow> int \<Rightarrow> int \<Rightarrow> int \<Rightarrow> SimpleNetwork \<Rightarrow> SimpleNetwork option" where
  "set_units sid k vnet u = on_th sid k (\<lambda>th. do {
     us \<leftarrow> vec_set (th_units_remaining th) vnet u;
     Some (th\<lparr>th_units_remaining := us\<rparr>) })"

definition get_units :: "int \<Rightarrow> int \<Rightarrow> int \<Rightarrow> SimpleNetwork \<Rightarrow> int option" where
  "get_units sid k vnet n = do { th \<leftarrow> get_th sid k n; vec_at (th_units_remaining th) vnet }"

definition count_message :: "MessageSizeType \<Rightarrow> int \<Rightarrow> Throttle \<Rightarrow> Throttle" where
  "count_message ty vnet th = th\<lparr>th_msg_counts := (th_msg_counts th)
     (ty := (th_msg_counts th ty)(vnet := th_msg_counts th ty vnet + 1))\<rparr>"

text \<open>The test \<^verbatim>\<open>bw_remaining > 0 && (in->isReady(current_time) || m_units_remaining[vnet] > 0)\<close>.\<close>

definition has_work :: "int \<Rightarrow> int \<Rightarrow> int \<Rightarrow> mb_ptr \<Rightarrow> Tick \<Rightarrow> int \<Rightarrow> SimpleNetwork \<Rightarrow> bool option" where
  "has_work sid k vnet inp t bw_remaining n = do {
     u \<leftarrow> get_units sid k vnet n;
     b \<leftarrow> deref n inp;
     Some (bw_remaining > 0 \<and> (mb_isReady t b \<or> u > 0)) }"

text \<open>The first half of the loop body: fetch the next message when the previous one is through.\<close>

definition fetch_message ::
    "ruby_system \<Rightarrow> int \<Rightarrow> int \<Rightarrow> int \<Rightarrow> mb_ptr \<Rightarrow> mb_ptr \<Rightarrow> Tick \<Rightarrow> SimpleNetwork \<Rightarrow> SimpleNetwork option" where
  "fetch_message sys sid k vnet inp out t n = do {
     th \<leftarrow> get_th sid k n;
     u \<leftarrow> get_units sid k vnet n;
     b \<leftarrow> deref n inp;
     if u = 0 \<and> mb_isReady t b
     then do {
       msg \<leftarrow> peekMsgPtr b;
       size \<leftarrow> network_message_to_size (cfg (sn_env n)) msg;
       n \<leftarrow> set_units sid k vnet (u + size) n;
       (msg, n) \<leftarrow> sn_dequeue inp t n;
       n \<leftarrow> sn_enqueue sys out msg t (cyclesToTicks (sn_env n) (th_link_latency th)) n;
       on_th sid k (\<lambda>th. Some (count_message (MessageSize msg) vnet th)) n }
     else Some n }"

text \<open>The second half: the bandwidth that is left pays for the units that are left.\<close>

definition spend_bandwidth ::
    "int \<Rightarrow> int \<Rightarrow> int \<Rightarrow> int \<Rightarrow> SimpleNetwork \<Rightarrow> (int \<times> SimpleNetwork) option" where
  "spend_bandwidth sid k vnet bw_remaining n = do {
     u \<leftarrow> get_units sid k vnet n;
     let diff = u - bw_remaining;
     n \<leftarrow> set_units sid k vnet (max 0 diff) n;
     Some (max 0 (- diff), n) }"

definition transfer_units ::
    "ruby_system \<Rightarrow> int \<Rightarrow> int \<Rightarrow> int \<Rightarrow> mb_ptr \<Rightarrow> mb_ptr \<Rightarrow> Tick \<Rightarrow> int \<Rightarrow> SimpleNetwork \<Rightarrow>
       (int \<times> SimpleNetwork) option" where
  "transfer_units sys sid k vnet inp out t bw_remaining n = do {
     n \<leftarrow> fetch_message sys sid k vnet inp out t n;
     spend_bandwidth sid k vnet bw_remaining n }"

section \<open>What the operations change\<close>

lemma deref_Some:
  "deref n p = Some b \<longleftrightarrow> (\<exists>i. p = Some i \<and> 0 \<le> i \<and> i < int (length (sn_buffers n)) \<and> sn_buffers n ! nat i = b)"
  by (auto simp: deref_def run_simps)

lemma put_buf_Some:
  "put_buf p b n = Some n' \<longleftrightarrow> (\<exists>i. p = Some i \<and> 0 \<le> i \<and> i < int (length (sn_buffers n)) \<and>
     n' = n\<lparr>sn_buffers := (sn_buffers n)[nat i := b]\<rparr>)"
  by (auto simp: put_buf_def run_simps)

lemma on_ps_Some:
  "on_ps sid f n = Some n' \<longleftrightarrow> 0 \<le> sid \<and> sid < int (length (sn_switches n)) \<and>
     (\<exists>ps. f (sw_perfect_switch (sn_switches n ! nat sid)) = Some ps \<and>
       n' = n\<lparr>sn_switches := (sn_switches n)[nat sid := (sn_switches n ! nat sid)\<lparr>sw_perfect_switch := ps\<rparr>]\<rparr>)"
  by (auto simp: on_ps_def run_simps)

lemma get_th_Some:
  "get_th sid k n = Some th \<longleftrightarrow> 0 \<le> sid \<and> sid < int (length (sn_switches n)) \<and> 0 \<le> k \<and>
     k < int (length (sw_throttles (sn_switches n ! nat sid))) \<and> sw_throttles (sn_switches n ! nat sid) ! nat k = th"
  by (auto simp: get_th_def run_simps)

lemma on_th_Some:
  "on_th sid k f n = Some n' \<longleftrightarrow> (\<exists>th th'. get_th sid k n = Some th \<and> f th = Some th' \<and>
     n' = n\<lparr>sn_switches := (sn_switches n)[nat sid := (sn_switches n ! nat sid)
       \<lparr>sw_throttles := (sw_throttles (sn_switches n ! nat sid))[nat k := th']\<rparr>]\<rparr>)"
  by (auto simp: on_th_def get_th_Some run_simps)

lemma deref_put_buf: "put_buf p b n = Some n' \<Longrightarrow> deref n' q = (if q = p then Some b else deref n q)"
  by (cases q) (auto simp: put_buf_Some deref_def vec_at_def nth_list_update split: if_splits)

text \<open>The messages in the buffers, as multisets, and those that can be taken at time \<open>t\<close>.\<close>

definition heap_at :: "SimpleNetwork \<Rightarrow> mb_ptr \<Rightarrow> Message multiset" where
  "heap_at n p = (case deref n p of None \<Rightarrow> {#} | Some b \<Rightarrow> mset (m_prio_heap b))"

definition ready_at :: "Tick \<Rightarrow> SimpleNetwork \<Rightarrow> mb_ptr \<Rightarrow> Message multiset" where
  "ready_at t n p = filter_mset (\<lambda>m. m_LastEnqueueTime m \<le> t) (heap_at n p)"

lemma heap_at_put:
  "put_buf p b n = Some n' \<Longrightarrow> heap_at n' q = (if q = p then mset (m_prio_heap b) else heap_at n q)"
  by (simp add: heap_at_def deref_put_buf)

lemma heap_at_cong: "sn_buffers n' = sn_buffers n \<Longrightarrow> heap_at n' = heap_at n"
  by (simp add: heap_at_def deref_def fun_eq_iff)

lemma on_ps_heap: "on_ps sid f n = Some n' \<Longrightarrow> heap_at n' = heap_at n"
  by (rule heap_at_cong) (auto simp: on_ps_Some)

lemma on_th_heap: "on_th sid k f n = Some n' \<Longrightarrow> heap_at n' = heap_at n"
  by (rule heap_at_cong) (auto simp: on_th_Some)

lemma storeEventInfo_heap: "storeEventInfo c v n = Some n' \<Longrightarrow> heap_at n' = heap_at n"
  by (cases c) (auto dest: on_ps_heap)

lemma sn_enqueue_heap:
  assumes "sn_enqueue sys p m t d n = Some n'"
  obtains a k where "t < a" "heap_at n' = (heap_at n)(p := add_mset (arrived t a k m) (heap_at n p))"
proof -
  obtain b b' e n1 c where b: "deref n p = Some b" "mb_enqueue sys m t d b (sn_env n) = Some (b', e)"
    "put_buf p b' (n\<lparr>sn_env := e\<rparr>) = Some n1" "storeEventInfo c (m_vnet_id b') n1 = Some n'"
    using assms by (auto simp: sn_enqueue_def bind_Some)
  obtain a k where a: "t < a" "m_prio_heap b' = push_heap msg_greater (m_prio_heap b) (arrived t a k m)"
    using b(2) by (rule mb_enqueue_heap)
  have "heap_at (n\<lparr>sn_env := e\<rparr>) = heap_at n" by (rule heap_at_cong) simp
  then have "heap_at n' = (heap_at n)(p := add_mset (arrived t a k m) (heap_at n p))"
    using heap_at_put [OF b(3)] storeEventInfo_heap [OF b(4)] a(2) b(1) by (simp add: fun_eq_iff heap_at_def)
  then show thesis using that a(1) by blast
qed

lemma sn_dequeue_heap:
  assumes "sn_dequeue p t n = Some (m, n')"
  obtains b d where "deref n p = Some b" "mb_isReady t b" "m = (hd (m_prio_heap b))\<lparr>m_DelayedTicks := d\<rparr>"
    "heap_at n' = (heap_at n)(p := heap_at n p - {#hd (m_prio_heap b)#})" "hd (m_prio_heap b) \<in># heap_at n p"
proof -
  obtain b b' e d where b: "deref n p = Some b" "mb_dequeue t True b (sn_env n) = Some (d, m, b', e)"
    "put_buf p b' (n\<lparr>sn_env := e\<rparr>) = Some n'"
    using assms by (auto simp: sn_dequeue_def bind_Some)
  note q = mb_dequeue_Some [OF b(2)]
  have ne: "m_prio_heap b \<noteq> []" using q by (auto simp: mb_isReady_def)
  have "heap_at (n\<lparr>sn_env := e\<rparr>) = heap_at n" by (rule heap_at_cong) simp
  then have "heap_at n' = (heap_at n)(p := heap_at n p - {#hd (m_prio_heap b)#})"
    using heap_at_put [OF b(3)] q ne b(1) by (simp add: fun_eq_iff heap_at_def mset_pop_heap)
  moreover have "hd (m_prio_heap b) \<in># heap_at n p" using ne b(1) by (simp add: heap_at_def)
  ultimately show thesis using that b(1) q by blast
qed

text \<open>A message that is enqueued arrives later; one that is dequeued was ready.\<close>

lemma sn_enqueue_ready: "sn_enqueue sys p m t d n = Some n' \<Longrightarrow> ready_at t n' q = ready_at t n q"
  by (erule sn_enqueue_heap) (auto simp: ready_at_def arrived_def)

lemma sn_dequeue_ready:
  assumes "sn_dequeue p t n = Some (m, n')"
  shows "ready_at t n' q \<subseteq># ready_at t n q" "size (ready_at t n' p) < size (ready_at t n p)"
proof -
  obtain b where b: "mb_isReady t b" "heap_at n' = (heap_at n)(p := heap_at n p - {#hd (m_prio_heap b)#})"
    "hd (m_prio_heap b) \<in># heap_at n p" using assms by (rule sn_dequeue_heap)
  then have r: "ready_at t n' p = ready_at t n p - {#hd (m_prio_heap b)#}" "hd (m_prio_heap b) \<in># ready_at t n p"
    by (simp_all add: ready_at_def mb_isReady_def)
  then show "ready_at t n' q \<subseteq># ready_at t n q" using b(2) by (cases "q = p") (auto simp: ready_at_def)
  show "size (ready_at t n' p) < size (ready_at t n p)" using r by (simp add: size_Diff1_less)
qed

subsection \<open>Steps that move no message\<close>

text \<open>How the network is wired, and the counts of waiting messages.\<close>

definition wiring :: "SimpleNetwork \<Rightarrow>
    (consumer option \<times> int) list \<times>
    (mb_ptr list list \<times> mb_ptr list list \<times> NetDest list \<times> int \<times> (mb_ptr list \<times> mb_ptr list \<times> int) list) list" where
  "wiring n = (map (\<lambda>b. (m_consumer b, m_vnet_id b)) (sn_buffers n),
     map (\<lambda>sw. (ps_in (sw_perfect_switch sw), ps_out (sw_perfect_switch sw), ps_routing_table (sw_perfect_switch sw),
        ps_virtual_networks (sw_perfect_switch sw), map (\<lambda>th. (th_in th, th_out th, th_vnets th)) (sw_throttles sw)))
       (sn_switches n))"

definition pending_counts :: "SimpleNetwork \<Rightarrow> int list list" where
  "pending_counts n = map (\<lambda>sw. ps_pending_message_count (sw_perfect_switch sw)) (sn_switches n)"

definition quiet :: "SimpleNetwork \<Rightarrow> SimpleNetwork \<Rightarrow> bool" where
  "quiet n n' \<longleftrightarrow> wiring n' = wiring n \<and> pending_counts n' = pending_counts n \<and>
     map m_prio_heap (sn_buffers n') = map m_prio_heap (sn_buffers n) \<and> calm (sn_env n) (sn_env n')"

lemma quiet_refl [simp]: "quiet n n"
  by (simp add: quiet_def)

lemma quiet_trans: "quiet n n' \<Longrightarrow> quiet n' n'' \<Longrightarrow> quiet n n''"
  by (auto simp: quiet_def intro: calm_trans)

lemma quiet_env: "calm (sn_env n) e \<Longrightarrow> quiet n (n\<lparr>sn_env := e\<rparr>)"
  by (simp add: quiet_def wiring_def pending_counts_def)

lemma quiet_put_buf:
  assumes "put_buf p b' n = Some n'" "deref n p = Some b" "m_prio_heap b' = m_prio_heap b"
    "m_consumer b' = m_consumer b" "m_vnet_id b' = m_vnet_id b"
  shows "quiet n n'"
  using assms by (auto simp: put_buf_Some deref_Some quiet_def wiring_def pending_counts_def map_update_same)

lemma quiet_on_ps:
  assumes "on_ps sid f n = Some n'"
    and "\<And>ps ps'. f ps = Some ps' \<Longrightarrow> ps_in ps' = ps_in ps \<and> ps_out ps' = ps_out ps \<and>
      ps_routing_table ps' = ps_routing_table ps \<and> ps_virtual_networks ps' = ps_virtual_networks ps \<and>
      ps_pending_message_count ps' = ps_pending_message_count ps"
  shows "quiet n n'"
  using assms by (auto simp: on_ps_Some quiet_def wiring_def pending_counts_def map_update_same)

lemma quiet_on_th:
  assumes "on_th sid k f n = Some n'"
    and "\<And>th th'. f th = Some th' \<Longrightarrow> th_in th' = th_in th \<and> th_out th' = th_out th \<and> th_vnets th' = th_vnets th"
  shows "quiet n n'"
  using assms by (auto simp: on_th_Some get_th_Some quiet_def wiring_def pending_counts_def map_update_same)

lemma quiet_for_each:
  assumes "for_each f xs n = Some n'" "\<And>x n n'. f x n = Some n' \<Longrightarrow> quiet n n'"
  shows "quiet n n'"
  using assms(1) by (rule for_each_inv) (auto intro: quiet_trans assms(2))

lemma quiet_for_each_pair:
  assumes "for_each f xs (a, n) = Some (a', n')" "\<And>x a n a' n'. f x (a, n) = Some (a', n') \<Longrightarrow> quiet n n'"
  shows "quiet n n'"
proof -
  have "quiet n (snd (a', n'))"
    using assms(1) by (rule for_each_inv) (auto intro: quiet_trans [OF _ assms(2)])
  then show ?thesis by simp
qed

lemma sn_slots_Some:
  assumes "sn_slots p t n = Some (ok, n')"
  obtains b b' where "deref n p = Some b" "areNSlotsAvailable 1 t b = (ok, b')" "put_buf p b' n = Some n'"
proof -
  obtain b where b: "deref n p = Some b" "put_buf p (snd (areNSlotsAvailable 1 t b)) n = Some n'"
    "fst (areNSlotsAvailable 1 t b) = ok"
    using assms by (auto simp: sn_slots_def bind_Some case_prod_beta)
  show thesis by (rule that [OF b(1) _ b(2)]) (simp add: b(3) [symmetric])
qed

lemma sn_slots_quiet: "sn_slots p t n = Some (ok, n') \<Longrightarrow> quiet n n'"
  by (erule sn_slots_Some) (auto simp: areNSlotsAvailable_def split: if_splits intro: quiet_put_buf)

lemma sn_scheduleEvent_quiet: "sn_scheduleEvent c d n = Some n' \<Longrightarrow> quiet n n'"
  by (auto simp: sn_scheduleEvent_def bind_Some dest: scheduleEvent_calm intro: quiet_env)

lemma random_range_calm: "random_range lo hi e = (r, e') \<Longrightarrow> calm e e'"
  by (auto simp: random_range_def random_draw_def rng_next_def calm_def ctx_def)

lemma out_queue_length_quiet: "out_queue_length ps out t n = Some (len, n') \<Longrightarrow> quiet n n'"
  unfolding out_queue_length_def
  by (erule quiet_for_each_pair) (auto simp: bind_Some mb_getSize_def Let_def split: if_splits intro: quiet_put_buf)

lemma set_link_order_quiet: "set_link_order sid out v n = Some n' \<Longrightarrow> quiet n n'"
  unfolding set_link_order_def by (erule quiet_on_ps) (auto simp: bind_Some)

lemma measure_link_quiet:
  assumes "measure_link sid ps t out n = Some n'"
  shows "quiet n n'"
proof -
  obtain len n1 r e where r: "out_queue_length ps out t n = Some (len, n1)" "random_range 0 255 (sn_env n1) = (r, e)"
    "set_link_order sid out (push_bit 8 len OR int r) (n1\<lparr>sn_env := e\<rparr>) = Some n'"
    using assms by (auto simp: measure_link_def bind_Some Let_def case_prod_beta) (metis prod.collapse)
  show ?thesis using out_queue_length_quiet [OF r(1)] quiet_env [OF random_range_calm [OF r(2)]]
      set_link_order_quiet [OF r(3)] quiet_trans by blast
qed

lemma order_links_quiet:
  assumes "order_links sid vnet t n = Some n'"
  shows "quiet n n'"
proof -
  have order: "quiet m m'" if "on_ps sid (\<lambda>ps. Some (ps\<lparr>ps_link_order := sort_key lo_value (ps_link_order ps)\<rparr>)) m = Some m'"
    for m m' using that by (rule quiet_on_ps) auto
  have measure: "quiet m m'" if "for_each (measure_link sid ps t) xs m = Some m'" for ps xs m m'
    using that by (rule quiet_for_each) (rule measure_link_quiet)
  have plain: "quiet m m'" if "for_each (\<lambda>out. set_link_order sid out 0) xs m = Some m'" for xs m m'
    using that by (rule quiet_for_each) (rule set_link_order_quiet)
  show ?thesis using assms unfolding order_links_def
    by (auto simp: bind_Some split: if_splits intro: plain quiet_trans [OF measure order])
qed

lemma check_slots_quiet: "check_slots ps ls vnet t n = Some (b, n') \<Longrightarrow> quiet n n'"
  unfolding check_slots_def by (erule quiet_for_each_pair) (auto simp: bind_Some dest: sn_slots_quiet)

lemma set_units_quiet: "set_units sid k vnet u n = Some n' \<Longrightarrow> quiet n n'"
  unfolding set_units_def by (erule quiet_on_th) (auto simp: bind_Some)

subsection \<open>Termination of the loops\<close>

lemma quiet_deref:
  assumes "quiet n n'"
  shows "map_option m_prio_heap (deref n' p) = map_option m_prio_heap (deref n p)"
proof -
  have h: "map m_prio_heap (sn_buffers n') = map m_prio_heap (sn_buffers n)" using assms by (simp add: quiet_def)
  then have "m_prio_heap (sn_buffers n' ! i) = m_prio_heap (sn_buffers n ! i)" if "i < length (sn_buffers n)" for i
    using that by (metis nth_map map_eq_imp_length_eq)
  then show ?thesis using map_eq_imp_length_eq [OF h] by (cases p) (auto simp: deref_def vec_at_def)
qed

lemma quiet_heap:
  assumes "quiet n n'"
  shows "heap_at n' = heap_at n"
proof
  show "heap_at n' p = heap_at n p" for p
    using quiet_deref [OF assms, of p] by (auto simp: heap_at_def split: option.splits)
qed

lemma quiet_ready: "quiet n n' \<Longrightarrow> ready_at t n' p = ready_at t n p"
  by (simp add: quiet_heap ready_at_def)

lemma take_pending_ready:
  assumes "take_pending sid p vnet t n = Some (m, n')"
  shows "ready_at t n' q \<subseteq># ready_at t n q" "size (ready_at t n' p) < size (ready_at t n p)"
proof -
  obtain n1 f where n1: "sn_dequeue p t n = Some (m, n1)" "on_ps sid f n1 = Some n'"
    using assms by (auto simp: take_pending_def bind_Some)
  have "ready_at t n' r = ready_at t n1 r" for r using on_ps_heap [OF n1(2)] by (simp add: ready_at_def)
  then show "ready_at t n' q \<subseteq># ready_at t n q" "size (ready_at t n' p) < size (ready_at t n p)"
    using sn_dequeue_ready [OF n1(1)] by simp_all
qed

lemma send_copies_ready:
  assumes "send_copies sys ps ls ds vnet t m m' n = Some n'"
  shows "ready_at t n' q = ready_at t n q"
  using assms unfolding send_copies_def
  by (rule for_each_inv) (auto simp: bind_Some Let_def, metis sn_enqueue_ready)

lemma operate_one_cases:
  assumes "operate_one sys sid p vnet t n = Some (go, n')"
  obtains b m n1 ps1 ls ds n2 where "deref n p = Some b" "peekMsgPtr b = Some m" "order_links sid vnet t n = Some n1"
    "get_ps sid n1 = Some ps1" "route_message ps1 (Destination m) = Some (ls, ds)"
    "check_slots ps1 ls vnet t n1 = Some (go, n2)"
    "\<not> go \<Longrightarrow> sn_scheduleEvent (C_Switch sid) 1 n2 = Some n'"
    "go \<Longrightarrow> \<exists>m' n3. take_pending sid p vnet t n2 = Some (m', n3) \<and> send_copies sys ps1 ls ds vnet t m' m n3 = Some n'"
  using assms unfolding operate_one_def bind_Some split_paired_Ex prod.case
  by (elim exE conjE) (rule that, auto simp: bind_Some split: if_splits)

lemma operate_one_ready:
  assumes "operate_one sys sid p vnet t n = Some (go, n')"
  shows "ready_at t n' q \<subseteq># ready_at t n q" "go \<Longrightarrow> size (ready_at t n' p) < size (ready_at t n p)"
proof -
  obtain ps1 ls ds m n1 n2 where q: "quiet n n1" "quiet n1 n2" "\<not> go \<Longrightarrow> quiet n2 n'"
    and go: "go \<Longrightarrow> \<exists>m' n3. take_pending sid p vnet t n2 = Some (m', n3) \<and> send_copies sys ps1 ls ds vnet t m' m n3 = Some n'"
    using assms by (rule operate_one_cases) (blast dest: order_links_quiet check_slots_quiet sn_scheduleEvent_quiet)
  have r: "ready_at t n2 r = ready_at t n r" for r using q(1,2) by (simp add: quiet_ready)
  have "ready_at t n' r \<subseteq># ready_at t n r \<and> (go \<longrightarrow> size (ready_at t n' p) < size (ready_at t n p))" for r
  proof (cases go)
    case True
    obtain m' n3 where s: "take_pending sid p vnet t n2 = Some (m', n3)" "send_copies sys ps1 ls ds vnet t m' m n3 = Some n'"
      using go [OF True] by blast
    show ?thesis using take_pending_ready [OF s(1)] send_copies_ready [OF s(2)] by (simp add: r)
  next
    case False
    then show ?thesis using quiet_ready [OF q(3)] by (simp add: r)
  qed
  then show "ready_at t n' q \<subseteq># ready_at t n q" "go \<Longrightarrow> size (ready_at t n' p) < size (ready_at t n p)" by blast+
qed

section \<open>The loops and the wake-ups\<close>

text \<open>
  \<^verbatim>\<open>while (buffer->isReady(current_time))\<close>: each turn that goes on takes a message that was ready, and what it sends
  arrives later, so the loop ends.
\<close>

function operateMessageBuffer ::
    "ruby_system \<Rightarrow> int \<Rightarrow> mb_ptr \<Rightarrow> int \<Rightarrow> Tick \<Rightarrow> SimpleNetwork \<Rightarrow> SimpleNetwork option" where
  "operateMessageBuffer sys sid p vnet t n = do {
     b \<leftarrow> deref n p;
     if mb_isReady t b
     then do {
       r \<leftarrow> operate_one sys sid p vnet t n;
       if fst r then operateMessageBuffer sys sid p vnet t (snd r) else Some (snd r) }
     else Some n }"
  by auto
termination
  by (relation "measure (\<lambda>(sys, sid, p, vnet, t, n). size (ready_at t n p))")
    (auto dest: operate_one_ready(2))

declare operateMessageBuffer.simps [simp del]

subsection \<open>The loop of a throttle\<close>

lemma get_th_on_th:
  "on_th sid k f n = Some n' \<Longrightarrow>
     get_th i j n' = (if i = sid \<and> j = k then do { th \<leftarrow> get_th sid k n; f th } else get_th i j n)"
  by (cases "i = sid"; cases "j = k") (auto simp: on_th_Some get_th_def vec_at_def nth_list_update bind_Some split: if_splits)

lemma set_units_get:
  assumes run: "set_units sid k vnet u n = Some n'"
  shows "get_units i j v n' = (if i = sid \<and> j = k \<and> v = vnet then Some u else get_units i j v n)"
proof -
  obtain th where th: "get_th sid k n = Some th" "0 \<le> vnet" "vnet < int (length (th_units_remaining th))"
    using run by (auto simp: set_units_def on_th_Some vec_set_eq_Some bind_Some)
  have "get_th i j n' = (if i = sid \<and> j = k
      then Some (th\<lparr>th_units_remaining := (th_units_remaining th)[nat vnet := u]\<rparr>) else get_th i j n)"
    using get_th_on_th [OF run [unfolded set_units_def], of i j] th by simp
  then show ?thesis using th by (auto simp: get_units_def vec_at_def nth_list_update)
qed

lemma get_units_cong: "sn_switches n' = sn_switches n \<Longrightarrow> get_units i j v n' = get_units i j v n"
  by (simp add: get_units_def get_th_def)

lemma sn_slots_switches: "sn_slots p t n = Some (ok, n') \<Longrightarrow> sn_switches n' = sn_switches n"
  by (erule sn_slots_Some) (auto simp: put_buf_Some)

lemma fetch_message_cases:
  assumes "fetch_message sys sid k vnet inp out t n = Some n'" "get_units sid k vnet n = Some u" "deref n inp = Some b"
  obtains (fetch) th m size n1 m' n2 n3 where "u = 0" "mb_isReady t b" "get_th sid k n = Some th" "peekMsgPtr b = Some m"
      "network_message_to_size (cfg (sn_env n)) m = Some size" "set_units sid k vnet size n = Some n1"
      "sn_dequeue inp t n1 = Some (m', n2)"
      "sn_enqueue sys out m' t (cyclesToTicks (sn_env n2) (th_link_latency th)) n2 = Some n3"
      "on_th sid k (\<lambda>th. Some (count_message (MessageSize m') vnet th)) n3 = Some n'"
    | (skip) "u \<noteq> 0 \<or> \<not> mb_isReady t b" "n' = n"
proof (cases "u = 0 \<and> mb_isReady t b")
  case True
  then show thesis using assms fetch unfolding fetch_message_def bind_Some split_paired_Ex prod.case
    by (auto simp: bind_Some)
next
  case False
  then show thesis using assms skip by (auto simp: fetch_message_def bind_Some)
qed

lemma fetch_message_ready:
  assumes "fetch_message sys sid k vnet inp out t n = Some n'" "get_units sid k vnet n = Some u" "deref n inp = Some b"
  shows "ready_at t n' q \<subseteq># ready_at t n q" "u = 0 \<and> mb_isReady t b \<Longrightarrow> size (ready_at t n' inp) < size (ready_at t n inp)"
proof -
  have "ready_at t n' q \<subseteq># ready_at t n q \<and> (u = 0 \<and> mb_isReady t b \<longrightarrow> size (ready_at t n' inp) < size (ready_at t n inp))"
    using assms
  proof (cases rule: fetch_message_cases)
    case (fetch th m size n1 m' n2 n3)
    have "ready_at t n' r = ready_at t n2 r" "ready_at t n1 r = ready_at t n r" for r
      using sn_enqueue_ready [OF fetch(8)] on_th_heap [OF fetch(9)] quiet_ready [OF set_units_quiet [OF fetch(6)]]
      by (simp_all add: ready_at_def)
    then show ?thesis using sn_dequeue_ready [OF fetch(7)] by simp
  qed auto
  then show "ready_at t n' q \<subseteq># ready_at t n q" "u = 0 \<and> mb_isReady t b \<Longrightarrow> size (ready_at t n' inp) < size (ready_at t n inp)"
    by blast+
qed

lemma spend_bandwidth_Some:
  "spend_bandwidth sid k vnet bw n = Some (bw', n') \<longleftrightarrow>
     (\<exists>u. get_units sid k vnet n = Some u \<and> set_units sid k vnet (max 0 (u - bw)) n = Some n' \<and> bw' = max 0 (bw - u))"
  by (auto simp: spend_bandwidth_def bind_Some)

text \<open>
  The measure of the loop: messages that are ready, then a negative count of units (which the assertion before the loop
  excludes), then the bandwidth.
\<close>

definition loop_measure :: "int \<Rightarrow> int \<Rightarrow> int \<Rightarrow> mb_ptr \<Rightarrow> Tick \<Rightarrow> int \<Rightarrow> SimpleNetwork \<Rightarrow> nat \<times> nat \<times> nat" where
  "loop_measure sid k vnet inp t bw n = (size (ready_at t n inp),
     (case get_units sid k vnet n of None \<Rightarrow> 0 | Some u \<Rightarrow> if u < 0 then 1 else 0), nat bw)"

lemma transfer_units_decreases:
  assumes w: "has_work sid k vnet inp t bw n = Some True" and s: "sn_slots out t n = Some (True, n1)"
    and run: "transfer_units sys sid k vnet inp out t bw n1 = Some (bw', n')"
  shows "(loop_measure sid k vnet inp t bw' n', loop_measure sid k vnet inp t bw n) \<in> less_than <*lex*> less_than <*lex*> less_than"
proof -
  obtain u b where u: "get_units sid k vnet n = Some u" "deref n inp = Some b" "0 < bw" "mb_isReady t b \<or> 0 < u"
    using w by (auto simp: has_work_def bind_Some)
  obtain n2 u2 where f: "fetch_message sys sid k vnet inp out t n1 = Some n2"
    and s2: "get_units sid k vnet n2 = Some u2" "set_units sid k vnet (max 0 (u2 - bw)) n2 = Some n'" "bw' = max 0 (bw - u2)"
    using run by (auto simp: transfer_units_def bind_Some spend_bandwidth_Some)
  have q: "ready_at t n1 r = ready_at t n r" "ready_at t n' r = ready_at t n2 r" for r
    using quiet_ready [OF sn_slots_quiet [OF s]] quiet_ready [OF set_units_quiet [OF s2(2)]] by simp_all
  have u1: "get_units sid k vnet n1 = Some u" using u(1) get_units_cong [OF sn_slots_switches [OF s]] by simp
  obtain b1 where b1: "deref n1 inp = Some b1" "m_prio_heap b1 = m_prio_heap b"
    using quiet_deref [OF sn_slots_quiet [OF s], of inp] u(2) by auto
  then have r1: "mb_isReady t b1 = mb_isReady t b" by (simp add: mb_isReady_def)
  have u': "get_units sid k vnet n' = Some (max 0 (u2 - bw))" using set_units_get [OF s2(2)] by simp
  show ?thesis
  proof (cases "u = 0 \<and> mb_isReady t b")
    case True
    then show ?thesis using fetch_message_ready(2) [OF f u1 b1(1)] q r1 by (simp add: loop_measure_def)
  next
    case False
    then have "n2 = n1" using f u1 b1(1) r1 by (auto elim: fetch_message_cases)
    then have "u2 = u" "ready_at t n' inp = ready_at t n inp" using s2(1) u1 q by auto
    then show ?thesis using u(1,3,4) u' s2(3) False by (auto simp: loop_measure_def)
  qed
qed

function throttle_loop ::
    "ruby_system \<Rightarrow> int \<Rightarrow> int \<Rightarrow> int \<Rightarrow> mb_ptr \<Rightarrow> mb_ptr \<Rightarrow> Tick \<Rightarrow> int \<Rightarrow> SimpleNetwork \<Rightarrow>
       (int \<times> SimpleNetwork) option" where
  "throttle_loop sys sid k vnet inp out t bw_remaining n = do {
     w \<leftarrow> has_work sid k vnet inp t bw_remaining n;
     if \<not> w then Some (bw_remaining, n)
     else do {
       r \<leftarrow> sn_slots out t n;
       if \<not> fst r then Some (bw_remaining, snd r)
       else do {
         q \<leftarrow> transfer_units sys sid k vnet inp out t bw_remaining (snd r);
         throttle_loop sys sid k vnet inp out t (fst q) (snd q) } } }"
  by auto
termination
  by (relation "inv_image (less_than <*lex*> less_than <*lex*> less_than)
      (\<lambda>(sys, sid, k, vnet, inp, out, t, bw, n). loop_measure sid k vnet inp t bw n)")
    (auto intro: transfer_units_decreases simp del: in_lex_prod)

declare throttle_loop.simps [simp del]

text \<open>\<^verbatim>\<open>Throttle::operateVnet\<close>, with its reference parameters \<^verbatim>\<open>bw_remaining\<close> and \<^verbatim>\<open>schedule_wakeup\<close> as results.\<close>

definition Throttle_operateVnet ::
    "ruby_system \<Rightarrow> int \<Rightarrow> int \<Rightarrow> int \<Rightarrow> mb_ptr \<Rightarrow> mb_ptr \<Rightarrow> int \<Rightarrow> bool \<Rightarrow> SimpleNetwork \<Rightarrow>
       (int \<times> bool \<times> SimpleNetwork) option" where
  "Throttle_operateVnet sys sid k vnet inp out bw_remaining schedule_wakeup n =
     (if out = None \<or> inp = None then Some (bw_remaining, schedule_wakeup, n)
      else do {
        u \<leftarrow> get_units sid k vnet n;
        cassert (u \<ge> 0);
        let t = clockEdge (sn_env n) 0;
        (bw_remaining, n) \<leftarrow> throttle_loop sys sid k vnet inp out t bw_remaining n;
        w \<leftarrow> has_work sid k vnet inp t bw_remaining n;
        if \<not> w then Some (bw_remaining, schedule_wakeup, n)
        else do {
          (ok, n) \<leftarrow> sn_slots out t n;
          Some (bw_remaining, schedule_wakeup \<or> \<not> ok, n) } })"

definition PRIORITY_SWITCH_LIMIT :: int where
  "PRIORITY_SWITCH_LIMIT = 128"

text \<open>Count the wake-up; every so often the order of the virtual networks is inverted.\<close>

definition Throttle_turn :: "int \<Rightarrow> int \<Rightarrow> SimpleNetwork \<Rightarrow> (bool \<times> SimpleNetwork) option" where
  "Throttle_turn sid k n = do {
     n \<leftarrow> on_th sid k (\<lambda>th. Some (th\<lparr>th_wakeups_wo_switch := th_wakeups_wo_switch th + 1\<rparr>)) n;
     th \<leftarrow> get_th sid k n;
     if th_wakeups_wo_switch th > PRIORITY_SWITCH_LIMIT
     then do { n \<leftarrow> on_th sid k (\<lambda>th. Some (th\<lparr>th_wakeups_wo_switch := 0\<rparr>)) n; Some (True, n) }
     else Some (False, n) }"

definition Throttle_operate ::
    "ruby_system \<Rightarrow> int \<Rightarrow> int \<Rightarrow> Throttle \<Rightarrow> int \<Rightarrow> int \<times> bool \<times> SimpleNetwork \<Rightarrow> (int \<times> bool \<times> SimpleNetwork) option" where
  "Throttle_operate sys sid k th vnet = (\<lambda>(bw_remaining, schedule_wakeup, n). do {
     inp \<leftarrow> vec_at (th_in th) vnet;
     out \<leftarrow> vec_at (th_out th) vnet;
     Throttle_operateVnet sys sid k vnet inp out bw_remaining schedule_wakeup n })"

definition Throttle_wakeup :: "ruby_system \<Rightarrow> int \<Rightarrow> int \<Rightarrow> SimpleNetwork \<Rightarrow> SimpleNetwork option" where
  "Throttle_wakeup sys sid k n = do {
     th \<leftarrow> get_th sid k n;
     cassert (getLinkBandwidth th > 0);
     (iteration_direction, n) \<leftarrow> Throttle_turn sid k n;
     let vnets = [0..th_vnets th - 1];
     (bw_remaining, schedule_wakeup, n) \<leftarrow> for_each (Throttle_operate sys sid k th)
       (if iteration_direction then vnets else rev vnets) (getLinkBandwidth th, False, n);
     let ratio = 1 - real_of_int bw_remaining / real_of_int (getLinkBandwidth th);
     n \<leftarrow> on_th sid k (\<lambda>th. Some (th\<lparr>th_link_utilization_proxy := th_link_utilization_proxy th + ratio\<rparr>)) n;
     if bw_remaining > 0 \<and> \<not> schedule_wakeup then Some n
     else sn_scheduleEvent (C_Throttle sid k) 1 n }"

subsection \<open>The wake-up of a perfect switch\<close>

definition operate_inport ::
    "ruby_system \<Rightarrow> int \<Rightarrow> PerfectSwitch \<Rightarrow> int \<Rightarrow> int \<Rightarrow> SimpleNetwork \<Rightarrow> SimpleNetwork option" where
  "operate_inport sys sid ps vnet incoming n = do {
     row \<leftarrow> vec_at (ps_in ps) incoming;
     if int (length row) \<le> vnet then Some n
     else do {
       p \<leftarrow> vec_at row vnet;
       if p = None then Some n
       else operateMessageBuffer sys sid p vnet (clockEdge (sn_env n) 0) n } }"

definition PerfectSwitch_operateVnet ::
    "ruby_system \<Rightarrow> int \<Rightarrow> int \<Rightarrow> SimpleNetwork \<Rightarrow> SimpleNetwork option" where
  "PerfectSwitch_operateVnet sys sid vnet n = do {
     ps \<leftarrow> get_ps sid n;
     n \<leftarrow> on_ps sid (\<lambda>ps. Some (ps\<lparr>ps_round_robin_start :=
            wrap_inc (int (length (ps_in ps))) (ps_round_robin_start ps)\<rparr>)) n;
     c \<leftarrow> vec_at (ps_pending_message_count ps) vnet;
     if c > 0
     then do {
       (_, n) \<leftarrow> for_each (\<lambda>counter (incoming, n). do {
           let incoming = wrap_inc (int (length (ps_in ps))) incoming;
           n \<leftarrow> operate_inport sys sid ps vnet incoming n;
           Some (incoming, n) })
         [0..int (length (ps_in ps)) - 1] (ps_round_robin_start ps, n);
       Some n }
     else Some n }"

definition PerfectSwitch_turn :: "int \<Rightarrow> SimpleNetwork \<Rightarrow> (bool \<times> SimpleNetwork) option" where
  "PerfectSwitch_turn sid n = do {
     n \<leftarrow> on_ps sid (\<lambda>ps. Some (ps\<lparr>ps_wakeups_wo_switch := ps_wakeups_wo_switch ps + 1\<rparr>)) n;
     ps \<leftarrow> get_ps sid n;
     if ps_wakeups_wo_switch ps > PRIORITY_SWITCH_LIMIT
     then do { n \<leftarrow> on_ps sid (\<lambda>ps. Some (ps\<lparr>ps_wakeups_wo_switch := 0\<rparr>)) n; Some (True, n) }
     else Some (False, n) }"

definition PerfectSwitch_wakeup :: "ruby_system \<Rightarrow> int \<Rightarrow> SimpleNetwork \<Rightarrow> SimpleNetwork option" where
  "PerfectSwitch_wakeup sys sid n = do {
     ps \<leftarrow> get_ps sid n;
     (inverted, n) \<leftarrow> PerfectSwitch_turn sid n;
     let vnets = [0..ps_virtual_networks ps - 1];
     for_each (PerfectSwitch_operateVnet sys sid) (if inverted then vnets else rev vnets) n }"

section \<open>Construction\<close>

definition Throttle_new :: "int \<Rightarrow> Cycles \<Rightarrow> int \<Rightarrow> int \<Rightarrow> Throttle option" where
  "Throttle_new node link_latency link_bandwidth_multiplier endpoint_bandwidth = do {
     cassert (link_bandwidth_multiplier > 0);
     Some \<lparr>th_in = [], th_out = [], th_vnets = 0, th_units_remaining = [], th_node = node,
           th_link_bandwidth_multiplier = link_bandwidth_multiplier, th_link_latency = link_latency,
           th_wakeups_wo_switch = 0, th_endpoint_bandwidth = endpoint_bandwidth, th_msg_counts = (\<lambda>_ _. 0),
           th_link_utilization_proxy = 0\<rparr> }"

definition Throttle_addLinks ::
    "int \<Rightarrow> int \<Rightarrow> mb_ptr list \<Rightarrow> mb_ptr list \<Rightarrow> SimpleNetwork \<Rightarrow> SimpleNetwork option" where
  "Throttle_addLinks sid k in_vec out_vec n = do {
     cassert (length in_vec = length out_vec);
     for_each (\<lambda>vnet n. do {
         in_ptr \<leftarrow> vec_at in_vec vnet;
         out_ptr \<leftarrow> vec_at out_vec vnet;
         n \<leftarrow> on_th sid k (\<lambda>th. Some (th\<lparr>th_vnets := th_vnets th + 1,
                th_units_remaining := th_units_remaining th @ [0],
                th_in := th_in th @ [in_ptr], th_out := th_out th @ [out_ptr]\<rparr>)) n;
         b \<leftarrow> deref n in_ptr;
         b \<leftarrow> setConsumer (C_Throttle sid k) b;
         put_buf in_ptr b n })
       [0..int (length in_vec) - 1] n }"

definition Switch_new :: "int \<Rightarrow> int list \<Rightarrow> Switch" where
  "Switch_new virt_nets port_buffers =
     \<lparr>sw_perfect_switch = PerfectSwitch_new virt_nets, sw_throttles = [], sw_port_buffers = port_buffers,
      sw_num_connected_buffers = 0\<rparr>"

definition Switch_init :: "Switch \<Rightarrow> Switch" where
  "Switch_init sw = sw\<lparr>sw_perfect_switch := PerfectSwitch_init (sw_perfect_switch sw)\<rparr>"

definition on_switch :: "int \<Rightarrow> (Switch \<Rightarrow> Switch option) \<Rightarrow> SimpleNetwork \<Rightarrow> SimpleNetwork option" where
  "on_switch sid f n = do {
     sw \<leftarrow> vec_at (sn_switches n) sid;
     sw \<leftarrow> f sw;
     sws \<leftarrow> vec_set (sn_switches n) sid sw;
     Some (n\<lparr>sn_switches := sws\<rparr>) }"

text \<open>Connect the next buffer of an array of buffers, with a count of those in use.\<close>

definition next_buffer :: "int list \<Rightarrow> int \<Rightarrow> (mb_ptr \<times> int) option" where
  "next_buffer buffers num = do {
     cassert (num < int (length buffers));
     p \<leftarrow> vec_at buffers num;
     Some (Some p, num + 1) }"

fun connect_buffers :: "int list \<Rightarrow> nat \<Rightarrow> int \<Rightarrow> (mb_ptr list \<times> int) option" where
  "connect_buffers buffers 0 num = Some ([], num)"
| "connect_buffers buffers (Suc m) num = do {
     (p, num) \<leftarrow> next_buffer buffers num;
     (ps, num) \<leftarrow> connect_buffers buffers m num;
     Some (p # ps, num) }"

definition Switch_addOutPort ::
    "int \<Rightarrow> mb_ptr list \<Rightarrow> NetDest \<Rightarrow> Cycles \<Rightarrow> int \<Rightarrow> SimpleNetwork \<Rightarrow> SimpleNetwork option" where
  "Switch_addOutPort sid out routing_table_entry link_latency bw_multiplier n = do {
     sw \<leftarrow> vec_at (sn_switches n) sid;
     let k = int (length (sw_throttles sw));
     throttle \<leftarrow> Throttle_new k link_latency bw_multiplier (sn_endpoint_bandwidth n);
     (intermediateBuffers, num) \<leftarrow> connect_buffers (sw_port_buffers sw) (length out) (sw_num_connected_buffers sw);
     n \<leftarrow> on_switch sid (\<lambda>sw. Some (sw\<lparr>sw_throttles := sw_throttles sw @ [throttle],
            sw_num_connected_buffers := num\<rparr>)) n;
     n \<leftarrow> on_ps sid (\<lambda>ps. Some (PerfectSwitch_addOutPort intermediateBuffers routing_table_entry ps)) n;
     Throttle_addLinks sid k intermediateBuffers out n }"

definition SimpleNetwork_new ::
    "int \<Rightarrow> int \<Rightarrow> int \<Rightarrow> bool \<Rightarrow> Switch list \<Rightarrow> int list \<Rightarrow> MessageBuffer list \<Rightarrow> env \<Rightarrow> SimpleNetwork option" where
  "SimpleNetwork_new nodes virtual_networks endpoint_bandwidth adaptive_routing routers int_link_buffers buffers e = do {
     cassert (nodes \<noteq> 0);
     cassert (virtual_networks \<noteq> 0);
     Some \<lparr>sn_switches = routers, sn_int_link_buffers = int_link_buffers, sn_num_connected_buffers = 0,
           sn_endpoint_bandwidth = endpoint_bandwidth, sn_adaptive_routing = adaptive_routing,
           sn_virtual_networks = virtual_networks, sn_nodes = nodes,
           sn_ordered = replicate (nat virtual_networks) False,
           sn_vnet_type_names = replicate (nat virtual_networks) [],
           sn_toNetQueues = replicate (nat nodes) [], sn_fromNetQueues = replicate (nat nodes) [],
           sn_buffers = buffers, sn_env = e\<rparr> }"

definition checkNetworkAllocation :: "int \<Rightarrow> bool \<Rightarrow> int \<Rightarrow> string \<Rightarrow> SimpleNetwork \<Rightarrow> SimpleNetwork option" where
  "checkNetworkAllocation node_id ordered network_num vnet_type n = do {
     cassert (node_id < sn_nodes n);
     cassert (network_num < sn_virtual_networks n);
     os \<leftarrow> (if ordered then vec_set (sn_ordered n) network_num True else Some (sn_ordered n));
     ts \<leftarrow> vec_set (sn_vnet_type_names n) network_num vnet_type;
     Some (n\<lparr>sn_ordered := os, sn_vnet_type_names := ts\<rparr>) }"

text \<open>\<^verbatim>\<open>while (q.size() <= network_num) q.push_back(nullptr); q[network_num] = b\<close>\<close>

definition set_queue :: "mb_ptr list list \<Rightarrow> int \<Rightarrow> int \<Rightarrow> mb_ptr \<Rightarrow> mb_ptr list list option" where
  "set_queue qs node_id network_num b = do {
     q \<leftarrow> vec_at qs node_id;
     q \<leftarrow> vec_set (q @ replicate (nat (network_num + 1) - length q) None) network_num b;
     vec_set qs node_id q }"

definition setToNetQueue ::
    "int \<Rightarrow> bool \<Rightarrow> int \<Rightarrow> string \<Rightarrow> mb_ptr \<Rightarrow> SimpleNetwork \<Rightarrow> SimpleNetwork option" where
  "setToNetQueue node_id ordered network_num vnet_type b n = do {
     n \<leftarrow> checkNetworkAllocation node_id ordered network_num vnet_type n;
     qs \<leftarrow> set_queue (sn_toNetQueues n) node_id network_num b;
     Some (n\<lparr>sn_toNetQueues := qs\<rparr>) }"

definition setFromNetQueue ::
    "int \<Rightarrow> bool \<Rightarrow> int \<Rightarrow> string \<Rightarrow> mb_ptr \<Rightarrow> SimpleNetwork \<Rightarrow> SimpleNetwork option" where
  "setFromNetQueue node_id ordered network_num vnet_type b n = do {
     n \<leftarrow> checkNetworkAllocation node_id ordered network_num vnet_type n;
     qs \<leftarrow> set_queue (sn_fromNetQueues n) node_id network_num b;
     Some (n\<lparr>sn_fromNetQueues := qs\<rparr>) }"

definition sn_makeExtOutLink ::
    "int \<Rightarrow> int \<Rightarrow> Cycles \<Rightarrow> int \<Rightarrow> NetDest \<Rightarrow> SimpleNetwork \<Rightarrow> SimpleNetwork option" where
  "sn_makeExtOutLink src dest link_latency bw_multiplier routing_table_entry n = do {
     cassert (dest < sn_nodes n);
     cassert (src < int (length (sn_switches n)));
     q \<leftarrow> vec_at (sn_fromNetQueues n) dest;
     Switch_addOutPort src q routing_table_entry link_latency bw_multiplier n }"

definition sn_makeExtInLink :: "int \<Rightarrow> int \<Rightarrow> SimpleNetwork \<Rightarrow> SimpleNetwork option" where
  "sn_makeExtInLink src dest n = do {
     cassert (src < sn_nodes n);
     q \<leftarrow> vec_at (sn_toNetQueues n) src;
     PerfectSwitch_addInPort dest q n }"

definition sn_makeInternalLink ::
    "int \<Rightarrow> int \<Rightarrow> Cycles \<Rightarrow> int \<Rightarrow> NetDest \<Rightarrow> SimpleNetwork \<Rightarrow> SimpleNetwork option" where
  "sn_makeInternalLink src dest link_latency bw_multiplier routing_table_entry n = do {
     (queues, num) \<leftarrow> connect_buffers (sn_int_link_buffers n) (nat (sn_virtual_networks n)) (sn_num_connected_buffers n);
     n \<leftarrow> PerfectSwitch_addInPort dest queues (n\<lparr>sn_num_connected_buffers := num\<rparr>);
     Switch_addOutPort src queues routing_table_entry link_latency bw_multiplier n }"

section \<open>Statistics and functional writes\<close>

definition Throttle_clearStats :: "Throttle \<Rightarrow> Throttle" where
  "Throttle_clearStats th = th\<lparr>th_link_utilization_proxy := 0\<rparr>"

definition Throttle_collateStats :: "real \<Rightarrow> Throttle \<Rightarrow> real" where
  "Throttle_collateStats time_delta th = 100 * th_link_utilization_proxy th / time_delta"

definition Switch_resetStats :: "Switch \<Rightarrow> Switch" where
  "Switch_resetStats sw = sw\<lparr>sw_throttles := map Throttle_clearStats (sw_throttles sw)\<rparr>"

definition Switch_collateStats :: "real \<Rightarrow> Switch \<Rightarrow> real list" where
  "Switch_collateStats time_delta sw = map (Throttle_collateStats time_delta) (sw_throttles sw)"

definition buffers_functionalWrite ::
    "func_write \<Rightarrow> int list \<Rightarrow> nat \<times> SimpleNetwork \<Rightarrow> (nat \<times> SimpleNetwork) option" where
  "buffers_functionalWrite fw = for_each (\<lambda>i (num_functional_writes, n). do {
     b \<leftarrow> deref n (Some i);
     let (k, b) = mb_functionalWrite fw b;
     n \<leftarrow> put_buf (Some i) b n;
     Some (num_functional_writes + k, n) })"

definition Switch_functionalWrite ::
    "func_write \<Rightarrow> Switch \<Rightarrow> nat \<times> SimpleNetwork \<Rightarrow> (nat \<times> SimpleNetwork) option" where
  "Switch_functionalWrite fw sw = buffers_functionalWrite fw (sw_port_buffers sw)"

definition SimpleNetwork_functionalWrite :: "func_write \<Rightarrow> SimpleNetwork \<Rightarrow> (nat \<times> SimpleNetwork) option" where
  "SimpleNetwork_functionalWrite fw n = do {
     r \<leftarrow> for_each (Switch_functionalWrite fw) (sn_switches n) (0, n);
     buffers_functionalWrite fw (sn_int_link_buffers n) r }"

end
