(* ===== verification/Simple_Delivery.thy ===== *)
theory Simple_Delivery
  imports Simple_Network
begin

text \<open>
  What the simple network (Simple_Network) guarantees.
\<close>

section \<open>Splitting a multicast message\<close>

text \<open>What the loop over the links maintains: the parts are non-empty, disjoint from each other and from the rest, each
  within the reach of its link, and together with the rest they are the destinations.\<close>

definition split_inv :: "PerfectSwitch \<Rightarrow> NetDest \<Rightarrow> int list \<times> NetDest list \<times> NetDest \<Rightarrow> bool" where
  "split_inv ps d = (\<lambda>(ls, ds, rest).
     (\<Union>x \<in> set ds. dest_elems x) \<union> dest_elems rest = dest_elems d \<and>
     sorted_wrt (\<lambda>x y. dest_elems x \<inter> dest_elems y = {}) (ds @ [rest]) \<and>
     list_all2 (\<lambda>l x. dest_elems x \<noteq> {} \<and> dest_elems x \<subseteq> dest_elems (ps_routing_table ps ! nat l)) ls ds)"

lemma route_step_cases:
  assumes "route_step ps i (ls, ds, rest) = Some (ls', ds', rest')"
  obtains l where "0 \<le> i" "i < int (length (ps_link_order ps))" "l = lo_link (ps_link_order ps ! nat i)"
    "0 \<le> l" "l < int (length (ps_routing_table ps))"
    "dest_elems rest' = dest_elems rest - dest_elems (ps_routing_table ps ! nat l)"
    "(ls', ds') = (ls, ds) \<and> rest' = rest \<or>
     (\<exists>x. (ls', ds') = (ls @ [l], ds @ [x]) \<and> dest_elems x \<noteq> {} \<and>
        dest_elems x = dest_elems rest \<inter> dest_elems (ps_routing_table ps ! nat l))"
proof -
  let ?l = "lo_link (ps_link_order ps ! nat i)"
  obtain b where r: "0 \<le> i" "i < int (length (ps_link_order ps))" "0 \<le> ?l" "?l < int (length (ps_routing_table ps))"
    and b: "NetDest_intersectionIsNotEmpty rest (ps_routing_table ps ! nat ?l) = Some b"
    using assms by (auto simp: route_step_def bind_Some vec_at_eq_Some)
  note ne = intersectionIsNotEmpty_iff [OF b]
  show thesis
  proof (cases b)
    case False
    then have "(ls', ds') = (ls, ds) \<and> rest' = rest" using assms r b by (auto simp: route_step_def)
    then show thesis using that [OF r(1,2) refl r(3,4)] ne False by auto
  next
    case True
    then obtain x where "NetDest_AND rest (ps_routing_table ps ! nat ?l) = Some x" "ls' = ls @ [?l]" "ds' = ds @ [x]"
      "NetDest_removeNetDest rest (ps_routing_table ps ! nat ?l) = Some rest'"
      using assms r b by (auto simp: route_step_def bind_Some)
    then show thesis using that [OF r(1,2) refl r(3,4)] ne True AND_elems removeNetDest_elems by blast
  qed
qed

lemma route_step_inv:
  assumes "split_inv ps d (ls, ds, rest)" "route_step ps i (ls, ds, rest) = Some (ls', ds', rest')"
  shows "split_inv ps d (ls', ds', rest')"
  using assms(2)
proof (cases rule: route_step_cases)
  case (1 l)
  from 1(7) show ?thesis
  proof (elim disjE exE conjE)
    fix x assume x: "(ls', ds') = (ls @ [l], ds @ [x])" "dest_elems x \<noteq> {}"
      "dest_elems x = dest_elems rest \<inter> dest_elems (ps_routing_table ps ! nat l)"
    then show ?thesis using assms(1) 1(6)
      by (fastforce simp: split_inv_def sorted_wrt_append intro: list_all2_appendI)
  qed (use assms(1) in auto)
qed

lemma route_links_inv:
  assumes "route_links ps d = Some (ls, ds, rest)"
  shows "split_inv ps d (ls, ds, rest)"
  using assms unfolding route_links_def
proof (rule for_each_inv)
  show "split_inv ps d ([], [], d)" by (simp add: split_inv_def)
qed (auto intro: route_step_inv)

text \<open>The links are tried in some order, and all destination sets are made for the same machines.\<close>

definition links_ok :: "PerfectSwitch \<Rightarrow> bool" where
  "links_ok ps \<longleftrightarrow> lo_link ` set (ps_link_order ps) = {0..<int (length (ps_routing_table ps))} \<and>
     length (ps_link_order ps) = length (ps_routing_table ps)"

definition shape_ok :: "PerfectSwitch \<Rightarrow> NetDest \<Rightarrow> bool" where
  "shape_ok ps d \<longleftrightarrow> (\<forall>r \<in> set (ps_routing_table ps). same_shape d r) \<and> (\<forall>s \<in> set (m_bits d). m_nSize s \<le> 256)"

lemma sets_zip_shape:
  assumes "list_all2 (\<lambda>s t. m_nSize s = m_nSize t) ss ts"
    and "\<And>s t. s \<in> set ss \<Longrightarrow> m_nSize s = m_nSize t \<Longrightarrow> \<exists>u. f s t = Some u \<and> m_nSize u = m_nSize s"
  shows "\<exists>us. sets_zip f ss ts = Some us \<and> map m_nSize us = map m_nSize ss"
  using assms
proof (induction rule: list_all2_induct)
  case (Cons s ss t ts)
  obtain u where "f s t = Some u" "m_nSize u = m_nSize s" using Cons.prems Cons.hyps(1) by (meson list.set_intros(1))
  moreover obtain us where "sets_zip f ss ts = Some us" "map m_nSize us = map m_nSize ss"
    using Cons.IH Cons.prems by (meson list.set_intros(2))
  ultimately show ?case by simp
qed simp

lemma removeNetDest_total:
  assumes "same_shape d r"
  shows "\<exists>e. NetDest_removeNetDest d r = Some e \<and> map m_nSize (m_bits e) = map m_nSize (m_bits d)"
  using sets_zip_shape [of "m_bits d" "m_bits r" Set_removeSet] assms
  by (auto simp: same_shape_def NetDest_removeNetDest_def Set_removeSet_def list_all2_lengthD)

lemma AND_total:
  assumes "same_shape d r" "\<forall>s \<in> set (m_bits d). m_nSize s \<le> 256"
  shows "\<exists>e. NetDest_AND d r = Some e"
proof -
  have "\<exists>u. Set_AND s t = Some u \<and> m_nSize u = m_nSize s" if "s \<in> set (m_bits d)" "m_nSize s = m_nSize t" for s t
    using assms(2) that by (auto simp: Set_AND_def Set_sized_def)
  then obtain us where "sets_zip Set_AND (m_bits d) (m_bits r) = Some us"
    using sets_zip_shape [of "m_bits d" "m_bits r" Set_AND] assms(1) unfolding same_shape_def by blast
  then show ?thesis using assms(1) by (simp add: NetDest_AND_def same_shape_def list_all2_lengthD)
qed

lemma same_shape_map: "same_shape d e \<longleftrightarrow> map m_nSize (m_bits d) = map m_nSize (m_bits e)"
  by (auto simp: same_shape_def list_eq_iff_nth_eq list_all2_conv_all_nth)

lemma shape_ok_map:
  "shape_ok ps d \<longleftrightarrow> (\<forall>r \<in> set (ps_routing_table ps). map m_nSize (m_bits d) = map m_nSize (m_bits r)) \<and>
     (\<forall>k \<in> set (map m_nSize (m_bits d)). k \<le> 256)"
  by (simp add: shape_ok_def same_shape_map)

lemma route_step_total:
  assumes "links_ok ps" "shape_ok ps rest" "0 \<le> i" "i < int (length (ps_routing_table ps))"
  shows "\<exists>ls' ds' rest'. route_step ps i (ls, ds, rest) = Some (ls', ds', rest') \<and> shape_ok ps rest' \<and>
    dest_elems rest' = dest_elems rest - dest_elems (ps_routing_table ps ! nat (lo_link (ps_link_order ps ! nat i)))"
proof -
  let ?l = "lo_link (ps_link_order ps ! nat i)"
  let ?r = "ps_routing_table ps ! nat ?l"
  have i: "nat i < length (ps_link_order ps)" using assms by (auto simp: links_ok_def)
  then have l: "0 \<le> ?l" "?l < int (length (ps_routing_table ps))"
    using assms(1) nth_mem [OF i] by (auto simp: links_ok_def)
  then have s: "same_shape rest ?r" using assms(2) by (auto simp: shape_ok_def)
  then have len: "length (m_bits rest) = length (m_bits ?r)" by (auto simp: same_shape_def dest: list_all2_lengthD)
  obtain x where x: "NetDest_AND rest ?r = Some x" using AND_total [OF s] assms(2) by (auto simp: shape_ok_def)
  obtain y where y: "NetDest_removeNetDest rest ?r = Some y" "map m_nSize (m_bits y) = map m_nSize (m_bits rest)"
    using removeNetDest_total [OF s] by blast
  have "route_step ps i (ls, ds, rest) = (if dest_elems rest \<inter> dest_elems ?r = {} then Some (ls, ds, rest)
      else Some (ls @ [?l], ds @ [x], y))"
    using assms(3) i l x y intersectionIsNotEmpty_total [OF len] by (simp add: route_step_def)
  moreover have "shape_ok ps y" using assms(2) unfolding shape_ok_map y(2) .
  ultimately show ?thesis using removeNetDest_elems [OF y(1)] assms(2) by auto
qed

lemma route_links_total:
  assumes "links_ok ps" "shape_ok ps d" "k \<le> length (ps_routing_table ps)"
  shows "\<exists>ls ds rest. for_each (route_step ps) [0..int k - 1] ([], [], d) = Some (ls, ds, rest) \<and> shape_ok ps rest \<and>
    dest_elems rest = dest_elems d - (\<Union>i < k. dest_elems (ps_routing_table ps ! nat (lo_link (ps_link_order ps ! i))))"
  using assms(3)
proof (induction k)
  case (Suc k)
  then obtain ls ds rest where IH: "for_each (route_step ps) [0..int k - 1] ([], [], d) = Some (ls, ds, rest)" "shape_ok ps rest"
    "dest_elems rest = dest_elems d - (\<Union>i < k. dest_elems (ps_routing_table ps ! nat (lo_link (ps_link_order ps ! i))))"
    by auto
  obtain ls' ds' rest' where "route_step ps (int k) (ls, ds, rest) = Some (ls', ds', rest')" "shape_ok ps rest'"
    "dest_elems rest' = dest_elems rest - dest_elems (ps_routing_table ps ! nat (lo_link (ps_link_order ps ! k)))"
    using route_step_total [OF assms(1) IH(2), of "int k" ls ds] Suc.prems by auto
  then show ?case using IH unfolding upto_snoc_nat for_each_append by (auto simp: lessThan_Suc)
qed (use assms in simp)

text \<open>C17. A perfect switch splits the destinations of a message exactly. It gives every chosen link a part of them that the link's
  routing table entry covers; the parts are not empty, no destination is in two of them, and together they are all the
  destinations. The assertion that nothing is left over fails exactly when some destination is in no entry of the
  routing table. This holds for every order in which the links are tried.\<close>

theorem perfect_switch_splits_destinations:
  assumes "links_ok ps" "shape_ok ps d"
  shows "case route_message ps d of
      None \<Rightarrow> \<not> dest_elems d \<subseteq> (\<Union>r \<in> set (ps_routing_table ps). dest_elems r)
    | Some (ls, ds) \<Rightarrow> dest_elems d \<subseteq> (\<Union>r \<in> set (ps_routing_table ps). dest_elems r) \<and>
        (\<Union>x \<in> set ds. dest_elems x) = dest_elems d \<and>
        sorted_wrt (\<lambda>x y. dest_elems x \<inter> dest_elems y = {}) ds \<and>
        list_all2 (\<lambda>l x. dest_elems x \<noteq> {} \<and> dest_elems x \<subseteq> dest_elems (ps_routing_table ps ! nat l)) ls ds"
proof -
  obtain ls ds rest where r: "route_links ps d = Some (ls, ds, rest)"
    "dest_elems rest = dest_elems d - (\<Union>i < length (ps_routing_table ps).
       dest_elems (ps_routing_table ps ! nat (lo_link (ps_link_order ps ! i))))"
    using route_links_total [OF assms order_refl] by (auto simp: route_links_def)
  have order: "set (ps_link_order ps) = (!) (ps_link_order ps) ` {..<length (ps_routing_table ps)}"
    using assms(1) by (auto simp: links_ok_def set_conv_nth)
  have "{0..<int (length (ps_routing_table ps))} = int ` {..<length (ps_routing_table ps)}"
    by (simp add: lessThan_atLeast0 image_int_atLeastLessThan)
  then have table: "set (ps_routing_table ps) = (\<lambda>l. ps_routing_table ps ! nat l) ` {0..<int (length (ps_routing_table ps))}"
    by (auto simp: set_conv_nth image_image)
  have "(\<Union>i < length (ps_routing_table ps). dest_elems (ps_routing_table ps ! nat (lo_link (ps_link_order ps ! i)))) =
      (\<Union>l \<in> lo_link ` set (ps_link_order ps). dest_elems (ps_routing_table ps ! nat l))"
    by (simp add: order image_image)
  also have "\<dots> = (\<Union>r \<in> set (ps_routing_table ps). dest_elems r)"
    using assms(1) by (simp add: links_ok_def table image_image)
  finally have "dest_elems rest = {} \<longleftrightarrow> dest_elems d \<subseteq> (\<Union>r \<in> set (ps_routing_table ps). dest_elems r)"
    using r(2) by auto
  then show ?thesis using r(1) route_links_inv [OF r(1)]
    by (cases "dest_elems rest = {}") (auto simp: route_message_def NetDest_count_0 split_inv_def sorted_wrt_append)
qed

definition sample_switch :: PerfectSwitch where
  "sample_switch = PerfectSwitch_addOutPort [Some 3] (sample_dest 2)
     (PerfectSwitch_addOutPort [Some 2] (sample_dest 1) (PerfectSwitch_init (PerfectSwitch_new 1)))"

theorem perfect_switch_splits_destinations_witness:
  "route_message sample_switch (sample_dest 3) = Some ([0, 1], [sample_dest 1, sample_dest 2]) \<and>
   (\<Union>x \<in> {sample_dest 1, sample_dest 2}. dest_elems x) = dest_elems (sample_dest 3) \<and>
   dest_elems (sample_dest 1) \<inter> dest_elems (sample_dest 2) = {}"
proof -
  have ok: "links_ok sample_switch" "shape_ok sample_switch (sample_dest 3)"
    by (auto simp: links_ok_def shape_ok_def same_shape_def sample_switch_def sample_dest_def PerfectSwitch_addOutPort_def
        PerfectSwitch_init_def PerfectSwitch_new_def)
  have run: "route_message sample_switch (sample_dest 3) = Some ([0, 1], [sample_dest 1, sample_dest 2])"
    by (simp add: route_message_def route_links_def route_step_def sample_switch_def PerfectSwitch_addOutPort_def
        PerfectSwitch_init_def PerfectSwitch_new_def sample_dest_def NetDest_intersectionIsNotEmpty_def
        Set_intersectionIsEmpty_def NetDest_AND_def Set_AND_def Set_sized_def NetDest_removeNetDest_def Set_removeSet_def
        NetDest_count_def Set_count_def upto.simps)
  show ?thesis using perfect_switch_splits_destinations [OF ok] unfolding run by simp
qed

section \<open>Messages on their way\<close>

text \<open>
  A parcel is one destination of one message. Splitting a message keeps its parcels, so the parcels in all buffers are
  what a step of the network has to keep.
\<close>

type_synonym parcel = "Tick \<times> MessageSizeType \<times> nat \<times> nat"

definition parcels_of :: "Message \<Rightarrow> parcel multiset" where
  "parcels_of m = image_mset (\<lambda>d. (m_msg_time m, MessageSize m, d)) (mset_set (dest_elems (Destination m)))"

definition buf_parcels :: "MessageBuffer \<Rightarrow> parcel multiset" where
  "buf_parcels b = (\<Sum>m \<in># mset (m_prio_heap b). parcels_of m)"

definition parcels :: "SimpleNetwork \<Rightarrow> parcel multiset" where
  "parcels n = (\<Sum>b \<leftarrow> sn_buffers n. buf_parcels b)"

text \<open>The messages that wait for a switch on a virtual network, and the count the switch keeps of them.\<close>

definition buf_waiting :: "int \<Rightarrow> int \<Rightarrow> MessageBuffer \<Rightarrow> nat" where
  "buf_waiting s v b = (if m_consumer b = Some (C_Switch s) \<and> m_vnet_id b = v then length (m_prio_heap b) else 0)"

definition waiting :: "SimpleNetwork \<Rightarrow> int \<Rightarrow> int \<Rightarrow> nat" where
  "waiting n s v = (\<Sum>b \<leftarrow> sn_buffers n. buf_waiting s v b)"

definition counts_ok :: "SimpleNetwork \<Rightarrow> bool" where
  "counts_ok n \<longleftrightarrow> (\<forall>s v k. mat_at (pending_counts n) s v = Some k \<longrightarrow> k = int (waiting n s v))"

definition heaps_ok :: "SimpleNetwork \<Rightarrow> bool" where
  "heaps_ok n \<longleftrightarrow> (\<forall>b \<in> set (sn_buffers n). is_heap msg_greater (m_prio_heap b))"

text \<open>A change that takes some parcels out and brings others in.\<close>

definition moved :: "parcel multiset \<Rightarrow> parcel multiset \<Rightarrow> SimpleNetwork \<Rightarrow> SimpleNetwork \<Rightarrow> bool" where
  "moved A B n n' \<longleftrightarrow> wiring n' = wiring n \<and> calm (sn_env n) (sn_env n') \<and> parcels n' + A = parcels n + B \<and>
     (counts_ok n \<longrightarrow> counts_ok n') \<and> (heaps_ok n \<longrightarrow> heaps_ok n')"

lemma moved_refl [simp]: "moved {#} {#} n n"
  by (simp add: moved_def)

lemma moved_trans:
  assumes "moved A B n n'" "moved A' B' n' n''"
  shows "moved (A + A') (B + B') n n''"
proof -
  have "parcels n'' + (A + A') = (parcels n'' + A') + A" by (simp add: ac_simps)
  also have "\<dots> = (parcels n' + A) + B'" using assms(2) by (simp add: moved_def ac_simps)
  also have "\<dots> = parcels n + (B + B')" using assms(1) by (simp add: moved_def ac_simps)
  finally show ?thesis using assms calm_trans by (auto simp: moved_def)
qed

lemma moved_cancel: "moved A A n n' \<Longrightarrow> moved {#} {#} n n'"
  by (simp add: moved_def)

lemma moved_keeps: "moved {#} {#} n n' \<Longrightarrow> moved {#} {#} n' n'' \<Longrightarrow> moved {#} {#} n n''"
  using moved_trans [of "{#}" "{#}" n n' "{#}" "{#}" n''] by simp

lemma map_factor:
  assumes "map f xs = map f ys" "\<And>x y. f x = f y \<Longrightarrow> g x = g y"
  shows "map g xs = map g ys"
proof (rule nth_equalityI)
  have len: "length xs = length ys" by (rule map_eq_imp_length_eq [OF assms(1)])
  then show "length (map g xs) = length (map g ys)" by simp
  fix i assume "i < length (map g xs)"
  then have i: "i < length xs" "i < length ys" using len by simp_all
  then have "f (xs ! i) = f (ys ! i)" using arg_cong [OF assms(1), of "\<lambda>l. l ! i"] by simp
  then have "g (xs ! i) = g (ys ! i)" by (rule assms(2))
  then show "map g xs ! i = map g ys ! i" using i by simp
qed

lemma quiet_moved:
  assumes "quiet n n'"
  shows "moved {#} {#} n n'"
proof -
  let ?f = "\<lambda>b. (m_prio_heap b, m_consumer b, m_vnet_id b)"
  have "map ?f (sn_buffers n') = map ?f (sn_buffers n)"
    using assms by (auto simp: quiet_def wiring_def list_eq_iff_nth_eq)
  note same = map_factor [OF this]
  have "map buf_parcels (sn_buffers n') = map buf_parcels (sn_buffers n)"
    by (rule same) (simp add: buf_parcels_def)
  then have p: "parcels n' = parcels n" by (simp only: parcels_def)
  have "map (buf_waiting s v) (sn_buffers n') = map (buf_waiting s v) (sn_buffers n)" for s v
    by (rule same) (simp add: buf_waiting_def)
  then have w: "waiting n' s v = waiting n s v" for s v by (simp only: waiting_def)
  have "map (\<lambda>b. is_heap msg_greater (m_prio_heap b)) (sn_buffers n') =
      map (\<lambda>b. is_heap msg_greater (m_prio_heap b)) (sn_buffers n)" by (rule same) simp
  moreover have "heaps_ok m \<longleftrightarrow> (\<forall>x \<in> set (map (\<lambda>b. is_heap msg_greater (m_prio_heap b)) (sn_buffers m)). x)" for m
    by (simp add: heaps_ok_def)
  ultimately have "heaps_ok n' = heaps_ok n" by (simp only:)
  then show ?thesis using assms p w by (simp add: moved_def quiet_def counts_ok_def)
qed

subsection \<open>One buffer\<close>

lemma parcels_of_simps [simp]:
  "parcels_of (arrived t a k m) = parcels_of m" "parcels_of (m\<lparr>m_DelayedTicks := d\<rparr>) = parcels_of m"
  by (simp_all add: parcels_of_def arrived_def)

lemma buffer_update:
  assumes "put_buf p b' n = Some n'" "deref n p = Some b" "m_consumer b' = m_consumer b" "m_vnet_id b' = m_vnet_id b"
  shows "wiring n' = wiring n" "parcels n' + buf_parcels b = parcels n + buf_parcels b'"
    "waiting n' s v + buf_waiting s v b = waiting n s v + buf_waiting s v b'"
    "heaps_ok n \<Longrightarrow> is_heap msg_greater (m_prio_heap b') \<Longrightarrow> heaps_ok n'"
    "sn_switches n' = sn_switches n" "sn_env n' = sn_env n"
proof -
  obtain i where i: "0 \<le> i" "i < int (length (sn_buffers n))" "sn_buffers n ! nat i = b"
    and n': "n' = n\<lparr>sn_buffers := (sn_buffers n)[nat i := b']\<rparr>"
    using assms(1,2) by (auto simp: put_buf_Some deref_Some)
  show "wiring n' = wiring n" using i assms(3,4) by (simp add: n' wiring_def map_update_same)
  show "parcels n' + buf_parcels b = parcels n + buf_parcels b'"
    using list_update_sum [of "nat i" "sn_buffers n" buf_parcels b'] i by (simp add: n' parcels_def)
  show "waiting n' s v + buf_waiting s v b = waiting n s v + buf_waiting s v b'"
    using list_update_sum [of "nat i" "sn_buffers n" "buf_waiting s v" b'] i by (simp add: n' waiting_def)
  show "heaps_ok n'" if "heaps_ok n" "is_heap msg_greater (m_prio_heap b')"
    using that set_update_subset_insert [of "sn_buffers n" "nat i" b'] by (auto simp: n' heaps_ok_def)
  show "sn_switches n' = sn_switches n" "sn_env n' = sn_env n" by (simp_all add: n')
qed

lemma pending_on_ps:
  assumes "on_ps sid (\<lambda>ps. do { c \<leftarrow> vec_add (ps_pending_message_count ps) vnet d;
      Some (ps\<lparr>ps_pending_message_count := c\<rparr>) }) n = Some n'"
  shows "wiring n' = wiring n \<and> sn_buffers n' = sn_buffers n \<and> sn_env n' = sn_env n \<and>
    mat_at (pending_counts n') s v = map_option (\<lambda>k. if s = sid \<and> v = vnet then k + d else k) (mat_at (pending_counts n) s v)"
proof -
  let ?c = "ps_pending_message_count (sw_perfect_switch (sn_switches n ! nat sid))"
  have r: "0 \<le> sid" "sid < int (length (sn_switches n))" "0 \<le> vnet" "vnet < int (length ?c)"
    and n': "n' = n\<lparr>sn_switches := (sn_switches n)[nat sid := (sn_switches n ! nat sid)\<lparr>sw_perfect_switch :=
      (sw_perfect_switch (sn_switches n ! nat sid))\<lparr>ps_pending_message_count := ?c[nat vnet := ?c ! nat vnet + d]\<rparr>\<rparr>]\<rparr>"
    using assms by (auto simp: on_ps_Some vec_add_eq_Some bind_Some)
  have "pending_counts n' = (pending_counts n)[nat sid := ?c[nat vnet := ?c ! nat vnet + d]]"
    by (simp add: n' pending_counts_def map_update)
  then have "mat_at (pending_counts n') s v = map_option (\<lambda>k. if s = sid \<and> v = vnet then k + d else k) (mat_at (pending_counts n) s v)"
    using r by (auto simp: mat_at_def vec_at_def pending_counts_def nth_list_update bind_Some)
  moreover have "wiring n' = wiring n" using r by (simp add: n' wiring_def map_update_same)
  ultimately show ?thesis by (simp add: n')
qed

lemma storeEventInfo_pending:
  assumes "storeEventInfo c vnet n = Some n'"
  shows "wiring n' = wiring n \<and> sn_buffers n' = sn_buffers n \<and> sn_env n' = sn_env n \<and>
    mat_at (pending_counts n') s v = map_option (\<lambda>k. if c = C_Switch s \<and> v = vnet then k + 1 else k) (mat_at (pending_counts n) s v)"
proof (cases "\<exists>sid. c = C_Switch sid")
  case True
  then obtain sid where c: "c = C_Switch sid" by blast
  have "(c = C_Switch s \<and> v = vnet) = (s = sid \<and> v = vnet)" by (auto simp: c)
  then show ?thesis using pending_on_ps [OF assms [unfolded c storeEventInfo.simps], of s v] by simp
next
  case False
  then have "n' = n" using assms by (cases c) simp_all
  then show ?thesis using False by (auto simp: option.map_ident)
qed

lemma sn_enqueue_moved:
  assumes "sn_enqueue sys p m t d n = Some n'"
  shows "moved {#} (parcels_of m) n n'"
proof -
  obtain b b' e n1 c where b: "deref n p = Some b" "mb_enqueue sys m t d b (sn_env n) = Some (b', e)"
    "put_buf p b' (n\<lparr>sn_env := e\<rparr>) = Some n1" "m_consumer b' = Some c" "storeEventInfo c (m_vnet_id b') n1 = Some n'"
    using assms by (auto simp: sn_enqueue_def bind_Some)
  obtain a k where h: "m_prio_heap b' = push_heap msg_greater (m_prio_heap b) (arrived t a k m)"
    "m_consumer b' = m_consumer b" "m_vnet_id b' = m_vnet_id b" using b(2) by (rule mb_enqueue_heap)
  let ?n = "n\<lparr>sn_env := e\<rparr>"
  have d: "deref ?n p = Some b" using b(1) by (simp add: deref_def)
  note u = buffer_update [OF b(3) d h(2,3)]
  have same: "wiring ?n = wiring n" "parcels ?n = parcels n" "waiting ?n = waiting n" "heaps_ok ?n = heaps_ok n"
    "pending_counts ?n = pending_counts n"
    by (simp_all add: wiring_def parcels_def waiting_def fun_eq_iff heaps_ok_def pending_counts_def)
  have "buf_parcels b' = buf_parcels b + parcels_of m" by (simp add: buf_parcels_def h(1))
  then have p: "parcels n1 = parcels n + parcels_of m" using u(2) same by (simp add: ac_simps)
  have w: "waiting n1 s v = waiting n s v + (if c = C_Switch s \<and> v = m_vnet_id b' then 1 else 0)" for s v
    using u(3) [of s v] b(4) h same by (auto simp: buf_waiting_def split: if_splits)
  have hp: "heaps_ok n1" if "heaps_ok n"
  proof -
    have "is_heap msg_greater (m_prio_heap b)" using that b(1) by (auto simp: heaps_ok_def deref_Some)
    then show ?thesis using u(4) that same h(1) by (simp add: msg.push_heap_heap)
  qed
  have st: "wiring n' = wiring n1" "sn_buffers n' = sn_buffers n1" "sn_env n' = sn_env n1"
    "mat_at (pending_counts n') s v = map_option (\<lambda>k. if c = C_Switch s \<and> v = m_vnet_id b' then k + 1 else k) (mat_at (pending_counts n1) s v)"
    for s v using storeEventInfo_pending [OF b(5)] by blast+
  have pc: "pending_counts n1 = pending_counts n" using u(5) same by (simp add: pending_counts_def)
  have "counts_ok n'" if "counts_ok n"
    using that st(4) pc w by (auto simp: counts_ok_def waiting_def st(2))
  moreover have "heaps_ok n'" if "heaps_ok n" using hp [OF that] st(2) by (simp add: heaps_ok_def)
  ultimately show ?thesis using st(1,3) u(1,6) same p mb_enqueue_env [OF b(2)] st(2) by (simp add: moved_def parcels_def)
qed

lemma sn_dequeue_effect:
  assumes "sn_dequeue p t n = Some (m, n')"
  obtains b d where "deref n p = Some b" "m_prio_heap b \<noteq> []" "m = (hd (m_prio_heap b))\<lparr>m_DelayedTicks := d\<rparr>"
    "wiring n' = wiring n" "calm (sn_env n) (sn_env n')" "pending_counts n' = pending_counts n"
    "parcels n' + parcels_of m = parcels n" "heaps_ok n \<Longrightarrow> heaps_ok n'"
    "\<And>s v. waiting n' s v + (if m_consumer b = Some (C_Switch s) \<and> m_vnet_id b = v then 1 else 0) = waiting n s v"
proof -
  obtain b b' e d where b: "deref n p = Some b" "mb_dequeue t True b (sn_env n) = Some (d, m, b', e)"
    "put_buf p b' (n\<lparr>sn_env := e\<rparr>) = Some n'"
    using assms by (auto simp: sn_dequeue_def bind_Some)
  note q = mb_dequeue_Some [OF b(2)]
  have ne: "m_prio_heap b \<noteq> []" and m: "m = (hd (m_prio_heap b))\<lparr>m_DelayedTicks := d\<rparr>"
    and c: "m_consumer b' = m_consumer b" "m_vnet_id b' = m_vnet_id b"
    and h: "m_prio_heap b' = pop_heap msg_greater (m_prio_heap b)" using q by (auto simp: mb_isReady_def)
  let ?n = "n\<lparr>sn_env := e\<rparr>"
  have dr: "deref ?n p = Some b" using b(1) by (simp add: deref_def)
  note u = buffer_update [OF b(3) dr c]
  have same: "wiring ?n = wiring n" "parcels ?n = parcels n" "waiting ?n = waiting n" "heaps_ok ?n = heaps_ok n"
    "pending_counts ?n = pending_counts n"
    by (simp_all add: wiring_def parcels_def waiting_def fun_eq_iff heaps_ok_def pending_counts_def)
  have ms: "mset (m_prio_heap b) = add_mset (hd (m_prio_heap b)) (mset (m_prio_heap b'))"
    using ne by (simp add: h mset_pop_heap)
  then have "buf_parcels b = buf_parcels b' + parcels_of m" by (simp add: buf_parcels_def m)
  then have p: "parcels n' + parcels_of m = parcels n" using u(2) same by (simp add: ac_simps)
  have "length (m_prio_heap b) = Suc (length (m_prio_heap b'))" using arg_cong [OF ms, of size] by simp
  then have w: "waiting n' s v + (if m_consumer b = Some (C_Switch s) \<and> m_vnet_id b = v then 1 else 0) = waiting n s v" for s v
    using u(3) [of s v] c same by (auto simp: buf_waiting_def split: if_splits)
  have "heaps_ok n'" if "heaps_ok n"
  proof -
    have "is_heap msg_greater (m_prio_heap b)" using that b(1) by (auto simp: heaps_ok_def deref_Some)
    then show ?thesis using u(4) that same h by (simp add: msg.pop_heap_heap)
  qed
  moreover have "pending_counts n' = pending_counts n" using u(5) same by (simp add: pending_counts_def)
  ultimately show thesis using that [OF b(1) ne m _ _ _ p _ w] u(1,6) same mb_dequeue_calm [OF b(2)] by simp
qed

text \<open>A buffer's consumer and virtual network, which the wiring fixes.\<close>

definition key_of :: "SimpleNetwork \<Rightarrow> mb_ptr \<Rightarrow> (consumer option \<times> int) option" where
  "key_of n p = map_option (\<lambda>b. (m_consumer b, m_vnet_id b)) (deref n p)"

lemma wiring_key:
  assumes "wiring n' = wiring n"
  shows "key_of n' p = key_of n p"
proof -
  let ?f = "\<lambda>b. (m_consumer b, m_vnet_id b)"
  have m: "map ?f (sn_buffers n') = map ?f (sn_buffers n)" using assms by (simp add: wiring_def)
  have "?f (sn_buffers n' ! i) = ?f (sn_buffers n ! i)" if "i < length (sn_buffers n)" for i
    using that arg_cong [OF m, of "\<lambda>l. l ! i"] map_eq_imp_length_eq [OF m] by simp
  then show ?thesis using map_eq_imp_length_eq [OF m]
    by (cases p) (auto simp: key_of_def deref_def vec_at_def)
qed

text \<open>A throttle or a controller takes a message; a switch takes one and counts it.\<close>

lemma sn_dequeue_moved:
  assumes "sn_dequeue p t n = Some (m, n')" "key_of n p = Some (c, w)" "\<And>s. c \<noteq> Some (C_Switch s)"
  shows "moved (parcels_of m) {#} n n'"
  using assms(1)
proof (cases rule: sn_dequeue_effect)
  case (1 b d)
  then have "m_consumer b = c" using assms(2) by (simp add: key_of_def)
  then have "waiting n' s v = waiting n s v" for s v using 1(9) [of s v] assms(3) by simp
  then show ?thesis using 1 by (simp add: moved_def counts_ok_def)
qed

lemma take_pending_moved:
  assumes "take_pending sid p vnet t n = Some (m, n')" "key_of n p = Some (Some (C_Switch sid), vnet)"
  shows "moved (parcels_of m) {#} n n'"
proof -
  let ?f = "\<lambda>ps. do { c \<leftarrow> vec_add (ps_pending_message_count ps) vnet (- 1);
         Some (ps\<lparr>ps_pending_message_count := c\<rparr>) }"
  obtain n1 where n1: "sn_dequeue p t n = Some (m, n1)" "on_ps sid ?f n1 = Some n'"
    using assms(1) by (auto simp: take_pending_def bind_Some)
  have st: "wiring n' = wiring n1" "sn_buffers n' = sn_buffers n1" "sn_env n' = sn_env n1"
    "mat_at (pending_counts n') s v = map_option (\<lambda>k. if s = sid \<and> v = vnet then k + (- 1) else k) (mat_at (pending_counts n1) s v)"
    for s v using pending_on_ps [OF n1(2)] by blast+
  from n1(1) show ?thesis
  proof (cases rule: sn_dequeue_effect)
    case (1 b d)
    have key: "m_consumer b = Some (C_Switch sid)" "m_vnet_id b = vnet" using assms(2) 1(1) by (auto simp: key_of_def)
    have w: "waiting n1 s v + (if s = sid \<and> v = vnet then 1 else 0) = waiting n s v" for s v
      using 1(9) [of s v] key by (auto split: if_splits)
    have "counts_ok n'" if "counts_ok n"
      unfolding counts_ok_def
    proof (intro allI impI)
      fix s v k assume "mat_at (pending_counts n') s v = Some k"
      then obtain k0 where "mat_at (pending_counts n) s v = Some k0" "k = (if s = sid \<and> v = vnet then k0 - 1 else k0)"
        using st(4) [of s v] 1(6) by auto
      moreover from this have "k0 = int (waiting n s v)" using that unfolding counts_ok_def by blast
      moreover have "waiting n' s v = waiting n1 s v" by (simp add: waiting_def st(2))
      ultimately show "k = int (waiting n' s v)" using w [of s v] by (auto split: if_splits)
    qed
    then show ?thesis using 1 st by (simp add: moved_def parcels_def heaps_ok_def)
  qed
qed

subsection \<open>One message through a switch\<close>

lemma route_message_parts:
  assumes "route_message ps d = Some (ls, ds)"
  shows "length ls = length ds \<and> (\<Union>x \<in> set ds. dest_elems x) = dest_elems d \<and>
    sorted_wrt (\<lambda>x y. dest_elems x \<inter> dest_elems y = {}) ds"
proof -
  obtain rest where r: "route_links ps d = Some (ls, ds, rest)" "dest_elems rest = {}"
    using assms by (auto simp: route_message_def bind_Some NetDest_count_0)
  show ?thesis using route_links_inv [OF r(1)] r(2)
    by (auto simp: split_inv_def sorted_wrt_append dest: list_all2_lengthD)
qed

lemma parcels_split:
  assumes "sorted_wrt (\<lambda>x y. dest_elems x \<inter> dest_elems y = {}) ds"
  shows "(\<Sum>d \<leftarrow> ds. parcels_of (m\<lparr>Destination := d\<rparr>)) =
    image_mset (\<lambda>d. (m_msg_time m, MessageSize m, d)) (mset_set (\<Union>x \<in> set ds. dest_elems x))"
  using assms
proof (induction ds)
  case (Cons d ds)
  then have "dest_elems d \<inter> (\<Union>x \<in> set ds. dest_elems x) = {}" by auto
  then have "mset_set (dest_elems d \<union> (\<Union>x \<in> set ds. dest_elems x)) = mset_set (dest_elems d) + mset_set (\<Union>x \<in> set ds. dest_elems x)"
    by (intro mset_set_Union) auto
  then show ?case using Cons by (simp add: parcels_of_def)
qed simp

lemma send_copies_moved:
  assumes "send_copies sys ps ls ds vnet t (m\<lparr>m_DelayedTicks := d\<rparr>) m n = Some n'" "length ls = length ds"
  shows "moved {#} (\<Sum>d \<leftarrow> ds. parcels_of (m\<lparr>Destination := d\<rparr>)) n n'"
proof -
  let ?f = "\<lambda>i n. do { outgoing \<leftarrow> vec_at ls i; dst \<leftarrow> vec_at ds i; p \<leftarrow> mat_at (ps_out ps) outgoing vnet;
         let x = (if i > 0 then m else m\<lparr>m_DelayedTicks := d\<rparr>)\<lparr>Destination := dst\<rparr>;
         sn_enqueue sys p x t (cyclesToTicks (sn_env n) 1) n }"
  have "moved {#} (\<Sum>d \<leftarrow> take k ds. parcels_of (m\<lparr>Destination := d\<rparr>)) n n'"
    if "for_each ?f [0..int k - 1] n = Some n'" "k \<le> length ds" for k n'
    using that
  proof (induction k arbitrary: n')
    case (Suc k)
    obtain n1 where n1: "for_each ?f [0..int k - 1] n = Some n1" "?f (int k) n1 = Some n'"
      using Suc.prems(1) unfolding upto_snoc_nat for_each_append by (auto simp: bind_Some)
    let ?x = "(if int k > 0 then m else m\<lparr>m_DelayedTicks := d\<rparr>)\<lparr>Destination := ds ! k\<rparr>"
    obtain p where "sn_enqueue sys p ?x t (cyclesToTicks (sn_env n1) 1) n1 = Some n'"
      using n1(2) Suc.prems(2) by (auto simp: bind_Some Let_def)
    then have "moved {#} (parcels_of ?x) n1 n'" by (rule sn_enqueue_moved)
    moreover have "parcels_of ?x = parcels_of (m\<lparr>Destination := ds ! k\<rparr>)" by (simp add: parcels_of_def)
    ultimately show ?case using moved_trans [OF Suc.IH [OF n1(1)]] Suc.prems(2) by (simp add: take_Suc_conv_app_nth)
  qed simp
  from this [of "length ds" n'] show ?thesis using assms by (simp add: send_copies_def)
qed

lemma operate_one_moved:
  assumes "operate_one sys sid p vnet t n = Some (go, n')" "key_of n p = Some (Some (C_Switch sid), vnet)"
  shows "moved {#} {#} n n'"
  using assms(1)
proof (cases rule: operate_one_cases)
  case (1 b m n1 ps1 ls ds n2)
  have q: "quiet n n2" using order_links_quiet [OF 1(3)] check_slots_quiet [OF 1(6)] quiet_trans by blast
  show ?thesis
  proof (cases go)
    case False
    then show ?thesis using q sn_scheduleEvent_quiet [OF 1(7)] quiet_trans quiet_moved by blast
  next
    case True
    obtain m' n3 where s: "take_pending sid p vnet t n2 = Some (m', n3)" "send_copies sys ps1 ls ds vnet t m' m n3 = Some n'"
      using 1(8) [OF True] by blast
    have "key_of n2 p = Some (Some (C_Switch sid), vnet)" using wiring_key [of n2 n p] q assms(2) by (simp add: quiet_def)
    then have out: "moved (parcels_of m') {#} n2 n3" by (rule take_pending_moved [OF s(1)])
    obtain b2 d where b2: "deref n2 p = Some b2" "m' = (hd (m_prio_heap b2))\<lparr>m_DelayedTicks := d\<rparr>"
      using s(1) by (auto simp: take_pending_def bind_Some elim: sn_dequeue_effect)
    have "m_prio_heap b2 = m_prio_heap b" using quiet_deref [OF q, of p] 1(1) b2(1) by simp
    then have m': "m' = m\<lparr>m_DelayedTicks := d\<rparr>" using b2(2) 1(2) by (simp add: peekMsgPtr_def split: if_splits)
    note parts = route_message_parts [OF 1(5)]
    have "moved {#} (\<Sum>d \<leftarrow> ds. parcels_of (m\<lparr>Destination := d\<rparr>)) n3 n'"
      by (rule send_copies_moved [OF s(2) [unfolded m']]) (use parts in blast)
    then have "moved {#} (parcels_of m') n3 n'" using parts parcels_split [of ds m] by (simp add: m' parcels_of_def)
    then have "moved (parcels_of m') (parcels_of m') n n'"
      using moved_trans [OF moved_trans [OF quiet_moved [OF q] out]] by fastforce
    then show ?thesis by (rule moved_cancel)
  qed
qed

lemma operateMessageBuffer_moved:
  assumes "operateMessageBuffer sys sid p vnet t n = Some n'" "key_of n p = Some (Some (C_Switch sid), vnet)"
  shows "moved {#} {#} n n'"
  using assms
proof (induction sys sid p vnet t n arbitrary: n' rule: operateMessageBuffer.induct)
  case (1 sys sid p vnet t n)
  show ?case
  proof (cases "\<exists>b. deref n p = Some b \<and> mb_isReady t b")
    case False
    then have "n' = n" using 1(2) by (auto simp: operateMessageBuffer.simps [of _ _ _ _ _ n] bind_Some)
    then show ?thesis by simp
  next
    case True
    then obtain b where b: "deref n p = Some b" "mb_isReady t b" by blast
    obtain go n1 where r: "operate_one sys sid p vnet t n = Some (go, n1)"
      "if go then operateMessageBuffer sys sid p vnet t n1 = Some n' else n' = n1"
      using 1(2) b by (auto simp: operateMessageBuffer.simps [of _ _ _ _ _ n] bind_Some split: if_splits)
    have m1: "moved {#} {#} n n1" by (rule operate_one_moved [OF r(1) 1(3)])
    then have "key_of n1 p = Some (Some (C_Switch sid), vnet)" using wiring_key [of n1 n p] 1(3) by (simp add: moved_def)
    then show ?thesis using 1(1) [OF b r(1)] r(2) m1 moved_keeps by (cases go) auto
  qed
qed

subsection \<open>Wake-ups\<close>

text \<open>
  The wiring that the construction sets up: the buffers a switch or a throttle reads from have it as their consumer, and
  a switch reads them at their virtual network.
\<close>

definition wired :: "SimpleNetwork \<Rightarrow> bool" where
  "wired n \<longleftrightarrow>
     (\<forall>s ps i v p. get_ps s n = Some ps \<longrightarrow> mat_at (ps_in ps) i v = Some p \<longrightarrow> p \<noteq> None \<longrightarrow>
        key_of n p = Some (Some (C_Switch s), v)) \<and>
     (\<forall>s k th v p. get_th s k n = Some th \<longrightarrow> vec_at (th_in th) v = Some p \<longrightarrow> p \<noteq> None \<longrightarrow>
        (\<exists>w. key_of n p = Some (Some (C_Throttle s k), w)))"

lemma wiring_switch:
  assumes "wiring n' = wiring n"
  shows "map_option (\<lambda>ps. (ps_in ps, ps_virtual_networks ps)) (get_ps s n') =
      map_option (\<lambda>ps. (ps_in ps, ps_virtual_networks ps)) (get_ps s n)"
    "map_option (\<lambda>th. (th_in th, th_out th, th_vnets th)) (get_th s k n') =
      map_option (\<lambda>th. (th_in th, th_out th, th_vnets th)) (get_th s k n)"
proof -
  let ?t = "\<lambda>th. (th_in th, th_out th, th_vnets th)"
  let ?f = "\<lambda>sw. (ps_in (sw_perfect_switch sw), ps_virtual_networks (sw_perfect_switch sw), map ?t (sw_throttles sw))"
  have m: "map ?f (sn_switches n') = map ?f (sn_switches n)"
    using assms unfolding wiring_def by (auto intro: map_factor [of _ "sn_switches n'" "sn_switches n"])
  have f: "?f (sn_switches n' ! i) = ?f (sn_switches n ! i)" if "i < length (sn_switches n)" for i
    using that arg_cong [OF m, of "\<lambda>l. l ! i"] map_eq_imp_length_eq [OF m] by simp
  have len: "length (sn_switches n') = length (sn_switches n)" by (rule map_eq_imp_length_eq [OF m])
  then show "map_option (\<lambda>ps. (ps_in ps, ps_virtual_networks ps)) (get_ps s n') =
      map_option (\<lambda>ps. (ps_in ps, ps_virtual_networks ps)) (get_ps s n)"
    using f [of "nat s"] by (auto simp: get_ps_def vec_at_def)
  show "map_option ?t (get_th s k n') = map_option ?t (get_th s k n)"
  proof (cases "0 \<le> s \<and> s < int (length (sn_switches n))")
    case True
    then have ths: "map ?t (sw_throttles (sn_switches n' ! nat s)) = map ?t (sw_throttles (sn_switches n ! nat s))"
      using f [of "nat s"] by auto
    have "?t (sw_throttles (sn_switches n' ! nat s) ! nat k) = ?t (sw_throttles (sn_switches n ! nat s) ! nat k)"
      if "nat k < length (sw_throttles (sn_switches n ! nat s))"
      using that arg_cong [OF ths, of "\<lambda>l. l ! nat k"] map_eq_imp_length_eq [OF ths] by simp
    then show ?thesis using True len map_eq_imp_length_eq [OF ths] by (auto simp: get_th_def vec_at_def)
  qed (auto simp: get_th_def vec_at_def len)
qed

lemma wiring_wired:
  assumes "wiring n' = wiring n" "wired n"
  shows "wired n'"
  unfolding wired_def
proof (intro conjI allI impI)
  fix s ps i v p assume a: "get_ps s n' = Some ps" "mat_at (ps_in ps) i v = Some p" "p \<noteq> None"
  then obtain ps0 where "get_ps s n = Some ps0" "ps_in ps0 = ps_in ps" using wiring_switch(1) [OF assms(1), of s, symmetric] by auto
  then show "key_of n' p = Some (Some (C_Switch s), v)"
    using a assms(2) wiring_key [OF assms(1), of p] unfolding wired_def by metis
next
  fix s k th v p assume a: "get_th s k n' = Some th" "vec_at (th_in th) v = Some p" "p \<noteq> None"
  then obtain th0 where "get_th s k n = Some th0" "th_in th0 = th_in th" using wiring_switch(2) [OF assms(1), of s k, symmetric] by auto
  then show "\<exists>w. key_of n' p = Some (Some (C_Throttle s k), w)"
    using a assms(2) wiring_key [OF assms(1), of p] unfolding wired_def by metis
qed

lemma operate_inport_moved:
  assumes "operate_inport sys sid ps vnet incoming m = Some m'" "moved {#} {#} n m" "get_ps sid n = Some ps" "wired n"
  shows "moved {#} {#} n m'"
proof -
  obtain row where row: "vec_at (ps_in ps) incoming = Some row" using assms(1) by (auto simp: operate_inport_def bind_Some)
  show ?thesis
  proof (cases "int (length row) \<le> vnet \<or> vec_at row vnet = Some None")
    case True
    then have "m' = m" using assms(1) row by (auto simp: operate_inport_def bind_Some split: if_splits)
    then show ?thesis using assms(2) by simp
  next
    case False
    then obtain p t where p: "vec_at row vnet = Some p" "p \<noteq> None" "operateMessageBuffer sys sid p vnet t m = Some m'"
      using assms(1) row by (auto simp: operate_inport_def bind_Some split: if_splits)
    have "mat_at (ps_in ps) incoming vnet = Some p" using row p(1) by (simp add: mat_at_def)
    then have "key_of n p = Some (Some (C_Switch sid), vnet)" using assms(3,4) p(2) unfolding wired_def by blast
    then have "key_of m p = Some (Some (C_Switch sid), vnet)" using wiring_key [of m n p] assms(2) by (simp add: moved_def)
    then show ?thesis using operateMessageBuffer_moved [OF p(3)] assms(2) moved_keeps by blast
  qed
qed

lemma operateVnet_cases:
  assumes "PerfectSwitch_operateVnet sys sid vnet n = Some n'"
  obtains ps n1 c where "get_ps sid n = Some ps" "quiet n n1" "mat_at (pending_counts n) sid vnet = Some c"
    "c \<le> 0 \<Longrightarrow> n' = n1"
    "0 < c \<Longrightarrow> \<exists>i. for_each (\<lambda>counter (incoming, n). do {
           let incoming = wrap_inc (int (length (ps_in ps))) incoming;
           n \<leftarrow> operate_inport sys sid ps vnet incoming n;
           Some (incoming, n) })
         [0..int (length (ps_in ps)) - 1] (ps_round_robin_start ps, n1) = Some (i, n')"
proof -
  obtain ps n1 c where r: "get_ps sid n = Some ps"
    "on_ps sid (\<lambda>ps. Some (ps\<lparr>ps_round_robin_start := wrap_inc (int (length (ps_in ps))) (ps_round_robin_start ps)\<rparr>)) n = Some n1"
    "vec_at (ps_pending_message_count ps) vnet = Some c"
    using assms by (auto simp: PerfectSwitch_operateVnet_def bind_Some)
  have q: "quiet n n1" using r(2) by (rule quiet_on_ps) auto
  have c: "mat_at (pending_counts n) sid vnet = Some c"
    using r(1,3) by (auto simp: get_ps_def vec_at_def mat_at_def pending_counts_def split: if_splits)
  show thesis
    by (rule that [OF r(1) q c]) (use assms r in \<open>auto simp: PerfectSwitch_operateVnet_def bind_Some\<close>)
qed

lemma operateVnet_moved:
  assumes "PerfectSwitch_operateVnet sys sid vnet n = Some n'" "wired n"
  shows "moved {#} {#} n n'"
  using assms(1)
proof (cases rule: operateVnet_cases)
  case (1 ps n1 c)
  have m1: "moved {#} {#} n n1" using 1(2) by (rule quiet_moved)
  show ?thesis
  proof (cases "0 < c")
    case True
    then obtain i where run: "for_each (\<lambda>counter (incoming, n). do {
           let incoming = wrap_inc (int (length (ps_in ps))) incoming;
           n \<leftarrow> operate_inport sys sid ps vnet incoming n;
           Some (incoming, n) })
         [0..int (length (ps_in ps)) - 1] (ps_round_robin_start ps, n1) = Some (i, n')" using 1(5) by blast
    have "moved {#} {#} n (snd (i, n'))"
      using run by (rule for_each_inv) (use m1 in \<open>auto simp: bind_Some Let_def intro: operate_inport_moved [OF _ _ 1(1) assms(2)]\<close>)
    then show ?thesis by simp
  qed (use 1(4) m1 in simp)
qed

lemma PerfectSwitch_turn_quiet: "PerfectSwitch_turn sid n = Some (b, n') \<Longrightarrow> quiet n n'"
proof -
  assume run: "PerfectSwitch_turn sid n = Some (b, n')"
  have w: "quiet m m'" if "on_ps sid (\<lambda>ps. Some (ps\<lparr>ps_wakeups_wo_switch := f ps\<rparr>)) m = Some m'" for f m m'
    using that by (rule quiet_on_ps) auto
  show "quiet n n'" using run
    by (auto simp: PerfectSwitch_turn_def bind_Some split: if_splits
        intro: w [of "\<lambda>ps. ps_wakeups_wo_switch ps + 1"] quiet_trans [OF w [of "\<lambda>ps. ps_wakeups_wo_switch ps + 1"] w [of "\<lambda>_. 0"]])
qed

lemma PerfectSwitch_wakeup_moved:
  assumes "PerfectSwitch_wakeup sys sid n = Some n'" "wired n"
  shows "moved {#} {#} n n'"
proof -
  obtain b n1 xs where r: "PerfectSwitch_turn sid n = Some (b, n1)" "for_each (PerfectSwitch_operateVnet sys sid) xs n1 = Some n'"
    using assms(1) by (auto simp: PerfectSwitch_wakeup_def bind_Some Let_def)
  from r(2) show ?thesis
  proof (rule for_each_inv)
    show "moved {#} {#} n n1" by (rule quiet_moved [OF PerfectSwitch_turn_quiet [OF r(1)]])
    show "moved {#} {#} n m'" if "moved {#} {#} n m" "PerfectSwitch_operateVnet sys sid x m = Some m'" for x m m'
    proof -
      have "wired m" using wiring_wired [of m n] that(1) assms(2) by (simp add: moved_def)
      then show ?thesis using moved_keeps [OF that(1)] operateVnet_moved [OF that(2)] by blast
    qed
  qed
qed

subsection \<open>Wake-ups of a throttle\<close>

lemma fetch_message_moved:
  assumes run: "fetch_message sys sid k vnet inp out t n = Some n'" and key: "key_of n inp = Some (Some (C_Throttle sid k), w)"
  shows "moved {#} {#} n n'"
proof -
  obtain u b where u: "get_units sid k vnet n = Some u" "deref n inp = Some b"
    using run by (auto simp: fetch_message_def bind_Some)
  from run u show ?thesis
  proof (cases rule: fetch_message_cases)
    case (fetch th m size n1 m' n2 n3)
    have q: "quiet n n1" by (rule set_units_quiet [OF fetch(6)])
    have "key_of n1 inp = Some (Some (C_Throttle sid k), w)" using wiring_key [of n1 n inp] q key by (simp add: quiet_def)
    then have "moved (parcels_of m') {#} n1 n2" by (rule sn_dequeue_moved [OF fetch(7)]) simp
    moreover have "moved {#} (parcels_of m') n2 n3" by (rule sn_enqueue_moved [OF fetch(8)])
    ultimately have "moved (parcels_of m') (parcels_of m') n1 n3" using moved_trans by fastforce
    then have "moved {#} {#} n1 n3" by (rule moved_cancel)
    moreover have "quiet n3 n'" using fetch(9) by (rule quiet_on_th) (auto simp: count_message_def)
    ultimately show ?thesis using q quiet_moved moved_keeps by blast
  qed simp
qed

lemma transfer_units_moved:
  assumes "transfer_units sys sid k vnet inp out t bw n = Some (bw', n')" "key_of n inp = Some (Some (C_Throttle sid k), w)"
  shows "moved {#} {#} n n'"
proof -
  obtain n1 u where r: "fetch_message sys sid k vnet inp out t n = Some n1" "set_units sid k vnet u n1 = Some n'"
    using assms(1) by (auto simp: transfer_units_def bind_Some spend_bandwidth_Some)
  show ?thesis using fetch_message_moved [OF r(1) assms(2)] quiet_moved [OF set_units_quiet [OF r(2)]] moved_keeps by blast
qed

lemma throttle_loop_cases:
  assumes "throttle_loop sys sid k vnet inp out t bw n = Some (bw', n')"
  obtains (idle) "has_work sid k vnet inp t bw n = Some False" "bw' = bw" "n' = n"
    | (blocked) "has_work sid k vnet inp t bw n = Some True" "sn_slots out t n = Some (False, n')" "bw' = bw"
    | (moves) n1 bw2 n2 where "has_work sid k vnet inp t bw n = Some True" "sn_slots out t n = Some (True, n1)"
        "transfer_units sys sid k vnet inp out t bw n1 = Some (bw2, n2)"
        "throttle_loop sys sid k vnet inp out t bw2 n2 = Some (bw', n')"
  using assms unfolding throttle_loop.simps [of sys sid k vnet inp out t bw n]
  by (auto simp: bind_Some split: if_splits)

lemma throttle_loop_moved:
  assumes "throttle_loop sys sid k vnet inp out t bw n = Some (bw', n')" "key_of n inp = Some (Some (C_Throttle sid k), w)"
  shows "moved {#} {#} n n'"
  using assms
proof (induction sys sid k vnet inp out t bw n rule: throttle_loop.induct)
  case (1 sys sid k vnet inp out t bw n)
  from 1(2) show ?case
  proof (cases rule: throttle_loop_cases)
    case (moves n1 bw2 n2)
    have q: "moved {#} {#} n n1" by (rule quiet_moved [OF sn_slots_quiet [OF moves(2)]])
    have k1: "key_of n1 inp = Some (Some (C_Throttle sid k), w)" using wiring_key [of n1 n inp] q 1(3) by (simp add: moved_def)
    have m2: "moved {#} {#} n1 n2" by (rule transfer_units_moved [OF moves(3) k1])
    have "key_of n2 inp = Some (Some (C_Throttle sid k), w)" using wiring_key [of n2 n1 inp] m2 k1 by (simp add: moved_def)
    then have "moved {#} {#} n2 n'" using 1(1) [of True "(True, n1)" "(bw2, n2)"] moves by simp
    then show ?thesis using q m2 moved_keeps by blast
  qed (auto intro: quiet_moved sn_slots_quiet)
qed

lemma Throttle_operateVnet_cases:
  assumes "Throttle_operateVnet sys sid k vnet inp out bw sch n = Some (bw', sch', n')"
  obtains (none) "out = None \<or> inp = None" "bw' = bw" "sch' = sch" "n' = n"
    | (work) u n1 w where "inp \<noteq> None" "out \<noteq> None" "get_units sid k vnet n = Some u" "0 \<le> u"
        "throttle_loop sys sid k vnet inp out (clockEdge (sn_env n) 0) bw n = Some (bw', n1)"
        "has_work sid k vnet inp (clockEdge (sn_env n) 0) bw' n1 = Some w"
        "if w then \<exists>ok. sn_slots out (clockEdge (sn_env n) 0) n1 = Some (ok, n') \<and> sch' = (sch \<or> \<not> ok)
         else n' = n1 \<and> sch' = sch"
proof (cases "out = None \<or> inp = None")
  case True
  then show thesis using assms none by (simp add: Throttle_operateVnet_def)
next
  case False
  let ?t = "clockEdge (sn_env n) 0"
  obtain u bw1 n1 w where r: "get_units sid k vnet n = Some u" "0 \<le> u"
    "throttle_loop sys sid k vnet inp out ?t bw n = Some (bw1, n1)" "has_work sid k vnet inp ?t bw1 n1 = Some w"
    "(if \<not> w then Some (bw1, sch, n1) else do { (ok, n) \<leftarrow> sn_slots out ?t n1; Some (bw1, sch \<or> \<not> ok, n) }) = Some (bw', sch', n')"
    using assms False unfolding Throttle_operateVnet_def Let_def bind_Some split_paired_Ex prod.case if_not_P [OF False] cassert_eq_Some
    by (elim exE conjE) (rule that, assumption+)
  have bw: "bw1 = bw'" using r(5) by (auto simp: bind_Some split: if_splits)
  show thesis by (rule work [OF _ _ r(1,2) r(3,4) [unfolded bw]]) (use False r(5) in \<open>auto simp: bind_Some split: if_splits\<close>)
qed

lemma Throttle_operateVnet_moved:
  assumes "Throttle_operateVnet sys sid k vnet inp out bw sch n = Some (bw', sch', n')"
    "inp \<noteq> None \<Longrightarrow> key_of n inp = Some (Some (C_Throttle sid k), w)"
  shows "moved {#} {#} n n'"
  using assms(1)
proof (cases rule: Throttle_operateVnet_cases)
  case (work u n1 w')
  have "moved {#} {#} n n1" by (rule throttle_loop_moved [OF work(5) assms(2) [OF work(1)]])
  moreover have "moved {#} {#} n1 n'" using work(7) quiet_moved sn_slots_quiet by (auto split: if_splits)
  ultimately show ?thesis by (rule moved_keeps)
qed simp

lemma Throttle_turn_quiet: "Throttle_turn sid k n = Some (b, n') \<Longrightarrow> quiet n n'"
proof -
  assume run: "Throttle_turn sid k n = Some (b, n')"
  have w: "quiet m m'" if "on_th sid k (\<lambda>th. Some (th\<lparr>th_wakeups_wo_switch := f th\<rparr>)) m = Some m'" for f m m'
    using that by (rule quiet_on_th) auto
  show "quiet n n'" using run
    by (auto simp: Throttle_turn_def bind_Some split: if_splits
        intro: w [of "\<lambda>th. th_wakeups_wo_switch th + 1"] quiet_trans [OF w [of "\<lambda>th. th_wakeups_wo_switch th + 1"] w [of "\<lambda>_. 0"]])
qed

lemma Throttle_wakeup_cases:
  assumes "Throttle_wakeup sys sid k n = Some n'"
  obtains th dir n1 bw sch n2 n3 where "get_th sid k n = Some th" "0 < getLinkBandwidth th" "Throttle_turn sid k n = Some (dir, n1)"
    "for_each (Throttle_operate sys sid k th) (if dir then [0..th_vnets th - 1] else rev [0..th_vnets th - 1])
       (getLinkBandwidth th, False, n1) = Some (bw, sch, n2)" "quiet n2 n3"
    "if bw > 0 \<and> \<not> sch then n' = n3 else sn_scheduleEvent (C_Throttle sid k) 1 n3 = Some n'"
proof -
  obtain th dir n1 bw sch n2 n3 r where w: "get_th sid k n = Some th" "0 < getLinkBandwidth th" "Throttle_turn sid k n = Some (dir, n1)"
    "for_each (Throttle_operate sys sid k th) (if dir then [0..th_vnets th - 1] else rev [0..th_vnets th - 1])
       (getLinkBandwidth th, False, n1) = Some (bw, sch, n2)"
    "on_th sid k (\<lambda>th. Some (th\<lparr>th_link_utilization_proxy := th_link_utilization_proxy th + r\<rparr>)) n2 = Some n3"
    "(if bw > 0 \<and> \<not> sch then Some n3 else sn_scheduleEvent (C_Throttle sid k) 1 n3) = Some n'"
    using assms unfolding Throttle_wakeup_def bind_Some Let_def split_paired_Ex prod.case cassert_eq_Some
    by (elim exE conjE) (rule that, assumption+)
  have "quiet n2 n3" using w(5) by (rule quiet_on_th) auto
  then show thesis by (rule that [OF w(1-4)]) (use w(6) in \<open>auto split: if_splits\<close>)
qed

lemma Throttle_operate_moved:
  assumes "Throttle_operate sys sid k th vnet (bw, sch, m) = Some (bw', sch', m')" "moved {#} {#} n m"
    "get_th sid k n = Some th" "wired n"
  shows "moved {#} {#} n m'"
proof -
  obtain inp out where io: "vec_at (th_in th) vnet = Some inp"
    "Throttle_operateVnet sys sid k vnet inp out bw sch m = Some (bw', sch', m')"
    using assms(1) by (auto simp: Throttle_operate_def bind_Some)
  have "\<exists>w. key_of n inp = Some (Some (C_Throttle sid k), w)" if "inp \<noteq> None"
    using assms(3,4) io(1) that unfolding wired_def by blast
  then obtain w where "inp \<noteq> None \<Longrightarrow> key_of m inp = Some (Some (C_Throttle sid k), w)"
    using wiring_key [of m n inp] assms(2) by (auto simp: moved_def)
  then show ?thesis using Throttle_operateVnet_moved [OF io(2)] assms(2) moved_keeps by blast
qed

lemma Throttle_wakeup_moved:
  assumes "Throttle_wakeup sys sid k n = Some n'" "wired n"
  shows "moved {#} {#} n n'"
  using assms(1)
proof (cases rule: Throttle_wakeup_cases)
  case (1 th dir n1 bw sch n2 n3)
  have "moved {#} {#} n (snd (snd (bw, sch, n2)))"
    using 1(4)
  proof (rule for_each_inv)
    show "moved {#} {#} n (snd (snd (getLinkBandwidth th, False, n1)))"
      using quiet_moved [OF Throttle_turn_quiet [OF 1(3)]] by simp
  qed (auto intro: Throttle_operate_moved [OF _ _ 1(1) assms(2)])
  then have "moved {#} {#} n n3" using moved_keeps [OF _ quiet_moved [OF 1(5)]] by simp
  moreover have "moved {#} {#} n3 n'"
    using 1(6) by (cases "bw > 0 \<and> \<not> sch") (simp_all add: quiet_moved sn_scheduleEvent_quiet)
  ultimately show ?thesis by (rule moved_keeps)
qed

end
