(* ===== verification/Spec2Isabelle.thy ===== *)
theory Spec2Isabelle
  imports Net_Dest Ruby_Message Mesh_Routing Ruby_Topology Swap_Exchange Wake_Ups Functional_Write Simple_Delivery
begin

text \<open>
  A verification development of the Garnet 2.0 on-chip network of gem5 with the SWAP deadlock
  scheme.
\<close>

end
